(* ===== verification/Prelude.thy ===== *)
theory Prelude
  imports Main "HOL-Library.Word"
begin

text \<open>
  Shared vocabulary of the development.
  \<^item> machine integers of the code (\<open>u8\<close>, \<open>u16\<close>, \<open>u32\<close>, \<open>u64\<close>) as words; \<open>usize\<close> lengths and
    indices are \<open>nat\<close> (a Rust buffer never exceeds \<open>isize::MAX\<close> bytes);
  \<^item> \<open>[u8; 32]\<close> values (public keys, hashes, content ids) as \<open>256 word\<close>, read big-endian, so that
    the numeric order of the word is the lexicographic order \<open>Ord\<close> gives the array
    (\<open>key_bytes_less_iff\<close> proves it) and \<open>[0u8; 32]\<close> is \<open>0\<close>;
  \<^item> \<open>outcome\<close>: a Rust computation returns a value, returns an \<open>Err\<close>, or panics;
  \<^item> little- and big-endian byte encodings and the locale of fixed-width codecs, interpreted for
    each of them.
\<close>

unbundle bit_operations_syntax

type_synonym u8 = "8 word"
type_synonym u16 = "16 word"
type_synonym u32 = "32 word"
type_synonym u64 = "64 word"
type_synonym bytes = "u8 list"
type_synonym key32 = "256 word"

named_theorems outcome_simps \<open>evaluation of computations that may fail or panic\<close>
named_theorems codec_simps \<open>lengths and inverses of the byte encodings\<close>

section \<open>Outcomes of Rust computations\<close>

datatype ('e, 'a) outcome = Ok 'a | Err 'e | Panic

fun obind :: "('e, 'a) outcome \<Rightarrow> ('a \<Rightarrow> ('e, 'b) outcome) \<Rightarrow> ('e, 'b) outcome" where
  "obind (Ok x) f = f x"
| "obind (Err e) f = Err e"
| "obind Panic f = Panic"

fun omap :: "('a \<Rightarrow> 'b) \<Rightarrow> ('e, 'a) outcome \<Rightarrow> ('e, 'b) outcome" where
  "omap f (Ok x) = Ok (f x)"
| "omap f (Err e) = Err e"
| "omap f Panic = Panic"

declare obind.simps [outcome_simps] omap.simps [outcome_simps]

lemma obind_eq_Ok [simp]: "obind m f = Ok y \<longleftrightarrow> (\<exists>x. m = Ok x \<and> f x = Ok y)"
  by (cases m) auto

lemma obind_eq_Err: "obind m f = Err e \<longleftrightarrow> m = Err e \<or> (\<exists>x. m = Ok x \<and> f x = Err e)"
  by (cases m) auto

lemma obind_eq_Panic: "obind m f = Panic \<longleftrightarrow> m = Panic \<or> (\<exists>x. m = Ok x \<and> f x = Panic)"
  by (cases m) auto

lemma omap_eq_Ok [simp]: "omap f m = Ok y \<longleftrightarrow> (\<exists>x. m = Ok x \<and> f x = y)"
  by (cases m) auto

lemma obind_cong [fundef_cong]:
  "m = m' \<Longrightarrow> (\<And>x. m' = Ok x \<Longrightarrow> f x = g x) \<Longrightarrow> obind m f = obind m' g"
  by (cases m') auto

fun map_err :: "('e \<Rightarrow> 'f) \<Rightarrow> ('e, 'a) outcome \<Rightarrow> ('f, 'a) outcome" where
  "map_err f (Ok x) = Ok x"
| "map_err f (Err e) = Err (f e)"
| "map_err f Panic = Panic"

declare map_err.simps [outcome_simps]

lemma map_err_eq_Ok [simp]: "map_err f m = Ok x \<longleftrightarrow> m = Ok x"
  by (cases m) auto

lemma map_err_eq_Err: "map_err f m = Err e \<longleftrightarrow> (\<exists>e'. m = Err e' \<and> e = f e')"
  by (cases m) auto

lemma map_err_eq_Panic: "map_err f m = Panic \<longleftrightarrow> m = Panic"
  by (cases m) auto

text \<open>The checked index \<open>xs[i]\<close>.\<close>

definition oidx :: "'a list \<Rightarrow> nat \<Rightarrow> ('e, 'a) outcome" where
  "oidx xs i = (if i < length xs then Ok (xs ! i) else Panic)"

lemma oidx_in [simp, outcome_simps]: "i < length xs \<Longrightarrow> oidx xs i = Ok (xs ! i)"
  by (simp add: oidx_def)

lemma oidx_eq_Ok: "oidx xs i = Ok y \<longleftrightarrow> i < length xs \<and> y = xs ! i"
  by (auto simp: oidx_def)

text \<open>Mapping a fallible function over a list, left to right, stopping at the first failure.\<close>

fun otraverse :: "('a \<Rightarrow> ('e, 'b) outcome) \<Rightarrow> 'a list \<Rightarrow> ('e, 'b list) outcome" where
  "otraverse f [] = Ok []"
| "otraverse f (x # xs) = obind (f x) (\<lambda>y. obind (otraverse f xs) (\<lambda>ys. Ok (y # ys)))"

lemma otraverse_eq_Ok:
  "otraverse f xs = Ok ys \<longleftrightarrow> list_all2 (\<lambda>x y. f x = Ok y) xs ys"
  by (induction xs arbitrary: ys) (auto simp: list_all2_Cons1)

lemma otraverse_all_Ok:
  "(\<And>x. x \<in> set xs \<Longrightarrow> f x = Ok (g x)) \<Longrightarrow> otraverse f xs = Ok (map g xs)"
  by (induction xs) auto

lemma otraverse_cong [fundef_cong]:
  "xs = ys \<Longrightarrow> (\<And>x. x \<in> set ys \<Longrightarrow> f x = g x) \<Longrightarrow> otraverse f xs = otraverse g ys"
proof (induction xs arbitrary: ys)
  case (Cons x xs)
  then show ?case by (cases ys) (auto intro!: obind_cong)
qed simp

text \<open>A loop that writes a buffer at increasing indices.\<close>

lemma fold_update:
  "length (fold (\<lambda>i xs. xs[i := f i]) [a..<b] ys) = length ys \<and>
   (b \<le> length ys \<longrightarrow> j < length ys \<longrightarrow>
     fold (\<lambda>i xs. xs[i := f i]) [a..<b] ys ! j = (if a \<le> j \<and> j < b then f j else ys ! j))"
proof (induction b)
  case (Suc b)
  show ?case
  proof (cases "a \<le> b")
    case True
    with Suc.IH show ?thesis
      by (auto simp: nth_list_update less_Suc_eq le_less_Suc_eq)
  qed (use Suc in auto)
qed simp

lemma all_u8_iff: "(\<forall>x :: u8. P x) \<longleftrightarrow> list_all (\<lambda>n. P (of_nat n)) [0..<256]"
proof
  assume all: "list_all (\<lambda>n. P (of_nat n)) [0..<256]"
  show "\<forall>x. P x"
  proof
    fix x :: u8
    have "unat x \<in> {0..<256}" using unsigned_less [of x] by simp
    moreover from all have "\<forall>n \<in> {0..<256}. P (of_nat n)" by (simp only: list_all_iff set_upt)
    ultimately have "P (of_nat (unat x))" by (rule bspec [rotated])
    then show "P x" by simp
  qed
qed (auto simp: list_all_iff)

lemma unat_u8_less [simp]: "unat (x :: u8) < 256"
  using unsigned_less [of x] by simp

text \<open>
  Unsigned arithmetic in Rust depends on the build: with overflow checks (\<open>oc\<close>, the debug profile) an
  overflow panics, without them (release) it wraps. \<open>saturating_*\<close> operations do neither.
\<close>

definition add64 :: "bool \<Rightarrow> u64 \<Rightarrow> u64 \<Rightarrow> ('e, u64) outcome" where
  "add64 oc a b = (if oc \<and> 2 ^ 64 \<le> unat a + unat b then Panic else Ok (a + b))"

definition usize_add :: "bool \<Rightarrow> nat \<Rightarrow> nat \<Rightarrow> ('e, nat) outcome" where
  "usize_add oc a b = (if a + b < 2 ^ 64 then Ok (a + b) else if oc then Panic else Ok ((a + b) mod 2 ^ 64))"

definition usize_mul :: "bool \<Rightarrow> nat \<Rightarrow> nat \<Rightarrow> ('e, nat) outcome" where
  "usize_mul oc a b = (if a * b < 2 ^ 64 then Ok (a * b) else if oc then Panic else Ok (a * b mod 2 ^ 64))"

definition usize_sub :: "bool \<Rightarrow> nat \<Rightarrow> nat \<Rightarrow> ('e, nat) outcome" where
  "usize_sub oc a b = (if b \<le> a then Ok (a - b) else if oc then Panic else Ok (2 ^ 64 + a - b))"

definition sat_add64 :: "u64 \<Rightarrow> u64 \<Rightarrow> u64" where
  "sat_add64 a b = (if 2 ^ 64 \<le> unat a + unat b then - 1 else a + b)"

definition sat_sub64 :: "u64 \<Rightarrow> u64 \<Rightarrow> u64" where
  "sat_sub64 a b = (if a < b then 0 else a - b)"

definition sat_mul64 :: "u64 \<Rightarrow> u64 \<Rightarrow> u64" where
  "sat_mul64 a b = (if 2 ^ 64 \<le> unat a * unat b then - 1 else a * b)"

lemma unat_add64: "unat (a :: u64) + unat b < 2 ^ 64 \<Longrightarrow> unat (a + b) = unat a + unat b"
  by (simp add: unat_word_ariths(1))

lemma unat_mul64: "unat (a :: u64) * unat b < 2 ^ 64 \<Longrightarrow> unat (a * b) = unat a * unat b"
  by (simp add: unat_word_ariths(2))

lemma unat_max64: "unat (- 1 :: u64) = 2 ^ 64 - 1"
  by (simp only: unsigned_minus_1_eq_mask) (simp add: mask_eq_exp_minus_1)

lemma unat_sat_add64: "unat (sat_add64 a b) = min (unat a + unat b) (2 ^ 64 - 1)"
  by (auto simp: sat_add64_def unat_add64 unat_max64 min_def simp del: unsigned_minus_1_eq_mask)

lemma unat_sat_sub64: "unat (sat_sub64 a b) = unat a - unat b"
  by (auto simp: sat_sub64_def word_less_nat_alt unat_sub_if')

lemma unat_sat_mul64: "unat (sat_mul64 a b) = min (unat a * unat b) (2 ^ 64 - 1)"
  by (auto simp: sat_mul64_def unat_mul64 unat_max64 min_def simp del: unsigned_minus_1_eq_mask)

text \<open>A parallel map whose results are collected in order: a panic in any task is a panic of the whole.\<close>

definition opar :: "('a \<Rightarrow> ('e, 'b) outcome) \<Rightarrow> 'a list \<Rightarrow> ('e, 'b list) outcome" where
  "opar f xs = (if list_ex (\<lambda>x. case f x of Panic \<Rightarrow> True | _ \<Rightarrow> False) xs then Panic else otraverse f xs)"

lemma opar_all_Ok: "(\<And>x. x \<in> set xs \<Longrightarrow> f x = Ok (g x)) \<Longrightarrow> opar f xs = Ok (map g xs)"
  by (auto simp: opar_def list_ex_iff otraverse_all_Ok split: outcome.splits)

lemma opar_eq_Ok: "opar f xs = Ok ys \<longleftrightarrow> list_all2 (\<lambda>x y. f x = Ok y) xs ys"
proof -
  have "list_all2 (\<lambda>x y. f x = Ok y) xs ys \<Longrightarrow> x \<in> set xs \<Longrightarrow> \<exists>y. f x = Ok y" for x
    by (auto simp: list_all2_conv_all_nth in_set_conv_nth)
  then show ?thesis
    by (auto simp: opar_def otraverse_eq_Ok list_ex_iff split: outcome.splits)
qed

text \<open>The decimal digits \<open>format!\<close> writes.\<close>

fun dec_string :: "nat \<Rightarrow> string" where
  "dec_string n = (if n < 10 then [char_of (48 + n)] else dec_string (n div 10) @ [char_of (48 + n mod 10)])"

declare dec_string.simps [simp del]

text \<open>\<open>usize::div_ceil\<close>, for a nonzero divisor.\<close>

definition div_ceil :: "nat \<Rightarrow> nat \<Rightarrow> nat" where
  "div_ceil a b = (if a mod b = 0 then a div b else a div b + 1)"

lemma div_ceil_bounds:
  assumes "0 < b"
  shows "a \<le> div_ceil a b * b" and "div_ceil a b * b < a + b"
proof -
  define q r where "q = a div b" and "r = a mod b"
  have a: "a = q * b + r" and r: "r < b"
    using assms by (simp_all add: q_def r_def)
  have d: "div_ceil a b = (if r = 0 then q else q + 1)"
    by (simp add: div_ceil_def q_def r_def)
  show "a \<le> div_ceil a b * b"
    using r unfolding d by (simp add: a)
  show "div_ceil a b * b < a + b"
    using r unfolding d by (auto simp: a)
qed

lemma div_ceil_unique:
  assumes "0 < b" and "a \<le> q * b" and "q * b < a + b"
  shows "div_ceil a b = q"
proof -
  let ?d = "div_ceil a b"
  note d = div_ceil_bounds [OF assms(1), of a]
  have "q * b < (?d + 1) * b" and "?d * b < (q + 1) * b"
    using d assms by simp_all
  then have "q < ?d + 1" and "?d < q + 1"
    using assms(1) mult_less_cancel2 by blast+
  then show ?thesis by simp
qed

lemma div_ceil_pos: "0 < a \<Longrightarrow> 0 < b \<Longrightarrow> 0 < div_ceil a b"
  using div_ceil_bounds(1) [of b a] by (cases "div_ceil a b") auto

section \<open>Bytes of an integer\<close>

primrec le_bytes :: "nat \<Rightarrow> 'a::len word \<Rightarrow> bytes" where
  "le_bytes 0 x = []"
| "le_bytes (Suc n) x = ucast x # le_bytes n (drop_bit 8 x)"

primrec of_le :: "bytes \<Rightarrow> 'a::len word" where
  "of_le [] = 0"
| "of_le (b # bs) = ucast b OR push_bit 8 (of_le bs)"

definition be_bytes :: "nat \<Rightarrow> 'a::len word \<Rightarrow> bytes" where
  "be_bytes n x = rev (le_bytes n x)"

definition of_be :: "bytes \<Rightarrow> 'a::len word" where
  "of_be bs = of_le (rev bs)"

lemma length_le_bytes [simp, codec_simps]: "length (le_bytes n x) = n"
  by (induction n arbitrary: x) simp_all

lemma length_be_bytes [simp, codec_simps]: "length (be_bytes n x) = n"
  by (simp add: be_bytes_def)

lemma of_le_le_bytes: "of_le (le_bytes n x) = take_bit (8 * n) (x :: 'a::len word)"
proof (induction n arbitrary: x)
  case (Suc n)
  have "ucast (ucast x :: u8) OR push_bit 8 (take_bit (8 * n) (drop_bit 8 x))
      = take_bit (8 * Suc n) x"
    by (rule bit_word_eqI) (auto simp: bit_simps)
  with Suc.IH show ?case by simp
qed simp

lemma le_bytes_of_le:
  assumes "8 * length bs \<le> LENGTH('a)"
  shows "le_bytes (length bs) (of_le bs :: 'a::len word) = bs"
  using assms
proof (induction bs)
  case (Cons b bs)
  have "ucast (ucast b OR push_bit 8 (of_le bs :: 'a word)) = b"
    using Cons.prems by (intro bit_word_eqI) (auto simp: bit_simps)
  moreover have "drop_bit 8 (ucast b OR push_bit 8 (of_le bs :: 'a word)) = drop_bit 8 (push_bit 8 (of_le bs :: 'a word))"
    by (rule bit_word_eqI) (auto simp: bit_simps dest: bit_imp_le_length)
  moreover have "le_bytes (length bs) (drop_bit 8 (push_bit 8 (of_le bs :: 'a word))) = bs"
  proof -
    have eq: "take_bit (8 * length bs) (drop_bit 8 (push_bit 8 (of_le bs :: 'a word)))
      = take_bit (8 * length bs) (of_le bs)"
      using Cons.prems by (intro bit_word_eqI) (auto simp: bit_simps)
    have "le_bytes n (x :: 'a word) = le_bytes n (take_bit (8 * n) x)" for n x
    proof (induction n arbitrary: x)
      case (Suc n)
      have "drop_bit 8 (take_bit (8 * Suc n) x) = take_bit (8 * n) (drop_bit 8 x)"
        by (rule bit_word_eqI) (auto simp: bit_simps)
      moreover have "(ucast x :: u8) = ucast (take_bit (8 * Suc n) x)"
        by (rule bit_word_eqI) (auto simp: bit_simps)
      ultimately show ?case using Suc.IH [of "drop_bit 8 x"] by simp
    qed simp
    from this [of "length bs"] eq Cons show ?thesis by (metis Suc_leD add_leD2 length_Cons mult_Suc_right)
  qed
  ultimately show ?case by simp
qed simp

section \<open>Fixed-width codecs\<close>

locale fixed_codec =
  fixes enc :: "'a \<Rightarrow> bytes" and dec :: "bytes \<Rightarrow> 'a" and width :: nat
  assumes enc_length: "length (enc x) = width"
    and dec_enc: "dec (enc x) = x"
begin

lemma enc_inject: "enc x = enc y \<longleftrightarrow> x = y"
  by (metis dec_enc)

lemma enc_append_inject: "enc x @ r = enc y @ s \<longleftrightarrow> x = y \<and> r = s"
  by (simp add: enc_length enc_inject)

lemma take_enc: "take width (enc x @ r) = enc x"
  by (simp add: enc_length)

lemma drop_enc: "drop width (enc x @ r) = r"
  by (simp add: enc_length)

lemma dec_take: "dec (take width (enc x @ r)) = x"
  by (simp only: take_enc dec_enc)

end

text \<open>A codec whose every string of the right length is the encoding of a value.\<close>

locale full_codec = fixed_codec +
  assumes enc_dec: "length bs = width \<Longrightarrow> enc (dec bs) = bs"
begin

lemma dec_inject: "length bs = width \<Longrightarrow> length cs = width \<Longrightarrow> dec bs = dec cs \<longleftrightarrow> bs = cs"
  by (metis enc_dec)

end

interpretation le32: full_codec "le_bytes 4 :: u32 \<Rightarrow> bytes" of_le 4
proof
  fix bs :: bytes assume "length bs = 4"
  then show "le_bytes 4 (of_le bs :: u32) = bs"
    using le_bytes_of_le [of bs, where ?'a = 32] by simp
qed (simp_all add: of_le_le_bytes take_bit_word_eq_self)

interpretation le64: full_codec "le_bytes 8 :: u64 \<Rightarrow> bytes" of_le 8
proof
  fix bs :: bytes assume "length bs = 8"
  then show "le_bytes 8 (of_le bs :: u64) = bs"
    using le_bytes_of_le [of bs, where ?'a = 64] by simp
qed (simp_all add: of_le_le_bytes take_bit_word_eq_self)

interpretation be32: full_codec "be_bytes 4 :: u32 \<Rightarrow> bytes" of_be 4
proof
  fix bs :: bytes assume "length bs = 4"
  then show "be_bytes 4 (of_be bs :: u32) = bs"
    using le_bytes_of_le [of "rev bs", where ?'a = 32] by (simp add: be_bytes_def of_be_def)
qed (simp_all add: be_bytes_def of_be_def of_le_le_bytes take_bit_word_eq_self)

interpretation be64: full_codec "be_bytes 8 :: u64 \<Rightarrow> bytes" of_be 8
proof
  fix bs :: bytes assume "length bs = 8"
  then show "be_bytes 8 (of_be bs :: u64) = bs"
    using le_bytes_of_le [of "rev bs", where ?'a = 64] by (simp add: be_bytes_def of_be_def)
qed (simp_all add: be_bytes_def of_be_def of_le_le_bytes take_bit_word_eq_self)

text \<open>The 32 bytes of a key or hash.\<close>

abbreviation key_bytes :: "key32 \<Rightarrow> bytes" where
  "key_bytes \<equiv> be_bytes 32"

abbreviation of_key_bytes :: "bytes \<Rightarrow> key32" where
  "of_key_bytes \<equiv> of_be"

interpretation key: full_codec key_bytes of_key_bytes 32
proof
  fix bs :: bytes assume "length bs = 32"
  then show "key_bytes (of_key_bytes bs) = bs"
    using le_bytes_of_le [of "rev bs", where ?'a = 256] by (simp add: be_bytes_def of_be_def)
qed (simp_all add: be_bytes_def of_be_def of_le_le_bytes take_bit_word_eq_self)

text \<open>
  The order of the words is the order Rust gives the byte arrays: \<open>Ord\<close> on \<open>[u8; 32]\<close> compares
  lexicographically.
\<close>

lemma lexordp_snoc:
  "length xs = length ys \<Longrightarrow>
    ord_class.lexordp (xs @ [a]) (ys @ [b :: u8]) \<longleftrightarrow> ord_class.lexordp xs ys \<or> xs = ys \<and> a < b"
  by (induction xs ys rule: list_induct2) auto

lemma less_div_mod_iff:
  fixes a b :: nat
  shows "a div 256 < b div 256 \<or> a div 256 = b div 256 \<and> a mod 256 < b mod 256 \<longleftrightarrow> a < b"
proof -
  define q r q' r' where "q = a div 256" and "r = a mod 256" and "q' = b div 256" and "r' = b mod 256"
  have "a = 256 * q + r" "b = 256 * q' + r'" "r < 256" "r' < 256"
    by (simp_all add: q_def r_def q'_def r'_def)
  then have "q < q' \<or> q = q' \<and> r < r' \<longleftrightarrow> a < b"
    by linarith
  then show ?thesis
    by (simp only: q_def r_def q'_def r'_def)
qed

lemma be_bytes_less_iff:
  fixes x y :: "'a::len word"
  assumes "unat x < 256 ^ n" and "unat y < 256 ^ n"
  shows "ord_class.lexordp (be_bytes n x) (be_bytes n y) \<longleftrightarrow> x < y"
  using assms
proof (induction n arbitrary: x y)
  case 0
  then show ?case by (simp add: be_bytes_def word_less_nat_alt)
next
  case (Suc n)
  have u: "unat (drop_bit 8 z) = unat z div 256" for z :: "'a word"
    by (simp only: unat_drop_bit_eq) (simp add: drop_bit_eq_div)
  have l: "unat (ucast z :: u8) = unat z mod 256" for z :: "'a word"
    by (simp only: unsigned_ucast_eq) (simp add: take_bit_eq_mod)
  have inj: "le_bytes n (drop_bit 8 x) = le_bytes n (drop_bit 8 y) \<longleftrightarrow> drop_bit 8 x = drop_bit 8 y"
  proof
    assume "le_bytes n (drop_bit 8 x) = le_bytes n (drop_bit 8 y)"
    then have "take_bit (8 * n) (drop_bit 8 x) = take_bit (8 * n) (drop_bit 8 y)"
      by (metis of_le_le_bytes)
    then have "unat (take_bit (8 * n) (drop_bit 8 x)) = unat (take_bit (8 * n) (drop_bit 8 y))"
      by simp
    moreover have "(2::nat) ^ (8 * n) = 256 ^ n"
      by (simp add: power_mult)
    ultimately show "drop_bit 8 x = drop_bit 8 y"
      using Suc.prems by (simp add: word_unat_eq_iff unsigned_take_bit_eq
          take_bit_nat_eq_self u less_mult_imp_div_less mult.commute)
  qed simp
  have "ord_class.lexordp (be_bytes (Suc n) x) (be_bytes (Suc n) y) \<longleftrightarrow>
      drop_bit 8 x < drop_bit 8 y \<or> drop_bit 8 x = drop_bit 8 y \<and> (ucast x :: u8) < ucast y"
    using Suc.IH [of "drop_bit 8 x" "drop_bit 8 y"] Suc.prems
    by (simp add: be_bytes_def lexordp_snoc inj u less_mult_imp_div_less mult.commute)
  also have "\<dots> \<longleftrightarrow> unat x div 256 < unat y div 256 \<or>
      unat x div 256 = unat y div 256 \<and> unat x mod 256 < unat y mod 256"
    by (simp add: word_less_nat_alt word_unat_eq_iff u l)
  also have "\<dots> \<longleftrightarrow> unat x < unat y"
    by (rule less_div_mod_iff)
  finally show ?case by (simp add: word_less_nat_alt)
qed

lemma key_bytes_less_iff: "ord_class.lexordp (key_bytes x) (key_bytes y) \<longleftrightarrow> x < y"
proof -
  have "unat z < 256 ^ 32" for z :: key32
    by (rule order_less_le_trans [OF unsigned_less]) simp
  then show ?thesis by (intro be_bytes_less_iff)
qed

section \<open>Strings\<close>

definition continuation :: "u8 \<Rightarrow> bool" where
  "continuation b \<longleftrightarrow> 0x80 \<le> b \<and> b \<le> 0xBF"

text \<open>\<open>std::str::from_utf8\<close> accepts exactly these byte strings.\<close>

fun utf8_valid :: "bytes \<Rightarrow> bool" where
  "utf8_valid [] = True"
| "utf8_valid (a # bs) =
     (if a < 0x80 then utf8_valid bs
      else if a < 0xC2 then False
      else if a < 0xE0 then (case bs of b # rest \<Rightarrow> continuation b \<and> utf8_valid rest | _ \<Rightarrow> False)
      else if a < 0xF0 then
        (case bs of b # c # rest \<Rightarrow> continuation b \<and> (a = 0xE0 \<longrightarrow> 0xA0 \<le> b) \<and> (a = 0xED \<longrightarrow> b \<le> 0x9F) \<and>
           continuation c \<and> utf8_valid rest | _ \<Rightarrow> False)
      else if a < 0xF5 then
        (case bs of b # c # d # rest \<Rightarrow> continuation b \<and> (a = 0xF0 \<longrightarrow> 0x90 \<le> b) \<and> (a = 0xF4 \<longrightarrow> b \<le> 0x8F) \<and>
           continuation c \<and> continuation d \<and> utf8_valid rest | _ \<Rightarrow> False)
      else False)"

text \<open>
  A \<open>string\<close> stands for the UTF-8 bytes of a Rust string: \<open>&s[n..]\<close> panics past the end and inside
  a character.
\<close>

definition is_char_boundary :: "string \<Rightarrow> nat \<Rightarrow> bool" where
  "is_char_boundary s n \<longleftrightarrow> n = 0 \<or> n = length s \<or> n < length s \<and> \<not> continuation (of_char (s ! n))"

definition str_from :: "string \<Rightarrow> nat \<Rightarrow> ('e, string) outcome" where
  "str_from s n = (if is_char_boundary s n then Ok (drop n s) else Panic)"

lemma str_from_append: "(case t of [] \<Rightarrow> True | c # _ \<Rightarrow> \<not> continuation (of_char c)) \<Longrightarrow> str_from (s @ t) (length s) = Ok t"
  by (cases t) (simp_all add: str_from_def is_char_boundary_def)

text \<open>A path is the string it is written as; \<open>Path::join\<close> on Unix.\<close>

type_synonym path = string

definition path_join :: "path \<Rightarrow> path \<Rightarrow> path" where
  "path_join p q =
     (if q \<noteq> [] \<and> hd q = CHR ''/'' then q
      else if p \<noteq> [] \<and> last p \<noteq> CHR ''/'' then p @ ''/'' @ q
      else p @ q)"

end
