(* ===== verification/Core.thy ===== *)
theory Core
  imports Prelude
begin

text \<open>
  \<open>crates/core/src/lib.rs\<close>: the shared error type, the epoch, the service types and their numeric
  tags, and the trait \<open>ContributionReceipt\<close>, which the model gives as the record of what its methods
  return for one receipt.
\<close>

datatype craft_error =
    NetworkError string
  | PeerNotFound string
  | EncryptionFailed string
  | DecryptionFailed string
  | InvalidPublicKey
  | InvalidSignature
  | SerializationError string
  | SettlementError string
  | Timeout

record epoch =
  epoch_index :: u64
  epoch_start :: "64 word" \<comment> \<open>\<open>i64\<close>, read with \<open>sint\<close>\<close>
  epoch_end :: "64 word"

datatype service_type = Tunnel | Data | Compute | Parallel | Bundle

fun service_type_from_u8 :: "u8 \<Rightarrow> service_type option" where
  "service_type_from_u8 value =
     (if value = 0 then Some Tunnel
      else if value = 1 then Some Data
      else if value = 2 then Some Compute
      else if value = 3 then Some Parallel
      else if value = 4 then Some Bundle
      else None)"

text \<open>The \<open>#[repr(u8)]\<close> discriminants, \<open>service_type as u8\<close>.\<close>

fun service_type_u8 :: "service_type \<Rightarrow> u8" where
  "service_type_u8 Tunnel = 0"
| "service_type_u8 Data = 1"
| "service_type_u8 Compute = 2"
| "service_type_u8 Parallel = 3"
| "service_type_u8 Bundle = 4"

record contribution =
  c_weight :: u64
  c_signable_data :: bytes
  c_operator :: key32
  c_signer :: key32
  c_timestamp :: u64
  c_signature :: bytes

text \<open>
  the numeric tag of a service type is read back to the same service type, and nothing else is:
  a byte is accepted exactly when it is the tag of the service type returned.
\<close>

theorem service_type_roundtrip:
  "service_type_from_u8 b = Some s \<longleftrightarrow> b = service_type_u8 s"
  by (cases s) auto

end
