(* ===== verification/Accounts.thy ===== *)
theory Accounts
  imports Core
begin

text \<open>
  \<open>crates/settlement/src/accounts.rs\<close>: the account records, payment vouchers and storage receipts with
  the bytes that are signed and hashed. \<open>bincode\<close> (a serializer and a deserializer per type) and
  SHA-256 are parameters. \<open>i64\<close> fields are 64-bit words, read with \<open>sint\<close>.
\<close>

section \<open>The code\<close>

datatype storage_tier = Free | Lite | Standard | Pro | Enterprise

fun storage_tier_from_u8 :: "u8 \<Rightarrow> storage_tier option" where
  "storage_tier_from_u8 v =
     (if v = 0 then Some Free
      else if v = 1 then Some Lite
      else if v = 2 then Some Standard
      else if v = 3 then Some Pro
      else if v = 4 then Some Enterprise
      else None)"

fun storage_tier_u8 :: "storage_tier \<Rightarrow> u8" where
  "storage_tier_u8 Free = 0"
| "storage_tier_u8 Lite = 1"
| "storage_tier_u8 Standard = 2"
| "storage_tier_u8 Pro = 3"
| "storage_tier_u8 Enterprise = 4"

text \<open>The \<open>f64\<close> constants are integers, represented exactly.\<close>

fun min_shard_ratio :: "storage_tier \<Rightarrow> int" where
  "min_shard_ratio Free = 0"
| "min_shard_ratio Lite = 2"
| "min_shard_ratio Standard = 3"
| "min_shard_ratio Pro = 5"
| "min_shard_ratio Enterprise = 10"

record creator_pool =
  cp_creator :: key32
  cp_balance :: u64
  cp_original_balance :: u64
  cp_tier :: storage_tier
  cp_funded_cid_count :: u32
  cp_distribution_posted :: bool
  cp_distribution_root :: key32
  cp_total_weight :: u64
  cp_created_at :: "64 word"

record pool =
  pl_pool_pubkey :: key32
  pl_service :: u8
  pl_tier :: u8
  pl_start_date :: "64 word"
  pl_created_at :: "64 word"
  pl_expires_at :: "64 word"
  pl_pool_balance :: u64
  pl_original_pool_balance :: u64
  pl_total_weight :: u64
  pl_distribution_root :: key32
  pl_distribution_posted :: bool

record payment_channel =
  pc_user :: key32
  pc_node :: key32
  pc_locked_amount :: u64
  pc_redeemed_amount :: u64
  pc_nonce :: u64
  pc_is_open :: bool
  pc_created_at :: "64 word"
  pc_expires_at :: "64 word"

text \<open>\<open>to_bytes\<close> and \<open>from_bytes\<close> of the three account types; \<open>expect\<close> panics if serialization fails.\<close>

definition account_to_bytes :: "('a \<Rightarrow> bytes option) \<Rightarrow> 'a \<Rightarrow> ('e, bytes) outcome" where
  "account_to_bytes serialize self = (case serialize self of Some bs \<Rightarrow> Ok bs | None \<Rightarrow> Panic)"

definition account_from_bytes :: "(bytes \<Rightarrow> string + 'a) \<Rightarrow> bytes \<Rightarrow> (string, 'a) outcome" where
  "account_from_bytes deserialize data = (case deserialize data of Inr account \<Rightarrow> Ok account | Inl e \<Rightarrow> Err e)"

definition CREATOR_POOL_DISCRIMINATOR :: bytes where
  "CREATOR_POOL_DISCRIMINATOR = map of_char ''creatpol''"

definition POOL_DISCRIMINATOR :: bytes where
  "POOL_DISCRIMINATOR = map of_char ''poolacct''"

definition PAYMENT_CHANNEL_DISCRIMINATOR :: bytes where
  "PAYMENT_CHANNEL_DISCRIMINATOR = map of_char ''paychanl''"

record payment_voucher =
  pv_channel :: key32
  pv_amount :: u64
  pv_nonce :: u64
  pv_signature :: bytes

definition voucher_signable_data :: "key32 \<Rightarrow> u64 \<Rightarrow> u64 \<Rightarrow> bytes" where
  "voucher_signable_data channel amount nonce = key_bytes channel @ le_bytes 8 amount @ le_bytes 8 nonce"

record storage_receipt =
  content_id :: key32
  storage_node :: key32
  challenger :: key32
  shard_index :: u32
  timestamp :: u64
  nonce :: key32
  proof_hash :: key32
  signature :: bytes

definition dedup_input :: "storage_receipt \<Rightarrow> bytes" where
  "dedup_input self = key_bytes (content_id self) @ le_bytes 4 (shard_index self) @
     key_bytes (storage_node self) @ key_bytes (challenger self) @ le_bytes 8 (timestamp self)"

definition dedup_hash :: "(bytes \<Rightarrow> key32) \<Rightarrow> storage_receipt \<Rightarrow> key32" where
  "dedup_hash sha256 self = sha256 (dedup_input self)"

definition signable_bytes :: "storage_receipt \<Rightarrow> bytes" where
  "signable_bytes self = key_bytes (content_id self) @ key_bytes (storage_node self) @
     key_bytes (challenger self) @ le_bytes 4 (shard_index self) @ le_bytes 8 (timestamp self) @
     key_bytes (nonce self) @ key_bytes (proof_hash self)"

text \<open>The implementation of \<open>ContributionReceipt\<close>; \<open>signature\<close> keeps the trait's default, the empty slice.\<close>

definition contribution_of :: "storage_receipt \<Rightarrow> contribution" where
  "contribution_of self =
     \<lparr>c_weight = 1, c_signable_data = signable_bytes self, c_operator = storage_node self,
      c_signer = challenger self, c_timestamp = timestamp self, c_signature = []\<rparr>"

section \<open>Signed and hashed bytes\<close>

lemma length_signable_bytes: "length (signable_bytes r) = 172"
  by (simp add: signable_bytes_def)

lemma signable_bytes_inject:
  "signable_bytes r = signable_bytes s \<longleftrightarrow> r\<lparr>signature := []\<rparr> = s\<lparr>signature := []\<rparr>"
  by (cases r; cases s)
    (auto simp: signable_bytes_def key.enc_append_inject le32.enc_append_inject le64.enc_append_inject key.enc_inject)

lemma dedup_input_inject:
  "dedup_input r = dedup_input s \<longleftrightarrow> content_id r = content_id s \<and> shard_index r = shard_index s \<and>
    storage_node r = storage_node s \<and> challenger r = challenger s \<and> timestamp r = timestamp s"
  by (auto simp: dedup_input_def key.enc_append_inject le32.enc_append_inject le64.enc_inject)

section \<open>Properties\<close>

text \<open>
  what is signed determines what is claimed: a challenger's signature covers every field of a
  receipt, a user's signature every field of a voucher, and no string is signable as both.
\<close>

theorem signed_bytes_determine_claims:
  "(signable_bytes r = signable_bytes s \<longleftrightarrow> r\<lparr>signature := []\<rparr> = s\<lparr>signature := []\<rparr>) \<and>
   (voucher_signable_data c a n = voucher_signable_data c' a' n' \<longleftrightarrow> c = c' \<and> a = a' \<and> n = n') \<and>
   signable_bytes r \<noteq> voucher_signable_data c a n \<and>
   length (signable_bytes r) = 172 \<and> length (voucher_signable_data c a n) = 48"
proof -
  have "length (voucher_signable_data c a n) = 48" by (simp add: voucher_signable_data_def)
  moreover have "signable_bytes r \<noteq> voucher_signable_data c a n"
    using length_signable_bytes [of r] calculation by auto
  ultimately show ?thesis
    by (simp add: signable_bytes_inject length_signable_bytes)
      (auto simp: voucher_signable_data_def key.enc_append_inject le64.enc_append_inject le64.enc_inject)
qed

text \<open>
  two receipts with the same deduplication hash agree on content, shard, node, challenger and
  time, or exhibit a SHA-256 collision; conversely receipts that agree on these are always
  duplicates, even if nonce, proof or signature differ.
\<close>

theorem dedup_hash_identifies_proof:
  "let same = (content_id r = content_id s \<and> shard_index r = shard_index s \<and> storage_node r = storage_node s \<and>
      challenger r = challenger s \<and> timestamp r = timestamp s)
   in if same then dedup_hash sha256 r = dedup_hash sha256 s
      else dedup_input r \<noteq> dedup_input s \<and>
        (dedup_hash sha256 r = dedup_hash sha256 s \<longleftrightarrow> sha256 (dedup_input r) = sha256 (dedup_input s))"
  using dedup_input_inject [of r s] by (auto simp: dedup_hash_def Let_def)

text \<open>
  storage tiers are read back from their numeric tag, no other byte is accepted, and a higher tier
  never guarantees a smaller shard ratio.
\<close>

theorem storage_tier_roundtrip:
  "(storage_tier_from_u8 b = Some t \<longleftrightarrow> b = storage_tier_u8 t) \<and>
   (storage_tier_u8 t \<le> storage_tier_u8 t' \<longleftrightarrow> min_shard_ratio t \<le> min_shard_ratio t')"
  by (cases t; cases t') (auto simp: word_le_nat_alt)

end
