(* ===== verification/Merkle.thy ===== *)
theory Merkle
  imports Prelude
begin

text \<open>
  \<open>crates/prover/src/merkle.rs\<close>: the root of a Merkle tree over 32-byte leaves, padded with zero
  leaves to a power of two (the guest's copy of the function is in \<open>Guest\<close>). SHA-256 is the
  parameter \<open>sha256\<close>. The contract is the recursive tree \<open>tree_root\<close>; \<open>find_collision\<close> turns two different trees with one root into a collision.
\<close>

section \<open>The code\<close>

text \<open>\<open>usize::next_power_of_two\<close>.\<close>

fun next_power_of_two :: "nat \<Rightarrow> nat" where
  "next_power_of_two n = (if n \<le> 1 then 1 else 2 * next_power_of_two ((n + 1) div 2))"

declare next_power_of_two.simps [simp del]

definition hash_pair :: "(bytes \<Rightarrow> key32) \<Rightarrow> key32 \<Rightarrow> key32 \<Rightarrow> key32" where
  "hash_pair sha256 left right = sha256 (key_bytes left @ key_bytes right)"

text \<open>\<open>for i in (0..nodes.len()).step_by(2)\<close>: \<open>nodes[i + 1]\<close> panics on an odd level.\<close>

fun merge_level :: "(bytes \<Rightarrow> key32) \<Rightarrow> key32 list \<Rightarrow> ('e, key32 list) outcome" where
  "merge_level sha256 (left # right # nodes) =
     omap (\<lambda>parents. hash_pair sha256 left right # parents) (merge_level sha256 nodes)"
| "merge_level sha256 [left] = Panic"
| "merge_level sha256 [] = Ok []"

lemma length_merge_level: "merge_level sha256 nodes = Ok parents \<Longrightarrow> length parents = length nodes div 2"
  by (induction sha256 nodes arbitrary: parents rule: merge_level.induct) auto

function merge_loop :: "(bytes \<Rightarrow> key32) \<Rightarrow> key32 list \<Rightarrow> ('e, key32 list) outcome" where
  "merge_loop sha256 nodes =
     (if 1 < length nodes then obind (merge_level sha256 nodes) (merge_loop sha256) else Ok nodes)"
  by pat_completeness auto
termination
  by (relation "measure (\<lambda>(sha256, nodes). length nodes)") (auto dest!: length_merge_level)

declare merge_loop.simps [simp del]

definition compute_merkle_root :: "(bytes \<Rightarrow> key32) \<Rightarrow> key32 list \<Rightarrow> ('e, key32) outcome" where
  "compute_merkle_root sha256 leaves =
     (if leaves = [] then Ok 0
      else if length leaves = 1 then oidx leaves 0
      else let n = next_power_of_two (length leaves);
               nodes = leaves @ replicate (n - length leaves) 0
           in obind (merge_loop sha256 nodes) (\<lambda>nodes. oidx nodes 0))"

section \<open>Powers of two\<close>

lemma next_power_of_two_bounds: "0 < n \<Longrightarrow> n \<le> next_power_of_two n \<and> next_power_of_two n < 2 * n"
proof (induction n rule: next_power_of_two.induct)
  case (1 n)
  show ?case
  proof (cases "n \<le> 1")
    case True
    with 1 have "n = 1" by simp
    then show ?thesis by (simp add: next_power_of_two.simps)
  next
    case False
    define p where "p = next_power_of_two ((n + 1) div 2)"
    have p: "(n + 1) div 2 \<le> p" "p < 2 * ((n + 1) div 2)"
      using False 1 by (simp_all add: p_def)
    have "even p \<or> p = 1"
      unfolding p_def by (subst (1 2) next_power_of_two.simps) simp
    moreover have "next_power_of_two n = 2 * p"
      using False by (subst next_power_of_two.simps) (simp add: p_def)
    moreover have "n \<le> 2 * p" using p(1) by linarith
    moreover have "p < n" if "even p \<or> p = 1"
    proof -
      have "p < n + 1" using p(2) by linarith
      moreover have "p \<noteq> n"
      proof
        assume "p = n"
        with that False have "even n" by auto
        then have "2 * ((n + 1) div 2) = n" by simp
        with p(2) \<open>p = n\<close> show False by simp
      qed
      ultimately show ?thesis by simp
    qed
    ultimately show ?thesis by simp
  qed
qed

lemma next_power_of_two_power: "\<exists>d. next_power_of_two n = 2 ^ d"
proof (induction n rule: next_power_of_two.induct)
  case (1 n)
  show ?case
  proof (cases "n \<le> 1")
    case False
    with 1 obtain d where "next_power_of_two ((n + 1) div 2) = 2 ^ d" by auto
    with False have "next_power_of_two n = 2 ^ Suc d" by (simp add: next_power_of_two.simps [of n])
    then show ?thesis ..
  qed (simp add: next_power_of_two.simps exI [of _ 0])
qed

text \<open>The smallest power of two that is large enough.\<close>

lemma next_power_of_two_eqI:
  assumes "n \<le> 2 ^ d" and "2 ^ d < 2 * n"
  shows "next_power_of_two n = 2 ^ d"
proof -
  obtain e where e: "next_power_of_two n = 2 ^ e" using next_power_of_two_power by blast
  have "0 < n" using assms(2) by (cases n) simp_all
  then have "n \<le> 2 ^ e" "2 ^ e < 2 * n" using next_power_of_two_bounds [of n] e by simp_all
  with assms have "(2::nat) ^ d < 2 ^ Suc e" "(2::nat) ^ e < 2 ^ Suc d"
    unfolding power_Suc by linarith+
  then have "d < Suc e" "e < Suc d"
    by (simp_all only: power_strict_increasing_iff one_less_numeral_iff semiring_norm)
  then have "d = e" by simp
  then show ?thesis by (simp only: e)
qed

section \<open>The tree\<close>

primrec tree_root :: "(bytes \<Rightarrow> key32) \<Rightarrow> nat \<Rightarrow> key32 list \<Rightarrow> key32" where
  "tree_root sha256 0 leaves = hd leaves"
| "tree_root sha256 (Suc d) leaves =
     hash_pair sha256 (tree_root sha256 d (take (2 ^ d) leaves)) (tree_root sha256 d (drop (2 ^ d) leaves))"

text \<open>Merging a level does not change the root.\<close>

lemma merge_level_append:
  "even (length xs) \<Longrightarrow> merge_level sha256 xs = (Ok xs' :: ('e, key32 list) outcome) \<Longrightarrow>
    merge_level sha256 ys = (Ok ys' :: ('e, key32 list) outcome) \<Longrightarrow>
    merge_level sha256 (xs @ ys) = (Ok (xs' @ ys') :: ('e, key32 list) outcome)"
  by (induction sha256 xs arbitrary: xs' rule: merge_level.induct) auto

lemma merge_level_tree:
  "length nodes = 2 ^ Suc d \<Longrightarrow>
    \<exists>parents. merge_level sha256 nodes = (Ok parents :: ('e, key32 list) outcome) \<and> length parents = 2 ^ d \<and>
      tree_root sha256 d parents = tree_root sha256 (Suc d) nodes"
proof (induction d arbitrary: nodes)
  case 0
  then obtain l r where "nodes = [l, r]" by (auto simp: length_Suc_conv numeral_2_eq_2)
  then show ?case by simp
next
  case (Suc d)
  let ?l = "take (2 ^ Suc d) nodes" and ?r = "drop (2 ^ Suc d) nodes"
  have len: "length ?l = 2 ^ Suc d" "length ?r = 2 ^ Suc d" using Suc.prems by simp_all
  obtain pl where l: "merge_level sha256 ?l = (Ok pl :: ('e, key32 list) outcome)" "length pl = 2 ^ d"
    "tree_root sha256 d pl = tree_root sha256 (Suc d) ?l" using Suc.IH [OF len(1)] by blast
  obtain pr where r: "merge_level sha256 ?r = (Ok pr :: ('e, key32 list) outcome)" "length pr = 2 ^ d"
    "tree_root sha256 d pr = tree_root sha256 (Suc d) ?r" using Suc.IH [OF len(2)] by blast
  have "even (length ?l)" by (simp only: len) simp
  from merge_level_append [OF this l(1) r(1)] have "merge_level sha256 nodes = (Ok (pl @ pr) :: ('e, key32 list) outcome)"
    by (simp only: append_take_drop_id)
  moreover have "tree_root sha256 (Suc d) (pl @ pr) = tree_root sha256 (Suc (Suc d)) nodes"
    using l r by (simp only: tree_root.simps(2) [of _ d "pl @ pr"] tree_root.simps(2) [of _ "Suc d"] append_eq_conv_conj) simp
  ultimately show ?case using l(2) r(2) by simp
qed

lemma merge_loop_tree:
  "length nodes = 2 ^ d \<Longrightarrow> merge_loop sha256 nodes = (Ok [tree_root sha256 d nodes] :: ('e, key32 list) outcome)"
proof (induction d arbitrary: nodes)
  case 0
  then show ?case by (cases nodes) (simp_all add: merge_loop.simps)
next
  case (Suc d)
  obtain parents where p: "merge_level sha256 nodes = (Ok parents :: ('e, key32 list) outcome)" "length parents = 2 ^ d"
    "tree_root sha256 d parents = tree_root sha256 (Suc d) nodes"
    using merge_level_tree [OF Suc.prems] by blast
  have "1 < length nodes" using Suc.prems one_less_power [of "2 :: nat" "Suc d"] by simp
  then show ?case
    using Suc.IH [OF p(2)] p(1,3) by (simp add: merge_loop.simps [of _ nodes])
qed

definition padded :: "key32 list \<Rightarrow> key32 list" where
  "padded leaves = leaves @ replicate (next_power_of_two (length leaves) - length leaves) 0"

definition tree_depth :: "nat \<Rightarrow> nat" where
  "tree_depth n = (LEAST d. n \<le> 2 ^ d)"

lemma tree_depth: "0 < n \<Longrightarrow> next_power_of_two n = 2 ^ tree_depth n"
proof -
  assume n: "0 < n"
  obtain d where d: "next_power_of_two n = 2 ^ d" using next_power_of_two_power by blast
  then have b: "n \<le> 2 ^ d" "2 ^ d < 2 * n" using next_power_of_two_bounds [OF n] by simp_all
  have "tree_depth n = d"
    unfolding tree_depth_def
  proof (rule Least_equality, rule b(1))
    fix e assume "n \<le> 2 ^ e"
    with b(2) have "(2 :: nat) ^ d < 2 ^ Suc e" by simp
    then show "d \<le> e" using power_less_imp_less_exp [of "2::nat" d "Suc e"] by simp
  qed
  with d show ?thesis by simp
qed

lemma length_padded: "leaves \<noteq> [] \<Longrightarrow> length (padded leaves) = 2 ^ tree_depth (length leaves)"
  using next_power_of_two_bounds [of "length leaves"] tree_depth [of "length leaves"] by (simp add: padded_def)

lemma compute_merkle_root_eq:
  assumes "leaves \<noteq> []"
  shows "compute_merkle_root sha256 leaves =
    (Ok (tree_root sha256 (tree_depth (length leaves)) (padded leaves)) :: ('e, key32) outcome)"
proof (cases "length leaves = 1")
  case True
  then have "tree_depth (length leaves) = 0" by (simp add: tree_depth_def)
  with True assms show ?thesis
    by (cases leaves) (simp_all add: compute_merkle_root_def padded_def)
next
  case False
  with assms merge_loop_tree [where 'e = 'e, OF length_padded [OF assms], of sha256] show ?thesis
    by (simp add: compute_merkle_root_def padded_def Let_def)
qed

section \<open>Collisions\<close>

text \<open>Two different inputs of \<open>sha256\<close> with the same digest, found on the way from the root down.\<close>

primrec find_collision :: "(bytes \<Rightarrow> key32) \<Rightarrow> nat \<Rightarrow> key32 list \<Rightarrow> key32 list \<Rightarrow> (bytes \<times> bytes) option" where
  "find_collision sha256 0 xs ys = None"
| "find_collision sha256 (Suc d) xs ys =
     (let l = tree_root sha256 d (take (2 ^ d) xs); r = tree_root sha256 d (drop (2 ^ d) xs);
          l' = tree_root sha256 d (take (2 ^ d) ys); r' = tree_root sha256 d (drop (2 ^ d) ys)
      in if l \<noteq> l' \<or> r \<noteq> r' then Some (key_bytes l @ key_bytes r, key_bytes l' @ key_bytes r')
         else case find_collision sha256 d (take (2 ^ d) xs) (take (2 ^ d) ys) of
             Some c \<Rightarrow> Some c
           | None \<Rightarrow> find_collision sha256 d (drop (2 ^ d) xs) (drop (2 ^ d) ys))"

lemma find_collision_finds:
  "length xs = 2 ^ d \<Longrightarrow> length ys = 2 ^ d \<Longrightarrow> tree_root sha256 d xs = tree_root sha256 d ys \<Longrightarrow>
    (case find_collision sha256 d xs ys of Some (a, b) \<Rightarrow> a \<noteq> b \<and> sha256 a = sha256 b | None \<Rightarrow> xs = ys)"
proof (induction d arbitrary: xs ys)
  case 0
  then show ?case by (cases xs; cases ys) auto
next
  case (Suc d)
  show ?case
  proof (cases "tree_root sha256 d (take (2 ^ d) xs) \<noteq> tree_root sha256 d (take (2 ^ d) ys) \<or>
      tree_root sha256 d (drop (2 ^ d) xs) \<noteq> tree_root sha256 d (drop (2 ^ d) ys)")
    case True
    with Suc.prems(3) show ?thesis
      by (auto simp: hash_pair_def key.enc_append_inject key.enc_inject)
  next
    case False
    with Suc.IH [of "take (2 ^ d) xs" "take (2 ^ d) ys"] Suc.IH [of "drop (2 ^ d) xs" "drop (2 ^ d) ys"] Suc.prems(1,2)
    show ?thesis
      by (auto split: option.splits) (metis append_take_drop_id)
  qed
qed

section \<open>Properties\<close>

text \<open>
  the bottom-up loop never panics and computes the root of the balanced binary tree over the
  leaves padded with zero leaves to the next power of two; no leaves give the zero hash.
\<close>

theorem merkle_root_is_tree_root:
  "compute_merkle_root sha256 [] = Ok 0 \<and>
   (leaves = [] \<or> compute_merkle_root sha256 leaves = Ok (tree_root sha256 (tree_depth (length leaves)) (padded leaves)) \<and>
     length (padded leaves) = 2 ^ tree_depth (length leaves) \<and> length (padded leaves) < 2 * length leaves)"
  using compute_merkle_root_eq [of leaves] length_padded [of leaves] tree_depth [of "length leaves"]
    next_power_of_two_bounds [of "length leaves"]
  by (auto simp: compute_merkle_root_def)

text \<open>
  C27: binding. If two leaf lists of the same length have the same root, then they are equal or
  \<open>find_collision\<close> computes from them two different inputs with the same SHA-256 digest.
\<close>

theorem merkle_root_binding:
  fixes sha256 :: "bytes \<Rightarrow> key32"
  assumes "compute_merkle_root sha256 xs = (compute_merkle_root sha256 ys :: ('e, key32) outcome)" and "length xs = length ys"
  shows "xs = ys \<or> (\<exists>a b. find_collision sha256 (tree_depth (length xs)) (padded xs) (padded ys) = Some (a, b) \<and>
    a \<noteq> b \<and> sha256 a = sha256 b)"
proof (cases "xs = []")
  case False
  then have ne: "ys \<noteq> []" using assms(2) by auto
  from compute_merkle_root_eq [OF False, of sha256, where 'e = 'e] compute_merkle_root_eq [OF ne, of sha256, where 'e = 'e] assms
  have "tree_root sha256 (tree_depth (length xs)) (padded xs) = tree_root sha256 (tree_depth (length xs)) (padded ys)"
    by simp
  from find_collision_finds [OF length_padded [OF False] _ this] length_padded [OF ne] assms(2)
  have "case find_collision sha256 (tree_depth (length xs)) (padded xs) (padded ys) of
      Some (a, b) \<Rightarrow> a \<noteq> b \<and> sha256 a = sha256 b | None \<Rightarrow> padded xs = padded ys" by simp
  moreover have "padded xs = padded ys \<Longrightarrow> xs = ys" using assms(2) by (simp add: padded_def)
  ultimately show ?thesis by (auto split: option.splits)
qed (use assms(2) in simp)

theorem merkle_root_binding_witness:
  "find_collision (\<lambda>_. 0) (tree_depth 2) (padded [1, 2]) (padded [3, 4]) \<noteq> None"
proof -
  have "compute_merkle_root (\<lambda>_. 0) [1, 2] = (compute_merkle_root (\<lambda>_. 0) [3, 4] :: (unit, key32) outcome)" by code_simp
  from merkle_root_binding [OF this] show ?thesis by (auto simp: numeral_2_eq_2)
qed

text \<open>
  a zero leaf is indistinguishable from padding: appending one to a list whose length is not a
  power of two leaves the root unchanged, so lists of different lengths share a root.
\<close>

theorem zero_leaf_is_padding:
  assumes "1 < length leaves" and "length leaves \<noteq> next_power_of_two (length leaves)"
  shows "compute_merkle_root sha256 (leaves @ [0]) = compute_merkle_root sha256 leaves"
proof -
  let ?n = "length leaves"
  obtain d where d: "next_power_of_two ?n = 2 ^ d" using next_power_of_two_power by blast
  have "0 < ?n" using assms(1) by linarith
  then have b: "?n \<le> 2 ^ d" "2 ^ d < 2 * ?n" using next_power_of_two_bounds [of ?n] d by simp_all
  with assms(2) d have "next_power_of_two (Suc ?n) = 2 ^ d" by (intro next_power_of_two_eqI) simp_all
  moreover have "replicate (2 ^ d - ?n) (0 :: key32) = 0 # replicate (2 ^ d - Suc ?n) 0"
    using b(1) assms(2) d by (simp flip: replicate_Suc add: Suc_diff_Suc)
  ultimately show ?thesis
    using assms(1) d by (simp add: compute_merkle_root_def Let_def)
qed

theorem zero_leaf_is_padding_witness:
  "(compute_merkle_root (\<lambda>_. 5) [1, 2, 3, 0] :: (unit, key32) outcome) = compute_merkle_root (\<lambda>_. 5) [1, 2, 3]"
  using zero_leaf_is_padding [of "[1, 2, 3]" "\<lambda>_. 5"] by (simp add: next_power_of_two.simps)

end
