(* ===== verification/Ordered_Map.thy ===== *)
theory Ordered_Map
  imports Prelude "HOL-Library.Multiset"
begin

text \<open>
  \<open>std::collections::BTreeMap\<close>: the interface the program uses (\<open>get\<close>, \<open>insert\<close>, iteration in key
  order) as the locale \<open>ordered_map\<close>, its facts proved once there, and the interpretation on sorted
  association lists, which is how the model represents these maps.
\<close>

lemma sorted_entries_eqI:
  fixes xs ys :: "('k::linorder \<times> 'v) list"
  assumes "sorted_wrt (<) (map fst xs)" "sorted_wrt (<) (map fst ys)" and eq: "map_of xs = map_of ys"
  shows "xs = ys"
proof -
  have d: "distinct (map fst xs)" "distinct (map fst ys)" "sorted (map fst xs)" "sorted (map fst ys)"
    using assms(1,2) by (simp_all add: strict_sorted_iff)
  have "set (map fst xs) = set (map fst ys)"
    using eq by (metis dom_map_of_conv_image_fst list.set_map)
  then have keys: "map fst xs = map fst ys"
    using d by (intro sorted_distinct_set_unique)
  have "map_of xs (fst (xs ! i)) = Some (snd (xs ! i))" "map_of ys (fst (ys ! i)) = Some (snd (ys ! i))"
    if "i < length xs" for i
    using that d keys map_eq_imp_length_eq [OF keys] by (auto intro!: map_of_is_SomeI)
  then have "snd (xs ! i) = snd (ys ! i)" "fst (xs ! i) = fst (ys ! i)" if "i < length xs" for i
    using that eq keys map_eq_imp_length_eq [OF keys] by (metis nth_map option.inject)+
  then show ?thesis
    using map_eq_imp_length_eq [OF keys] by (intro nth_equalityI) (auto simp: prod_eq_iff)
qed

locale ordered_map =
  fixes empty :: 'm and lookup :: "'m \<Rightarrow> 'k::linorder \<Rightarrow> 'v option"
    and insert :: "'k \<Rightarrow> 'v \<Rightarrow> 'm \<Rightarrow> 'm" and entries :: "'m \<Rightarrow> ('k \<times> 'v) list" and valid :: "'m \<Rightarrow> bool"
  assumes valid_empty: "valid empty"
    and valid_insert: "valid m \<Longrightarrow> valid (insert k v m)"
    and lookup_empty: "lookup empty k = None"
    and lookup_insert: "valid m \<Longrightarrow> lookup (insert k v m) k' = (if k' = k then Some v else lookup m k')"
    and entries_sorted: "valid m \<Longrightarrow> sorted_wrt (<) (map fst (entries m))"
    and entries_lookup: "valid m \<Longrightarrow> map_of (entries m) = lookup m"
begin

lemma entries_distinct: "valid m \<Longrightarrow> distinct (map fst (entries m))"
  using entries_sorted strict_sorted_iff by blast

lemma entries_unique: "valid m \<Longrightarrow> sorted_wrt (<) (map fst es) \<Longrightarrow> map_of es = lookup m \<Longrightarrow> es = entries m"
  using sorted_entries_eqI [of es "entries m"] entries_sorted entries_lookup by simp

text \<open>The iteration is determined by the contents: how the map was built does not matter.\<close>

lemma entries_eqI: "valid m \<Longrightarrow> valid m' \<Longrightarrow> (\<And>k. lookup m k = lookup m' k) \<Longrightarrow> entries m = entries m'"
  using entries_unique [of m' "entries m"] entries_sorted [of m] entries_lookup [of m] by (simp add: fun_eq_iff)

lemma keys_entries: "valid m \<Longrightarrow> set (map fst (entries m)) = {k. lookup m k \<noteq> None}"
  by (simp add: entries_lookup [symmetric] dom_map_of_conv_image_fst [symmetric] dom_def)

end

fun al_insert :: "'k::linorder \<Rightarrow> 'v \<Rightarrow> ('k \<times> 'v) list \<Rightarrow> ('k \<times> 'v) list" where
  "al_insert k v [] = [(k, v)]"
| "al_insert k v ((k', v') # es) =
     (if k < k' then (k, v) # (k', v') # es
      else if k = k' then (k, v) # es
      else (k', v') # al_insert k v es)"

abbreviation al_valid :: "('k::linorder \<times> 'v) list \<Rightarrow> bool" where
  "al_valid es \<equiv> sorted_wrt (<) (map fst es)"

lemma keys_al_insert: "set (map fst (al_insert k v es)) = insert k (set (map fst es))"
  by (induction k v es rule: al_insert.induct) auto

lemma al_valid_insert: "al_valid es \<Longrightarrow> al_valid (al_insert k v es)"
proof (induction k v es rule: al_insert.induct)
  case (2 k v k' v' es)
  then show ?case using keys_al_insert [of k v es] by (auto simp: image_iff)
qed simp

lemma map_of_al_insert: "al_valid es \<Longrightarrow> map_of (al_insert k v es) = (map_of es)(k \<mapsto> v)"
proof (induction k v es rule: al_insert.induct)
  case (2 k v k' v' es)
  then show ?case by (auto simp: fun_eq_iff)
qed auto

interpretation btree: ordered_map "[]" map_of al_insert "\<lambda>es. es" al_valid
  by unfold_locales (simp_all add: al_valid_insert map_of_al_insert)

end
