(* ===== verification/Prover.thy ===== *)
theory Prover
  imports Core Merkle Ordered_Map
begin

text \<open>
  \<open>crates/prover/src/lib.rs\<close> as built by default and \<open>crates/prover-guest-types\<close>: the host validates
  receipts and sums their weights per operator, executes the logic of the guest over the sorted
  entries, and the mock prover wraps the 76 bytes of the output. \<open>oc\<close> tells whether the build
  checks unsigned overflow. \<open>BTreeMap\<close> is the interpretation \<open>btree\<close> of \<open>ordered_map\<close>; the encoding of
  the output is an interpretation of \<open>full_codec\<close>.
\<close>

section \<open>The code\<close>

type_synonym entry = "key32 \<times> u64"

record distribution_input =
  in_entries :: "entry list"
  in_pool_id :: key32

record distribution_output =
  out_root :: key32
  out_total_weight :: u64
  out_entry_count :: u32
  out_pool_id :: key32

definition output_to_bytes :: "distribution_output \<Rightarrow> bytes" where
  "output_to_bytes self = key_bytes (out_root self) @ le_bytes 8 (out_total_weight self) @
     le_bytes 4 (out_entry_count self) @ key_bytes (out_pool_id self)"

definition output_from_bytes :: "bytes \<Rightarrow> distribution_output" where
  "output_from_bytes bs =
     \<lparr>out_root = of_key_bytes (take 32 bs), out_total_weight = of_le (take 8 (drop 32 bs)),
      out_entry_count = of_le (take 4 (drop 40 bs)), out_pool_id = of_key_bytes (take 32 (drop 44 bs))\<rparr>"

datatype prover_error =
    EmptyBatch | ZeroWeight | ZeroTimestamp | ZeroOperator | InvalidProof | OutputMismatch | Sp1 string

type_synonym 'a pr = "(prover_error, 'a) outcome"

record batch_proof =
  proof_bytes :: bytes
  public_inputs :: bytes

text \<open>\<open>*weights.entry(operator).or_insert(0) += weight\<close>\<close>

definition add_weight :: "bool \<Rightarrow> key32 \<Rightarrow> u64 \<Rightarrow> entry list \<Rightarrow> ('e, entry list) outcome" where
  "add_weight oc operator weight weights =
     (let old = (case map_of weights operator of None \<Rightarrow> 0 | Some w \<Rightarrow> w)
      in omap (\<lambda>w. al_insert operator w weights) (add64 oc old weight))"

fun aggregate_loop :: "bool \<Rightarrow> contribution list \<Rightarrow> entry list \<Rightarrow> entry list pr" where
  "aggregate_loop oc [] weights = Ok weights"
| "aggregate_loop oc (r # receipts) weights =
     (if c_weight r = 0 then Err ZeroWeight
      else if c_timestamp r = 0 then Err ZeroTimestamp
      else if c_operator r = 0 then Err ZeroOperator
      else obind (add_weight oc (c_operator r) (c_weight r) weights) (aggregate_loop oc receipts))"

definition aggregate_receipts :: "bool \<Rightarrow> contribution list \<Rightarrow> entry list pr" where
  "aggregate_receipts oc receipts =
     (if receipts = [] then Err EmptyBatch else aggregate_loop oc receipts [])"

fun sum_weights :: "bool \<Rightarrow> u64 list \<Rightarrow> u64 \<Rightarrow> ('e, u64) outcome" where
  "sum_weights oc [] acc = Ok acc"
| "sum_weights oc (w # ws) acc = obind (add64 oc acc w) (sum_weights oc ws)"

definition merkle_leaf :: "(bytes \<Rightarrow> key32) \<Rightarrow> entry \<Rightarrow> key32" where
  "merkle_leaf sha256 = (\<lambda>(pubkey, weight). sha256 (key_bytes pubkey @ le_bytes 8 weight))"

definition execute_guest_logic :: "bool \<Rightarrow> (bytes \<Rightarrow> key32) \<Rightarrow> distribution_input \<Rightarrow> ('e, distribution_output) outcome" where
  "execute_guest_logic oc sha256 input =
     (let entries = sort_key fst (in_entries input) in
      obind (sum_weights oc (map snd entries) 0) (\<lambda>total_weight.
      obind (compute_merkle_root sha256 (map (merkle_leaf sha256) entries)) (\<lambda>root.
        Ok \<lparr>out_root = root, out_total_weight = total_weight, out_entry_count = of_nat (length entries),
            out_pool_id = in_pool_id input\<rparr>)))"

definition MOCK_PROOF_MAGIC :: bytes where
  "MOCK_PROOF_MAGIC = map of_char ''CRAFTEC_MOCK_PROOF_V1''"

definition prove_batch :: "bool \<Rightarrow> (bytes \<Rightarrow> key32) \<Rightarrow> contribution list \<Rightarrow> key32 \<Rightarrow> batch_proof pr" where
  "prove_batch oc sha256 receipts pool_id =
     obind (aggregate_receipts oc receipts) (\<lambda>entries.
     obind (execute_guest_logic oc sha256 \<lparr>in_entries = entries, in_pool_id = pool_id\<rparr>) (\<lambda>output.
       let output_bytes = output_to_bytes output
       in Ok \<lparr>proof_bytes = MOCK_PROOF_MAGIC @ output_bytes, public_inputs = output_bytes\<rparr>))"

definition verify_batch :: "batch_proof \<Rightarrow> distribution_output pr" where
  "verify_batch proof' =
     (if length (proof_bytes proof') < length MOCK_PROOF_MAGIC + 76 then Err InvalidProof
      else if take (length MOCK_PROOF_MAGIC) (proof_bytes proof') \<noteq> MOCK_PROOF_MAGIC then Err InvalidProof
      else if drop (length MOCK_PROOF_MAGIC) (proof_bytes proof') \<noteq> public_inputs proof' then Err OutputMismatch
      else if length (public_inputs proof') \<noteq> 76 then Err InvalidProof
      else Ok (output_from_bytes (public_inputs proof')))"

fun distribution_loop :: "bool \<Rightarrow> contribution list \<Rightarrow> entry list \<Rightarrow> ('e, entry list) outcome" where
  "distribution_loop oc [] weights = Ok weights"
| "distribution_loop oc (r # receipts) weights =
     obind (add_weight oc (c_operator r) (c_weight r) weights) (distribution_loop oc receipts)"

definition compute_distribution_entries :: "bool \<Rightarrow> contribution list \<Rightarrow> ('e, entry list) outcome" where
  "compute_distribution_entries oc receipts = distribution_loop oc receipts []"

section \<open>The committed bytes\<close>

lemma output_parts:
  assumes "length bs = 76"
  obtains a b c d where "bs = a @ b @ c @ d" "length a = 32" "length b = 8" "length c = 4" "length d = 32"
proof (rule that)
  have "bs = take 32 bs @ take (8 + 4 + 32) (drop 32 bs)" using assms by simp
  also have "\<dots> = take 32 bs @ take 8 (drop 32 bs) @ take 4 (drop 40 bs) @ take 32 (drop 44 bs)"
    by (simp only: take_add drop_drop append_assoc) simp
  finally show "bs = take 32 bs @ take 8 (drop 32 bs) @ take 4 (drop 40 bs) @ take 32 (drop 44 bs)" .
qed (use assms in simp_all)

interpretation committed: full_codec output_to_bytes output_from_bytes 76
proof
  fix out :: distribution_output and bs :: bytes
  show "length (output_to_bytes out) = 76" by (simp add: output_to_bytes_def)
  show "output_from_bytes (output_to_bytes out) = out"
    by (cases out) (simp add: output_to_bytes_def output_from_bytes_def key.dec_enc le64.dec_enc le32.dec_enc)
  assume "length bs = 76"
  then obtain a b c d where "bs = a @ b @ c @ d" "length a = 32" "length b = 8" "length c = 4" "length d = 32"
    by (rule output_parts)
  then show "output_to_bytes (output_from_bytes bs) = bs"
    by (simp add: output_to_bytes_def output_from_bytes_def key.enc_dec le64.enc_dec le32.enc_dec)
qed

section \<open>Weights per operator\<close>

definition operator_weight :: "contribution list \<Rightarrow> key32 \<Rightarrow> u64" where
  "operator_weight rs op = sum_list (map c_weight (filter (\<lambda>r. c_operator r = op) rs))"

definition operator_total :: "contribution list \<Rightarrow> key32 \<Rightarrow> nat" where
  "operator_total rs op = sum_list (map (\<lambda>r. unat (c_weight r)) (filter (\<lambda>r. c_operator r = op) rs))"

definition valid_receipt :: "contribution \<Rightarrow> bool" where
  "valid_receipt r \<longleftrightarrow> c_weight r \<noteq> 0 \<and> c_timestamp r \<noteq> 0 \<and> c_operator r \<noteq> 0"

definition weight_at :: "entry list \<Rightarrow> key32 \<Rightarrow> u64" where
  "weight_at m op = (case map_of m op of None \<Rightarrow> 0 | Some w \<Rightarrow> w)"

lemma weight_at_Nil [simp]: "weight_at [] op = 0"
  by (simp add: weight_at_def)

lemma operator_total_Cons:
  "operator_total (r # rs) op = (if c_operator r = op then unat (c_weight r) else 0) + operator_total rs op"
  "operator_weight (r # rs) op = (if c_operator r = op then c_weight r else 0) + operator_weight rs op"
  by (simp_all add: operator_total_def operator_weight_def)

lemma unat_operator_weight: "operator_total rs op < 2 ^ 64 \<Longrightarrow> unat (operator_weight rs op) = operator_total rs op"
proof (induction rs)
  case (Cons r rs)
  then show ?case by (cases "c_operator r = op") (simp_all add: operator_total_Cons unat_add64)
qed (simp add: operator_total_def operator_weight_def)

lemma add_weight_cases:
  "add_weight oc op w m = (if oc \<and> 2 ^ 64 \<le> unat (weight_at m op) + unat w then Panic
     else Ok (al_insert op (weight_at m op + w) m))"
  by (simp add: add_weight_def weight_at_def add64_def Let_def)

lemma weight_at_insert:
  "al_valid m \<Longrightarrow> weight_at (al_insert op w m) op' = (if op' = op then w else weight_at m op')"
  by (simp add: weight_at_def btree.lookup_insert)

lemma distribution_loop_spec:
  assumes "al_valid m"
  shows "if oc \<longrightarrow> (\<forall>op. unat (weight_at m op) + operator_total rs op < 2 ^ 64)
    then \<exists>es. distribution_loop oc rs m = (Ok es :: ('e, entry list) outcome) \<and> al_valid es \<and>
      map_of es = (\<lambda>op. if op \<in> c_operator ` set rs then Some (weight_at m op + operator_weight rs op) else map_of m op)
    else distribution_loop oc rs m = (Panic :: ('e, entry list) outcome)"
  using assms
proof (induction rs arbitrary: m)
  case Nil
  have "unat (weight_at m op) < 2 ^ 64" for op
    using unsigned_less [of "weight_at m op"] by simp
  with Nil show ?case by (auto simp: operator_total_def)
next
  case (Cons r rs)
  let ?op = "c_operator r" and ?w = "c_weight r"
  let ?m = "al_insert ?op (weight_at m ?op + ?w) m"
  show ?case
  proof (cases "oc \<and> 2 ^ 64 \<le> unat (weight_at m ?op) + unat ?w")
    case True
    then have "\<not> unat (weight_at m ?op) + operator_total (r # rs) ?op < 2 ^ 64"
      by (simp add: operator_total_Cons)
    with True show ?thesis by (auto simp: add_weight_cases)
  next
    case False
    have at: "unat (weight_at ?m op) + operator_total rs op = unat (weight_at m op) + operator_total (r # rs) op" if oc for op
      using that False Cons.prems by (auto simp: weight_at_insert operator_total_Cons unat_add64)
    have run: "distribution_loop oc (r # rs) m = distribution_loop oc rs ?m"
      using False by (auto simp: add_weight_cases)
    have cond: "(oc \<longrightarrow> (\<forall>op. unat (weight_at ?m op) + operator_total rs op < 2 ^ 64)) \<longleftrightarrow>
        (oc \<longrightarrow> (\<forall>op. unat (weight_at m op) + operator_total (r # rs) op < 2 ^ 64))"
      using at by auto
    have none: "operator_weight rs op = 0" if "op \<notin> c_operator ` set rs" for op
      using that by (induction rs) (auto simp: operator_weight_def)
    have result: "(\<lambda>op. if op \<in> c_operator ` set rs then Some (weight_at ?m op + operator_weight rs op) else map_of ?m op) =
        (\<lambda>op. if op \<in> c_operator ` set (r # rs) then Some (weight_at m op + operator_weight (r # rs) op) else map_of m op)"
      using Cons.prems none
      by (auto simp: fun_eq_iff weight_at_insert operator_total_Cons btree.lookup_insert add.assoc)
    show ?thesis
      using Cons.IH [OF btree.valid_insert [OF Cons.prems], of ?op "weight_at m ?op + ?w"]
      unfolding cond result run .
  qed
qed

lemma aggregate_loop_valid: "list_all valid_receipt rs \<Longrightarrow> aggregate_loop oc rs m = distribution_loop oc rs m"
  by (induction rs arbitrary: m) (auto simp: valid_receipt_def intro!: obind_cong)

lemma aggregate_loop_Ok: "aggregate_loop oc rs m = Ok es \<Longrightarrow> list_all valid_receipt rs"
  by (induction rs arbitrary: m) (auto simp: valid_receipt_def split: if_splits)

text \<open>The aggregate, as a function of the weights alone.\<close>

lemma aggregate_receipts_iff:
  "aggregate_receipts oc rs = Ok es \<longleftrightarrow> rs \<noteq> [] \<and> list_all valid_receipt rs \<and>
    (oc \<longrightarrow> (\<forall>op. operator_total rs op < 2 ^ 64)) \<and> al_valid es \<and>
    map_of es = (\<lambda>op. if op \<in> c_operator ` set rs then Some (operator_weight rs op) else None)"
proof (cases "rs \<noteq> [] \<and> list_all valid_receipt rs")
  case True
  let ?f = "\<lambda>op. if op \<in> c_operator ` set rs then Some (operator_weight rs op) else None"
  have run: "aggregate_receipts oc rs = distribution_loop oc rs []"
    using True by (simp add: aggregate_receipts_def aggregate_loop_valid)
  have spec: "if oc \<longrightarrow> (\<forall>op. operator_total rs op < 2 ^ 64)
    then \<exists>es. distribution_loop oc rs [] = (Ok es :: entry list pr) \<and> al_valid es \<and> map_of es = ?f
    else distribution_loop oc rs [] = (Panic :: entry list pr)"
    using distribution_loop_spec [OF btree.valid_empty, of oc rs, where 'e = prover_error]
    unfolding weight_at_Nil map_of.simps unsigned_0 add_0 .
  show ?thesis
  proof (cases "oc \<longrightarrow> (\<forall>op. operator_total rs op < 2 ^ 64)")
    case t: True
    with spec obtain es' where "distribution_loop oc rs [] = (Ok es' :: entry list pr)" "al_valid es'" "map_of es' = ?f"
      by auto
    with True t run show ?thesis using sorted_entries_eqI [of es' es] by auto
  next
    case f: False
    then have "distribution_loop oc rs [] = (Panic :: entry list pr)" using spec by (simp only: if_False)
    with f run show ?thesis by auto
  qed
next
  case False
  then show ?thesis
    using aggregate_loop_Ok [of oc rs "[]" es] by (auto simp: aggregate_receipts_def)
qed

text \<open>The aggregate does not depend on the order of the receipts.\<close>

lemma aggregate_receipts_mset:
  assumes "mset rs = mset rs'"
  shows "aggregate_receipts oc rs = Ok es \<longleftrightarrow> aggregate_receipts oc rs' = Ok es"
proof -
  have "mset (map c_weight (filter P rs)) = mset (map c_weight (filter P rs'))"
    "mset (map (\<lambda>r. unat (c_weight r)) (filter P rs)) = mset (map (\<lambda>r. unat (c_weight r)) (filter P rs'))" for P
    using assms by (simp_all add: mset_filter)
  then have "operator_weight rs op = operator_weight rs' op" "operator_total rs op = operator_total rs' op" for op
    unfolding operator_weight_def operator_total_def by (metis sum_mset_sum_list)+
  then have "operator_weight rs = operator_weight rs'" "operator_total rs = operator_total rs'" by blast+
  moreover have "set rs = set rs'" "rs = [] \<longleftrightarrow> rs' = []"
    using assms by (metis set_mset_mset, metis mset_zero_iff)
  ultimately show ?thesis
    by (simp add: aggregate_receipts_iff list_all_iff cong: if_cong)
qed

lemma sum_operator_totals:
  assumes "finite A" "c_operator ` set rs \<subseteq> A"
  shows "(\<Sum>op \<in> A. operator_total rs op) = sum_list (map (\<lambda>r. unat (c_weight r)) rs)"
  using assms
proof (induction rs)
  case (Cons r rs)
  then show ?case by (simp add: operator_total_Cons sum.distrib)
qed (simp add: operator_total_def)

lemma sum_operator_weights:
  assumes "finite A" "c_operator ` set rs \<subseteq> A"
  shows "(\<Sum>op \<in> A. operator_weight rs op) = sum_list (map c_weight rs)"
  using assms
proof (induction rs)
  case (Cons r rs)
  then show ?case by (simp add: operator_total_Cons sum.distrib)
qed (simp add: operator_weight_def)

lemma sum_weights_checked:
  "unat acc + sum_list (map unat ws) < 2 ^ 64 \<Longrightarrow>
    sum_weights oc ws acc = Ok (acc + sum_list ws) \<and> unat (acc + sum_list ws) = unat acc + sum_list (map unat ws)"
proof (induction ws arbitrary: acc)
  case (Cons w ws)
  then have "unat (acc + w) = unat acc + unat w" by (simp add: unat_add64)
  with Cons.IH [of "acc + w"] Cons.prems show ?case by (simp add: add64_def add.assoc)
qed simp

lemma sum_weights_Ok:
  "sum_weights oc ws acc = (Ok t :: ('e, u64) outcome) \<Longrightarrow> t = acc + sum_list ws \<and> (oc \<longrightarrow> unat acc + sum_list (map unat ws) < 2 ^ 64)"
proof (induction ws arbitrary: acc)
  case Nil
  then show ?case using unsigned_less [of acc, where 'a = nat] by simp
next
  case (Cons w ws)
  then have "sum_weights oc ws (acc + w) = (Ok t :: ('e, u64) outcome)" "oc \<longrightarrow> unat acc + unat w < 2 ^ 64"
    by (auto simp: add64_def split: if_splits)
  with Cons.IH [of "acc + w"] show ?case by (auto simp: unat_add64 add.assoc)
qed

text \<open>What the entries of an aggregate add up to.\<close>

lemma aggregate_totals:
  assumes "aggregate_receipts True rs = Ok es"
  shows "sum_list (map (\<lambda>(op, w). unat w) es) = sum_list (map (\<lambda>r. unat (c_weight r)) rs)"
    and "length es = card (c_operator ` set rs)"
proof -
  note agg = assms [unfolded aggregate_receipts_iff]
  have d: "distinct (map fst es)" using agg by (simp add: strict_sorted_iff)
  have keys: "set (map fst es) = c_operator ` set rs"
    using btree.keys_entries [of es] agg by auto
  have "unat w = operator_total rs op" if "(op, w) \<in> set es" for op w
  proof -
    have "map_of es op = Some w" using that d by simp
    then have "w = operator_weight rs op" using agg by (auto split: if_splits)
    then show ?thesis using agg by (simp add: unat_operator_weight)
  qed
  then have "sum_list (map (\<lambda>(op, w). unat w) es) = sum_list (map (operator_total rs) (map fst es))"
    unfolding map_map by (intro arg_cong [where f = sum_list] map_cong) auto
  also have "\<dots> = (\<Sum>op \<in> c_operator ` set rs. operator_total rs op)"
    unfolding keys [symmetric] using d by (rule sum_list_distinct_conv_sum_set)
  also have "\<dots> = sum_list (map (\<lambda>r. unat (c_weight r)) rs)"
    by (rule sum_operator_totals) simp_all
  finally show "sum_list (map (\<lambda>(op, w). unat w) es) = sum_list (map (\<lambda>r. unat (c_weight r)) rs)" .
  show "length es = card (c_operator ` set rs)"
    using d keys by (metis distinct_card length_map)
qed

text \<open>Without overflow checks the aggregate is the same as with them while all weights together fit.\<close>

lemma operator_total_le: "operator_total rs op \<le> sum_list (map (\<lambda>r. unat (c_weight r)) rs)"
  by (induction rs) (simp_all add: operator_total_def)

lemma aggregate_checked:
  assumes "aggregate_receipts oc rs = Ok es" and "oc \<or> sum_list (map (\<lambda>r. unat (c_weight r)) rs) < 2 ^ 64"
  shows "aggregate_receipts True rs = Ok es"
  using assms operator_total_le [of rs] le_less_trans unfolding aggregate_receipts_iff by blast

text \<open>Modulo \<open>2 ^ 64\<close> this holds in every build.\<close>

lemma aggregate_sum:
  assumes "aggregate_receipts oc rs = Ok es"
  shows "sum_list (map snd es) = sum_list (map c_weight rs)"
proof -
  note agg = assms [unfolded aggregate_receipts_iff]
  have d: "distinct (map fst es)" using agg by (simp add: strict_sorted_iff)
  have keys: "set (map fst es) = c_operator ` set rs"
    using btree.keys_entries [of es] agg by auto
  have "snd e = operator_weight rs (fst e)" if "e \<in> set es" for e
    using that d agg map_of_is_SomeI [of es "fst e" "snd e"] by (auto split: if_splits)
  then have "sum_list (map snd es) = sum_list (map (operator_weight rs) (map fst es))"
    unfolding map_map by (intro arg_cong [where f = sum_list] map_cong) auto
  also have "\<dots> = (\<Sum>op \<in> c_operator ` set rs. operator_weight rs op)"
    unfolding keys [symmetric] using d by (rule sum_list_distinct_conv_sum_set)
  also have "\<dots> = sum_list (map c_weight rs)"
    by (rule sum_operator_weights) simp_all
  finally show ?thesis .
qed

lemma aggregate_nonempty:
  assumes "aggregate_receipts oc rs = Ok es"
  shows "es \<noteq> []" and "sorted (map fst es)" and "length es = card (c_operator ` set rs)"
proof -
  note agg = assms [unfolded aggregate_receipts_iff]
  have keys: "set (map fst es) = c_operator ` set rs"
    using btree.keys_entries [of es] agg by auto
  show "sorted (map fst es)" using agg by (simp add: strict_sorted_iff)
  have "distinct (map fst es)" using agg by (simp add: strict_sorted_iff)
  then show "length es = card (c_operator ` set rs)" using keys by (metis distinct_card length_map)
  show "es \<noteq> []" using keys agg by auto
qed

section \<open>Proving and verifying\<close>

lemma execute_guest_logic_Ok:
  assumes "execute_guest_logic oc sha256 \<lparr>in_entries = es, in_pool_id = pid\<rparr> = (Ok out :: ('e, distribution_output) outcome)"
    and "es \<noteq> []" and "sorted (map fst es)"
  shows "out_root out = tree_root sha256 (tree_depth (length es)) (padded (map (merkle_leaf sha256) es)) \<and>
    out_total_weight out = sum_list (map snd es) \<and> out_entry_count out = of_nat (length es) \<and> out_pool_id out = pid \<and>
    (oc \<longrightarrow> unat (out_total_weight out) = sum_list (map (\<lambda>(op, w). unat w) es))"
proof -
  have leaves: "map (merkle_leaf sha256) es \<noteq> []" using assms(2) by simp
  from assms(1,3) obtain t where t: "sum_weights oc (map snd es) 0 = (Ok t :: ('e, u64) outcome)"
    and out: "out = \<lparr>out_root = tree_root sha256 (tree_depth (length es)) (padded (map (merkle_leaf sha256) es)),
      out_total_weight = t, out_entry_count = of_nat (length es), out_pool_id = pid\<rparr>"
    by (auto simp: execute_guest_logic_def sort_key_id_if_sorted Let_def compute_merkle_root_eq [OF leaves])
  have "t = sum_list (map snd es)" and fits: "oc \<longrightarrow> sum_list (map unat (map snd es)) < 2 ^ 64"
    using sum_weights_Ok [OF t] by simp_all
  moreover have "unat (0 + sum_list (map snd es)) = unat (0 :: u64) + sum_list (map unat (map snd es))" if oc
    using that fits by (intro sum_weights_checked [THEN conjunct2]) simp
  ultimately show ?thesis
    by (simp add: out comp_def case_prod_unfold)
qed

lemma verify_batch_output:
  "verify_batch \<lparr>proof_bytes = MOCK_PROOF_MAGIC @ output_to_bytes out, public_inputs = output_to_bytes out\<rparr> = Ok out"
  by (simp add: verify_batch_def committed.enc_length committed.dec_enc)

lemma prove_batch_Ok:
  assumes "prove_batch oc sha256 rs pid = Ok p"
  obtains es out where "aggregate_receipts oc rs = Ok es"
    and "execute_guest_logic oc sha256 \<lparr>in_entries = es, in_pool_id = pid\<rparr> = (Ok out :: distribution_output pr)"
    and "p = \<lparr>proof_bytes = MOCK_PROOF_MAGIC @ output_to_bytes out, public_inputs = output_to_bytes out\<rparr>"
  using assms by (auto simp: prove_batch_def Let_def)

section \<open>Properties\<close>

text \<open>
  the host aggregation, exactly: it succeeds when and only when the batch is not empty, every
  receipt has a weight, a timestamp and an operator, and (with overflow checks) no operator's weights
  exceed \<open>u64\<close>; it then returns, sorted by operator and without repetition, one entry per operator
  with the sum of its weights.
\<close>

theorem aggregate_receipts_exact:
  "aggregate_receipts oc rs = Ok es \<longleftrightarrow>
    rs \<noteq> [] \<and> list_all valid_receipt rs \<and> (oc = False \<or> (\<forall>op. operator_total rs op < 2 ^ 64)) \<and>
    sorted_wrt (<) (map fst es) \<and>
    map_of es = (\<lambda>op. if op \<in> c_operator ` set rs then Some (operator_weight rs op) else None)"
  by (auto simp: aggregate_receipts_iff)

text \<open>
  C6: a proof made by the prover verifies, and what the verifier reads is right: the Merkle root of
  the sorted \<open>(operator, weight)\<close> leaves, the number of different operators, the pool, and a total that
  is the exact sum of the weights of all receipts. This is shown for a build with overflow checks, where
  a sum that does not fit makes the prover panic instead, and for a build without them as long as the
  sum of the weights is below \<open>2 ^ 64\<close>; beyond that the unchecked total wraps. The number of different
  operators has to fit the 32 bits of the entry count.
\<close>

theorem proof_verifies_and_conserves_weight:
  assumes "prove_batch oc sha256 rs pid = Ok p"
    and "oc \<or> sum_list (map (\<lambda>r. unat (c_weight r)) rs) < 2 ^ 64" and "card (c_operator ` set rs) < 2 ^ 32"
  shows "\<exists>es out. aggregate_receipts oc rs = Ok es \<and> verify_batch p = Ok out \<and>
    out_root out = tree_root sha256 (tree_depth (length es)) (padded (map (merkle_leaf sha256) es)) \<and>
    unat (out_total_weight out) = sum_list (map (\<lambda>r. unat (c_weight r)) rs) \<and>
    unat (out_entry_count out) = card (c_operator ` set rs) \<and> out_pool_id out = pid"
proof -
  obtain es out where es: "aggregate_receipts oc rs = Ok es"
    and run: "execute_guest_logic oc sha256 \<lparr>in_entries = es, in_pool_id = pid\<rparr> = (Ok out :: distribution_output pr)"
    and p: "p = \<lparr>proof_bytes = MOCK_PROOF_MAGIC @ output_to_bytes out, public_inputs = output_to_bytes out\<rparr>"
    by (rule prove_batch_Ok [OF assms(1)])
  note tot = aggregate_totals [OF aggregate_checked [OF es assms(2)]]
  note guest = execute_guest_logic_Ok [OF run aggregate_nonempty(1,2) [OF es]]
  have "unat (out_total_weight out) = sum_list (map (\<lambda>(op, w). unat w) es)"
  proof (cases oc)
    case False
    then have "unat (0 :: u64) + sum_list (map unat (map snd es)) < 2 ^ 64"
      using assms(2) tot(1) by (simp add: comp_def case_prod_unfold)
    from sum_weights_checked [OF this, THEN conjunct2] guest show ?thesis
      by (simp add: comp_def case_prod_unfold)
  next
    case True
    with guest show ?thesis by blast
  qed
  then show ?thesis
    using guest es p tot assms(3) verify_batch_output [of out] by (auto simp: unsigned_of_nat take_bit_nat_eq_self)
qed

theorem proof_verifies_and_conserves_weight_witness:
  "\<exists>out. verify_batch (case prove_batch False (\<lambda>_. 0)
      [\<lparr>c_weight = 3, c_signable_data = [], c_operator = 9, c_signer = 1, c_timestamp = 5, c_signature = []\<rparr>,
       \<lparr>c_weight = 4, c_signable_data = [], c_operator = 9, c_signer = 1, c_timestamp = 6, c_signature = []\<rparr>] 2
      of Ok p \<Rightarrow> p) = Ok out \<and> unat (out_total_weight out) = 7"
proof -
  let ?rs = "[\<lparr>c_weight = 3, c_signable_data = [], c_operator = 9, c_signer = 1, c_timestamp = 5, c_signature = []\<rparr>,
       \<lparr>c_weight = 4, c_signable_data = [], c_operator = 9, c_signer = 1, c_timestamp = 6, c_signature = []\<rparr>] :: contribution list"
  obtain p where p: "prove_batch False (\<lambda>_. 0) ?rs 2 = Ok p"
    by (simp add: prove_batch_def aggregate_receipts_def add_weight_def add64_def execute_guest_logic_def
        compute_merkle_root_def Let_def)
  from proof_verifies_and_conserves_weight [OF this] show ?thesis
    by (auto simp: p)
qed

text \<open>
  the outcome of proving a batch does not depend on the order in which the receipts arrived.
\<close>

theorem prove_batch_order_independent:
  assumes "mset rs = mset rs'"
  shows "prove_batch oc sha256 rs pid = Ok p \<longleftrightarrow> prove_batch oc sha256 rs' pid = Ok p"
  by (simp add: prove_batch_def aggregate_receipts_mset [OF assms])

theorem prove_batch_order_independent_witness:
  "\<exists>p. prove_batch True (\<lambda>_. 0)
      [\<lparr>c_weight = 3, c_signable_data = [], c_operator = 9, c_signer = 1, c_timestamp = 5, c_signature = []\<rparr>,
       \<lparr>c_weight = 4, c_signable_data = [], c_operator = 9, c_signer = 1, c_timestamp = 6, c_signature = []\<rparr>] 2 = Ok p \<and>
     prove_batch True (\<lambda>_. 0)
      [\<lparr>c_weight = 4, c_signable_data = [], c_operator = 9, c_signer = 1, c_timestamp = 6, c_signature = []\<rparr>,
       \<lparr>c_weight = 3, c_signable_data = [], c_operator = 9, c_signer = 1, c_timestamp = 5, c_signature = []\<rparr>] 2 = Ok p"
proof -
  let ?r = "\<lparr>c_weight = 3, c_signable_data = [], c_operator = 9, c_signer = 1, c_timestamp = 5, c_signature = []\<rparr> :: contribution"
  let ?s = "\<lparr>c_weight = 4, c_signable_data = [], c_operator = 9, c_signer = 1, c_timestamp = 6, c_signature = []\<rparr> :: contribution"
  obtain p where "prove_batch True (\<lambda>_. 0) [?r, ?s] 2 = Ok p"
    by (simp add: prove_batch_def aggregate_receipts_def add_weight_def add64_def execute_guest_logic_def
        compute_merkle_root_def sum_weights.simps Let_def)
  moreover from this have "prove_batch True (\<lambda>_. 0) [?s, ?r] 2 = Ok p"
    by (subst prove_batch_order_independent [of _ "[?r, ?s]"]) simp_all
  ultimately show ?thesis by blast
qed

text \<open>
  the mock verifier accepts exactly the well-formed triples of magic, output and the same output
  as public inputs, and any output can be put into one: acceptance proves nothing beyond the format.
\<close>

theorem mock_verifier_exact:
  "(verify_batch p = Ok out \<longleftrightarrow>
     p = \<lparr>proof_bytes = MOCK_PROOF_MAGIC @ output_to_bytes out, public_inputs = output_to_bytes out\<rparr>) \<and>
   verify_batch p \<noteq> Panic"
proof (intro conjI iffI)
  assume ok: "verify_batch p = Ok out"
  let ?m = "length MOCK_PROOF_MAGIC"
  have parts: "take ?m (proof_bytes p) = MOCK_PROOF_MAGIC" "drop ?m (proof_bytes p) = public_inputs p"
    "length (public_inputs p) = 76" "out = output_from_bytes (public_inputs p)"
    using ok by (auto simp: verify_batch_def split: if_splits)
  then have "output_to_bytes out = public_inputs p" by (simp add: committed.enc_dec)
  moreover have "proof_bytes p = MOCK_PROOF_MAGIC @ public_inputs p"
    using parts(1,2) by (metis append_take_drop_id)
  ultimately show "p = \<lparr>proof_bytes = MOCK_PROOF_MAGIC @ output_to_bytes out, public_inputs = output_to_bytes out\<rparr>"
    by simp
qed (simp_all add: verify_batch_output, simp add: verify_batch_def)

end
