(* ===== verification/Collector.thy ===== *)
theory Collector
  imports Accounts Prover
begin

text \<open>
  \<open>crates/aggregator/src/collector.rs\<close>: validation, deduplication and queueing of storage receipts.
  Every operation is a function from the state to a result and the state it leaves, so that what a
  failed call changes is visible. \<open>externals\<close> collects the third-party functions (SHA-256, ed25519
  \<open>verify_strict\<close>, \<open>bincode\<close>, \<open>hex\<close>); a \<open>HashMap\<close> is an association list whose order means nothing.
  \<open>collector_step\<close> is the transition relation of the collector, \<open>collector_inv\<close> its invariant.
\<close>

section \<open>The code\<close>

datatype aggregator_error =
    InvalidReceiptSignature
  | TimestampOutOfRange u64 u64 u64
  | DuplicateReceipt string
  | UnknownPool
  | ProverFailed prover_error
  | EmptyPoolBatch
  | Serialization string

type_synonym 'a ar = "(aggregator_error, 'a) outcome"

record externals =
  x_sha256 :: "bytes \<Rightarrow> key32"
  x_valid_key :: "key32 \<Rightarrow> bool"
  x_verify_strict :: "key32 \<Rightarrow> bytes \<Rightarrow> bytes \<Rightarrow> bool" \<comment> \<open>key, message, signature\<close>
  x_serialize :: "storage_receipt \<Rightarrow> bytes"
  x_deserialize :: "bytes \<Rightarrow> string + storage_receipt"
  x_deserialize_many :: "bytes \<Rightarrow> storage_receipt list option"
  x_hex :: "bytes \<Rightarrow> string"

record collector =
  pool_receipts :: "(key32 \<times> storage_receipt list) list"
  seen :: "key32 set"
  window_start :: u64
  window_end :: u64
  grace_secs :: u64
  cid_to_pool :: "key32 \<rightharpoonup> key32"
  persist_dir :: "string option"

text \<open>
  Files by directory and name. What becomes of an appended record: it is written, the file cannot be
  opened, or the write fails after some bytes.
\<close>

datatype append_result = Appended | Refused string | Cut_short nat string

type_synonym disk = "string \<times> string \<rightharpoonup> bytes"

definition collector_new :: "u64 \<Rightarrow> u64 \<Rightarrow> u64 \<Rightarrow> collector" where
  "collector_new start end' grace =
     \<lparr>pool_receipts = [], seen = {}, window_start = start, window_end = end', grace_secs = grace,
      cid_to_pool = Map.empty, persist_dir = None\<rparr>"

definition with_persistence :: "string \<Rightarrow> collector \<Rightarrow> collector" where
  "with_persistence dir self = self\<lparr>persist_dir := Some dir\<rparr>"

definition set_persist_dir :: "string \<Rightarrow> collector \<Rightarrow> collector" where
  "set_persist_dir dir self = self\<lparr>persist_dir := Some dir\<rparr>"

definition register_pool :: "key32 \<Rightarrow> key32 \<Rightarrow> collector \<Rightarrow> collector" where
  "register_pool cid pool_pubkey self = self\<lparr>cid_to_pool := (cid_to_pool self)(cid \<mapsto> pool_pubkey)\<rparr>"

definition receipt_count :: "collector \<Rightarrow> nat" where
  "receipt_count self = sum_list (map (\<lambda>(pool, receipts). length receipts) (pool_receipts self))"

definition pools :: "collector \<Rightarrow> key32 list" where
  "pools self = map fst (pool_receipts self)"

definition take_receipts :: "key32 \<Rightarrow> collector \<Rightarrow> storage_receipt list \<times> collector" where
  "take_receipts pool self =
     (case map_of (pool_receipts self) pool of None \<Rightarrow> [] | Some receipts \<Rightarrow> receipts,
      self\<lparr>pool_receipts := filter (\<lambda>(p, _). p \<noteq> pool) (pool_receipts self)\<rparr>)"

text \<open>\<open>entry(pool).or_default().push(receipt)\<close>\<close>

fun push_receipt :: "key32 \<Rightarrow> storage_receipt \<Rightarrow> (key32 \<times> storage_receipt list) list \<Rightarrow> (key32 \<times> storage_receipt list) list" where
  "push_receipt pool receipt [] = [(pool, [receipt])]"
| "push_receipt pool receipt ((p, receipts) # rest) =
     (if p = pool then (p, receipts @ [receipt]) # rest else (p, receipts) # push_receipt pool receipt rest)"

definition verify_receipt_signature :: "externals \<Rightarrow> storage_receipt \<Rightarrow> unit ar" where
  "verify_receipt_signature x receipt =
     (if \<not> x_valid_key x (challenger receipt) then Err InvalidReceiptSignature
      else if length (signature receipt) \<noteq> 64 then Err InvalidReceiptSignature
      else if \<not> x_verify_strict x (challenger receipt) (signable_bytes receipt) (signature receipt)
        then Err InvalidReceiptSignature
      else Ok ())"

definition receipt_file :: "externals \<Rightarrow> key32 \<Rightarrow> string" where
  "receipt_file x pool = ''pool_'' @ x_hex x (key_bytes pool) @ ''.receipts.log''"

definition persist_receipt ::
  "externals \<Rightarrow> append_result \<Rightarrow> string \<Rightarrow> key32 \<Rightarrow> storage_receipt \<Rightarrow> disk \<Rightarrow> unit ar \<times> disk" where
  "persist_receipt x written dir pool receipt fs =
     (let path = (dir, receipt_file x pool);
          data = x_serialize x receipt;
          old = (case fs path of None \<Rightarrow> [] | Some content \<Rightarrow> content);
          rec = le_bytes 4 (of_nat (length data) :: u32) @ data
      in case written of
          Appended \<Rightarrow> (Ok (), fs(path \<mapsto> old @ rec))
        | Refused e \<Rightarrow> (Err (Serialization e), fs)
        | Cut_short n e \<Rightarrow> (Err (Serialization e), fs(path \<mapsto> old @ take n rec)))"

text \<open>A failure to persist is only logged; \<open>written\<close> tells what becomes of each receipt's record.\<close>

definition ingest ::
  "bool \<Rightarrow> externals \<Rightarrow> (storage_receipt \<Rightarrow> append_result) \<Rightarrow> storage_receipt \<Rightarrow> collector \<times> disk \<Rightarrow> unit ar \<times> collector \<times> disk" where
  "ingest oc x written receipt st = (case st of (self, fs) \<Rightarrow>
     (case add64 oc (window_end self) (grace_secs self) of
        Err e \<Rightarrow> (Err e, st)
      | Panic \<Rightarrow> (Panic, st)
      | Ok deadline \<Rightarrow>
        if timestamp receipt < window_start self \<or> deadline \<le> timestamp receipt
        then (Err (TimestampOutOfRange (timestamp receipt) (window_start self) deadline), st)
        else if storage_node receipt = 0 \<or> content_id receipt = 0 then (Err InvalidReceiptSignature, st)
        else let dedup = dedup_hash (x_sha256 x) receipt in
          if dedup \<in> seen self then (Err (DuplicateReceipt (x_hex x (key_bytes dedup))), st)
          else case verify_receipt_signature x receipt of
            Err e \<Rightarrow> (Err e, st)
          | Panic \<Rightarrow> (Panic, st)
          | Ok _ \<Rightarrow>
            (case cid_to_pool self (content_id receipt) of
               None \<Rightarrow> (Err UnknownPool, st)
             | Some pool \<Rightarrow>
               let fs = (case persist_dir self of None \<Rightarrow> fs
                         | Some dir \<Rightarrow> snd (persist_receipt x (written receipt) dir pool receipt fs))
               in (Ok (), self\<lparr>seen := insert dedup (seen self),
                               pool_receipts := push_receipt pool receipt (pool_receipts self)\<rparr>, fs))))"

definition process_receipt_message ::
  "bool \<Rightarrow> externals \<Rightarrow> (storage_receipt \<Rightarrow> append_result) \<Rightarrow> bytes \<Rightarrow> collector \<times> disk \<Rightarrow> unit ar \<times> collector \<times> disk" where
  "process_receipt_message oc x written data st =
     (case x_deserialize x data of Inl e \<Rightarrow> (Err (Serialization e), st)
      | Inr receipt \<Rightarrow> ingest oc x written receipt st)"

text \<open>\<open>drain_channel\<close> on the messages waiting in the channel; it counts the accepted ones.\<close>

fun drain_channel ::
  "bool \<Rightarrow> externals \<Rightarrow> (storage_receipt \<Rightarrow> append_result) \<Rightarrow> bytes list \<Rightarrow> collector \<times> disk \<Rightarrow> nat ar \<times> collector \<times> disk" where
  "drain_channel oc x written [] st = (Ok 0, st)"
| "drain_channel oc x written (msg # msgs) st =
     (case process_receipt_message oc x written msg st of (res, st') \<Rightarrow>
       (case res of
          Panic \<Rightarrow> (Panic, st')
        | Err e \<Rightarrow> drain_channel oc x written msgs st'
        | Ok _ \<Rightarrow> (case drain_channel oc x written msgs st' of (n, st'') \<Rightarrow> (omap Suc n, st''))))"

definition reset :: "u64 \<Rightarrow> u64 \<Rightarrow> collector \<Rightarrow> collector" where
  "reset start end' self = self\<lparr>pool_receipts := [], seen := {}, window_start := start, window_end := end'\<rparr>"

text \<open>\<open>Path::extension\<close> on a file name.\<close>

definition extension :: "string \<Rightarrow> string option" where
  "extension name =
     (let ext = rev (takeWhile (\<lambda>c. c \<noteq> CHR ''.'') (rev name));
          stem = take (length name - length ext - 1) name
      in if CHR ''.'' \<notin> set name \<or> stem = [] \<or> name = ''..'' then None else Some ext)"

text \<open>The receipts of one file, admitted without validation.\<close>

fun reload :: "externals \<Rightarrow> storage_receipt list \<Rightarrow> collector \<Rightarrow> nat \<times> collector" where
  "reload x [] self = (0, self)"
| "reload x (receipt # receipts) self =
     (let dedup = dedup_hash (x_sha256 x) receipt in
      if dedup \<in> seen self then reload x receipts self
      else case cid_to_pool self (content_id receipt) of
          None \<Rightarrow> reload x receipts self
        | Some pool \<Rightarrow>
            (case reload x receipts (self\<lparr>seen := insert dedup (seen self),
                pool_receipts := push_receipt pool receipt (pool_receipts self)\<rparr>) of
               (n, self') \<Rightarrow> (Suc n, self')))"

text \<open>The files of the directory as \<open>read_dir\<close> lists them, with their contents if readable.\<close>

fun load_persisted :: "externals \<Rightarrow> (string \<times> bytes option) list \<Rightarrow> collector \<Rightarrow> nat \<times> collector" where
  "load_persisted x [] self = (0, self)"
| "load_persisted x ((name, content) # files) self =
     (case (if extension name = Some ''receipts''
            then (case content of None \<Rightarrow> None | Some data \<Rightarrow> x_deserialize_many x data) else None) of
        None \<Rightarrow> load_persisted x files self
      | Some receipts \<Rightarrow>
          (case reload x receipts self of (n, self') \<Rightarrow>
           (case load_persisted x files self' of (m, self'') \<Rightarrow> (n + m, self''))))"

section \<open>The invariant\<close>

definition all_receipts :: "collector \<Rightarrow> storage_receipt list" where
  "all_receipts self = concat (map snd (pool_receipts self))"

text \<open>
  One entry per pool, none empty; the queued receipts have different deduplication hashes, all
  recorded in \<open>seen\<close>.
\<close>

definition collector_inv :: "externals \<Rightarrow> collector \<Rightarrow> bool" where
  "collector_inv x self \<longleftrightarrow> distinct (pools self) \<and> (\<forall>(p, rs) \<in> set (pool_receipts self). rs \<noteq> []) \<and>
     distinct (map (dedup_hash (x_sha256 x)) (all_receipts self)) \<and>
     dedup_hash (x_sha256 x) ` set (all_receipts self) \<subseteq> seen self"

text \<open>What validation guarantees of a queued receipt.\<close>

definition receipt_valid :: "externals \<Rightarrow> collector \<Rightarrow> storage_receipt \<Rightarrow> bool" where
  "receipt_valid x self r \<longleftrightarrow> window_start self \<le> timestamp r \<and> timestamp r < window_end self + grace_secs self \<and>
     storage_node r \<noteq> 0 \<and> content_id r \<noteq> 0 \<and> verify_receipt_signature x r = Ok ()"

lemma push_receipt_keys:
  "distinct (map fst prs) \<Longrightarrow> distinct (map fst (push_receipt p r prs)) \<and>
    set (map fst (push_receipt p r prs)) = insert p (set (map fst prs))"
  by (induction p r prs rule: push_receipt.induct) auto

lemma push_receipt_nonempty:
  "\<forall>(p, rs) \<in> set prs. rs \<noteq> [] \<Longrightarrow> \<forall>(p, rs) \<in> set (push_receipt p r prs). rs \<noteq> []"
  by (induction p r prs rule: push_receipt.induct) auto

lemma push_receipt_mset:
  "mset (concat (map snd (push_receipt p r prs))) = add_mset r (mset (concat (map snd prs)))"
  by (induction p r prs rule: push_receipt.induct) auto

lemma push_receipt_lookup:
  "map_of (push_receipt p r prs) q = (if q = p
     then Some ((case map_of prs p of None \<Rightarrow> [] | Some rs \<Rightarrow> rs) @ [r]) else map_of prs q)"
  by (induction p r prs rule: push_receipt.induct) auto

lemma distinct_mset_eq: "mset xs = mset ys \<Longrightarrow> distinct xs \<longleftrightarrow> distinct ys"
  by (metis distinct_count_atmost_1 set_mset_mset)

lemma accept_inv:
  assumes "collector_inv x self" and "dedup_hash (x_sha256 x) r \<notin> seen self"
  shows "collector_inv x (self\<lparr>seen := insert (dedup_hash (x_sha256 x) r) (seen self),
    pool_receipts := push_receipt p r (pool_receipts self)\<rparr>)"
proof -
  let ?h = "dedup_hash (x_sha256 x)"
  let ?new = "concat (map snd (push_receipt p r (pool_receipts self)))"
  have "mset (map ?h ?new) = mset (map ?h (r # all_receipts self))"
    by (simp only: mset_map push_receipt_mset all_receipts_def mset.simps image_mset_add_mset)
  then have "distinct (map ?h ?new) \<longleftrightarrow> distinct (map ?h (r # all_receipts self))"
    by (rule distinct_mset_eq)
  moreover have "set ?new = insert r (set (all_receipts self))"
    by (metis push_receipt_mset all_receipts_def set_mset_add_mset_insert set_mset_mset)
  moreover have "?h r \<notin> ?h ` set (all_receipts self)"
    using assms by (auto simp: collector_inv_def)
  moreover have "all_receipts (self\<lparr>seen := S, pool_receipts := push_receipt p r (pool_receipts self)\<rparr>) = ?new" for S
    by (simp add: all_receipts_def)
  moreover have "distinct (pools (self\<lparr>seen := S, pool_receipts := push_receipt p r (pool_receipts self)\<rparr>))" for S
    using assms(1) push_receipt_keys by (simp add: collector_inv_def pools_def)
  ultimately show ?thesis
    using assms(1) push_receipt_nonempty [of "pool_receipts self" p r]
    unfolding collector_inv_def by (simp, blast)
qed

section \<open>Each operation\<close>

text \<open>A receipt is accepted exactly under the conditions of the code, and anything else changes nothing.\<close>

definition accepts :: "bool \<Rightarrow> externals \<Rightarrow> collector \<Rightarrow> storage_receipt \<Rightarrow> bool" where
  "accepts oc x self r \<longleftrightarrow> (oc \<longrightarrow> unat (window_end self) + unat (grace_secs self) < 2 ^ 64) \<and>
     receipt_valid x self r \<and> dedup_hash (x_sha256 x) r \<notin> seen self \<and> cid_to_pool self (content_id r) \<noteq> None"

lemma verify_not_panic: "verify_receipt_signature x r \<noteq> Panic"
  by (simp add: verify_receipt_signature_def)

lemma ingest_cases:
  "ingest oc x written r (self, fs) =
    (if accepts oc x self r
     then (Ok (), self\<lparr>seen := insert (dedup_hash (x_sha256 x) r) (seen self),
            pool_receipts := push_receipt (the (cid_to_pool self (content_id r))) r (pool_receipts self)\<rparr>,
          (case persist_dir self of None \<Rightarrow> fs
           | Some dir \<Rightarrow> snd (persist_receipt x (written r) dir (the (cid_to_pool self (content_id r))) r fs)))
     else (fst (ingest oc x written r (self, fs)), self, fs))"
  "fst (ingest oc x written r (self, fs)) = Ok u \<longleftrightarrow> accepts oc x self r"
  by (auto simp: ingest_def accepts_def receipt_valid_def add64_def Let_def not_le not_less
      split: outcome.splits option.splits if_splits)

lemma filter_entries_set: "set (concat (map snd (filter P prs))) \<subseteq> set (concat (map snd prs))"
  by auto

lemma filter_entries_distinct:
  "distinct (map h (concat (map snd prs))) \<Longrightarrow> distinct (map h (concat (map snd (filter P prs))))"
proof (induction prs)
  case (Cons pr prs)
  have "h ` set (concat (map snd (filter P prs))) \<subseteq> h ` set (concat (map snd prs))"
    by (intro image_mono filter_entries_set)
  with Cons show ?case by (auto simp del: set_concat)
qed simp

lemma take_receipts_inv:
  assumes "collector_inv x self"
  shows "collector_inv x (snd (take_receipts p self))"
proof -
  let ?prs = "filter (\<lambda>(q, _). q \<noteq> p) (pool_receipts self)"
  have "distinct (map fst ?prs)"
    using assms by (auto simp: collector_inv_def pools_def distinct_map_filter)
  moreover have "\<forall>(p, rs) \<in> set ?prs. rs \<noteq> []"
    using assms by (auto simp: collector_inv_def)
  ultimately show ?thesis
    using assms filter_entries_set [of "\<lambda>(q, _). q \<noteq> p" "pool_receipts self"]
      filter_entries_distinct [of "dedup_hash (x_sha256 x)" "pool_receipts self" "\<lambda>(q, _). q \<noteq> p"]
    unfolding collector_inv_def pools_def all_receipts_def take_receipts_def snd_conv
    by (simp del: set_concat set_map) blast
qed

lemma reload_inv: "collector_inv x self \<Longrightarrow> reload x rs self = (n, self') \<Longrightarrow> collector_inv x self'"
  by (induction x rs self arbitrary: n self' rule: reload.induct)
    (auto simp: Let_def accept_inv split: if_splits option.splits prod.splits)

lemma load_persisted_inv:
  "collector_inv x self \<Longrightarrow> load_persisted x files self = (n, self') \<Longrightarrow> collector_inv x self'"
proof (induction x files self arbitrary: n self' rule: load_persisted.induct)
  case (2 x name content files self)
  let ?o = "if extension name = Some ''receipts''
    then (case content of None \<Rightarrow> None | Some data \<Rightarrow> x_deserialize_many x data) else None"
  show ?case
  proof (cases ?o)
    case None
    with 2 show ?thesis by simp
  next
    case (Some rs)
    obtain k self1 where r: "reload x rs self = (k, self1)" by fastforce
    with Some 2(4) have "load_persisted x files self1 = (n - k, self')"
      by (auto split: prod.splits)
    with 2(2) [OF Some r [symmetric]] reload_inv [OF 2(3) r] show ?thesis by blast
  qed
qed simp

section \<open>Reachable states\<close>

text \<open>
  One call on the collector. \<open>loads\<close> tells whether \<open>load_persisted\<close> is among the calls: it admits
  receipts without validation.
\<close>

inductive collector_step :: "externals \<Rightarrow> bool \<Rightarrow> collector \<Rightarrow> collector \<Rightarrow> bool" for x loads where
  register: "collector_step x loads self (register_pool cid pool self)"
| set_dir: "collector_step x loads self (set_persist_dir dir self)"
| ingest: "ingest oc x written r (self, fs) = (res, self', fs') \<Longrightarrow> collector_step x loads self self'"
| message: "process_receipt_message oc x written data (self, fs) = (res, self', fs') \<Longrightarrow> collector_step x loads self self'"
| take: "take_receipts pool self = (rs, self') \<Longrightarrow> collector_step x loads self self'"
| reset: "collector_step x loads self (reset start end' self)"
| load: "loads \<Longrightarrow> load_persisted x files self = (n, self') \<Longrightarrow> collector_step x loads self self'"

inductive_cases collector_stepE: "collector_step x loads self self'"

abbreviation collector_reachable :: "externals \<Rightarrow> bool \<Rightarrow> collector \<Rightarrow> collector \<Rightarrow> bool" where
  "collector_reachable x loads \<equiv> (collector_step x loads)\<^sup>*\<^sup>*"

lemma ingest_state:
  "ingest oc x written r (self, fs) = (res, self', fs') \<Longrightarrow> self' = self \<or>
    accepts oc x self r \<and> self' = self\<lparr>seen := insert (dedup_hash (x_sha256 x) r) (seen self),
      pool_receipts := push_receipt (the (cid_to_pool self (content_id r))) r (pool_receipts self)\<rparr>"
  by (subst (asm) ingest_cases(1)) (auto split: if_splits)

lemma message_state:
  "process_receipt_message oc x written data (self, fs) = (res, self', fs') \<Longrightarrow> self' = self \<or>
    (\<exists>r. accepts oc x self r \<and> self' = self\<lparr>seen := insert (dedup_hash (x_sha256 x) r) (seen self),
      pool_receipts := push_receipt (the (cid_to_pool self (content_id r))) r (pool_receipts self)\<rparr>)"
  using ingest_state by (auto simp: process_receipt_message_def split: sum.splits) blast

lemma drain_reachable:
  "drain_channel oc x written msgs (self, fs) = (n, self', fs') \<Longrightarrow> collector_reachable x loads self self'"
proof (induction msgs arbitrary: self fs n)
  case (Cons msg msgs)
  obtain res self1 fs1 where m: "process_receipt_message oc x written msg (self, fs) = (res, self1, fs1)"
    by (metis surj_pair)
  then have step: "collector_step x loads self self1" by (rule collector_step.message)
  show ?case
  proof (cases res)
    case Panic
    with Cons.prems m step show ?thesis by auto
  next
    case Err
    with Cons m step show ?thesis by (auto intro: converse_rtranclp_into_rtranclp)
  next
    case Ok
    with Cons m step show ?thesis by (auto split: prod.splits intro: converse_rtranclp_into_rtranclp)
  qed
qed simp

lemma step_inv: "collector_step x loads self self' \<Longrightarrow> collector_inv x self \<Longrightarrow> collector_inv x self'"
proof (erule collector_stepE)
  assume inv: "collector_inv x self"
  {
    fix cid pool assume "self' = register_pool cid pool self"
    with inv show ?thesis by (simp add: collector_inv_def register_pool_def pools_def all_receipts_def)
  next
    fix dir assume "self' = set_persist_dir dir self"
    with inv show ?thesis by (simp add: collector_inv_def set_persist_dir_def pools_def all_receipts_def)
  next
    fix oc written r fs res fs' assume "ingest oc x written r (self, fs) = (res, self', fs')"
    from ingest_state [OF this] inv show ?thesis by (auto simp: accepts_def intro: accept_inv)
  next
    fix oc written data fs res fs' assume "process_receipt_message oc x written data (self, fs) = (res, self', fs')"
    from message_state [OF this] inv show ?thesis by (auto simp: accepts_def intro: accept_inv)
  next
    fix pool rs assume "take_receipts pool self = (rs, self')"
    with take_receipts_inv [OF inv, of pool] show ?thesis by simp
  next
    fix start end' assume "self' = reset start end' self"
    then show ?thesis by (simp add: collector_inv_def reset_def pools_def all_receipts_def)
  next
    fix files n assume "load_persisted x files self = (n, self')"
    with load_persisted_inv [OF inv] show ?thesis by blast
  }
qed

lemma reachable_inv: "collector_reachable x loads (collector_new s e g) self \<Longrightarrow> collector_inv x self"
proof (induction rule: rtranclp_induct)
  case base
  show ?case by (simp add: collector_inv_def collector_new_def pools_def all_receipts_def)
next
  case (step self self')
  then show ?case using step_inv by blast
qed

lemma step_valid:
  assumes "collector_step x False self self'" and "\<forall>r \<in> set (all_receipts self). receipt_valid x self r"
  shows "\<forall>r \<in> set (all_receipts self'). receipt_valid x self' r"
proof -
  have new: "set (all_receipts (self\<lparr>seen := S, pool_receipts := push_receipt p r (pool_receipts self)\<rparr>)) =
      insert r (set (all_receipts self))" for S p r
  proof -
    have "set (concat (map snd (push_receipt p r (pool_receipts self)))) = insert r (set (all_receipts self))"
      by (metis push_receipt_mset all_receipts_def set_mset_add_mset_insert set_mset_mset)
    then show ?thesis by (simp add: all_receipts_def)
  qed
  have accept: "\<forall>q \<in> set (all_receipts self''). receipt_valid x self'' q"
    if "accepts oc x self r" "self'' = self\<lparr>seen := S, pool_receipts := push_receipt p r (pool_receipts self)\<rparr>"
    for oc r S p self''
    using that assms(2) unfolding that(2) new by (auto simp: accepts_def receipt_valid_def)
  from assms(1) show ?thesis
  proof (cases rule: collector_step.cases)
    case (ingest oc written r fs res fs')
    from ingest_state [OF ingest] assms(2) accept show ?thesis by blast
  next
    case (message oc written data fs res fs')
    from message_state [OF message] assms(2) accept show ?thesis by blast
  next
    case (take pool rs)
    then have "pool_receipts self' = filter (\<lambda>(p, _). p \<noteq> pool) (pool_receipts self)"
      "window_start self' = window_start self" "window_end self' = window_end self" "grace_secs self' = grace_secs self"
      by (auto simp: take_receipts_def)
    then show ?thesis using assms(2) by (auto simp: all_receipts_def receipt_valid_def)
  qed (use assms(2) in \<open>auto simp: register_pool_def set_persist_dir_def reset_def all_receipts_def receipt_valid_def\<close>)
qed

lemma extension_log: "extension (receipt_file x p) = Some ''log''"
proof -
  have "rev (receipt_file x p) = ''gol.'' @ rev (''pool_'' @ x_hex x (key_bytes p) @ ''.receipts'')"
    by (simp add: receipt_file_def)
  then have "takeWhile (\<lambda>c. c \<noteq> CHR ''.'') (rev (receipt_file x p)) = ''gol''"
    by simp
  moreover have "CHR ''.'' \<in> set (receipt_file x p)" "receipt_file x p \<noteq> ''..''" "4 < length (receipt_file x p)"
    by (simp_all add: receipt_file_def)
  ultimately show ?thesis
    by (simp add: extension_def Let_def) (cases "receipt_file x p", simp_all)
qed

lemma load_persisted_ignores:
  "\<forall>(name, content) \<in> set files. extension name \<noteq> Some ''receipts'' \<Longrightarrow> load_persisted x files self = (0, self)"
  by (induction files) auto

lemma collector_reachable_mono: "collector_reachable x False self self' \<Longrightarrow> collector_reachable x loads self self'"
proof (induction rule: rtranclp_induct)
  case (step a b)
  have "collector_step x loads a b"
    using step(2) by (cases rule: collector_step.cases) (auto intro: collector_step.intros)
  with step show ?case by (meson rtranclp.rtrancl_into_rtrancl)
qed simp

lemma collector_reachable_facts:
  assumes "collector_reachable x loads (collector_new s e g) self"
  shows "collector_inv x self" and "\<not> loads \<Longrightarrow> \<forall>r \<in> set (all_receipts self). receipt_valid x self r"
proof -
  show "collector_inv x self" by (rule reachable_inv [OF assms])
  show "\<forall>r \<in> set (all_receipts self). receipt_valid x self r" if "\<not> loads"
    using assms that
  proof (induction rule: rtranclp_induct)
    case base
    show ?case by (simp add: collector_new_def all_receipts_def)
  next
    case (step a b)
    then show ?case using step_valid [of x a b] by simp
  qed
qed

section \<open>Properties\<close>

text \<open>
  C8: ingestion, exactly: a receipt is accepted if and only if its timestamp lies in the window with
  grace, node and content are named, its hash is new, its challenger's signature verifies and its
  content belongs to a pool. Acceptance appends it to that pool, marks its hash and, with persistence
  on and a disk that takes it, appends its length and its serialisation to the pool's file; any other
  outcome, errors and panics alike, leaves the collector and the disk as they were.
\<close>

theorem ingest_exact:
  "case ingest oc x written r (self, fs) of (res, self', fs') \<Rightarrow>
     (res = Ok () \<longleftrightarrow> accepts oc x self r) \<and>
     (if accepts oc x self r
      then seen self' = insert (dedup_hash (x_sha256 x) r) (seen self) \<and>
        receipt_count self' = Suc (receipt_count self) \<and>
        (\<forall>p. map_of (pool_receipts self') p = (if cid_to_pool self (content_id r) = Some p
          then Some ((case map_of (pool_receipts self) p of None \<Rightarrow> [] | Some rs \<Rightarrow> rs) @ [r])
          else map_of (pool_receipts self) p)) \<and>
        (\<forall>dir. persist_dir self = Some dir \<longrightarrow> written r = Appended \<longrightarrow>
          (\<forall>p. cid_to_pool self (content_id r) = Some p \<longrightarrow>
            fs' = fs((dir, receipt_file x p) \<mapsto> (case fs (dir, receipt_file x p) of None \<Rightarrow> [] | Some old \<Rightarrow> old) @
              le_bytes 4 (of_nat (length (x_serialize x r)) :: u32) @ x_serialize x r))) \<and>
        (persist_dir self = None \<longrightarrow> fs' = fs)
      else self' = self \<and> fs' = fs)"
proof -
  obtain res self' fs' where i: "ingest oc x written r (self, fs) = (res, self', fs')" by (metis surj_pair)
  note c = ingest_cases [of oc x written r self fs, unfolded i]
  have count: "receipt_count c = length (all_receipts c)" for c :: collector
    by (simp add: receipt_count_def all_receipts_def length_concat case_prod_unfold comp_def)
  show ?thesis
  proof (cases "accepts oc x self r")
    case True
    then obtain p where p: "cid_to_pool self (content_id r) = Some p" by (auto simp: accepts_def)
    with c True have s: "self' = self\<lparr>seen := insert (dedup_hash (x_sha256 x) r) (seen self),
        pool_receipts := push_receipt p r (pool_receipts self)\<rparr>" and "res = Ok ()" by auto
    moreover have "length (concat (map snd (push_receipt p r (pool_receipts self)))) = Suc (length (all_receipts self))"
      by (metis push_receipt_mset all_receipts_def size_mset size_add_mset)
    then have "receipt_count self' = Suc (receipt_count self)"
      by (simp add: count s all_receipts_def)
    ultimately show ?thesis
      using True p c by (auto simp: i push_receipt_lookup persist_receipt_def Let_def)
  next
    case False
    with c show ?thesis by (simp add: i)
  qed
qed

text \<open>Externals for concrete runs: constant hash and permissive signatures.\<close>

definition sample_externals :: externals where
  "sample_externals = \<lparr>x_sha256 = \<lambda>_. 0, x_valid_key = \<lambda>_. True, x_verify_strict = \<lambda>_ _ _. True,
     x_serialize = \<lambda>_. [], x_deserialize = \<lambda>_. Inl [], x_deserialize_many = \<lambda>_. None, x_hex = \<lambda>_. []\<rparr>"

definition sample_receipt :: "u64 \<Rightarrow> storage_receipt" where
  "sample_receipt t = \<lparr>content_id = 3, storage_node = 2, challenger = 1, shard_index = 0, timestamp = t,
     nonce = 0, proof_hash = 1, signature = replicate 64 0\<rparr>"

lemmas sample_defs = sample_externals_def sample_receipt_def

theorem ingest_exact_witness:
  "snd (snd (ingest True sample_externals (\<lambda>r. Appended) (sample_receipt 7300)
      (set_persist_dir ''d'' (register_pool 3 4 (collector_new 3600 7200 300)), Map.empty))) =
    [(''d'', receipt_file sample_externals 4) \<mapsto> [0, 0, 0, 0]]"
proof -
  let ?self = "set_persist_dir ''d'' (register_pool 3 4 (collector_new 3600 7200 300))"
  have "accepts True sample_externals ?self (sample_receipt 7300)"
    by (simp add: accepts_def receipt_valid_def register_pool_def collector_new_def set_persist_dir_def sample_defs
        verify_receipt_signature_def word_le_nat_alt word_less_nat_alt)
  moreover have "persist_dir ?self = Some ''d''" "cid_to_pool ?self (content_id (sample_receipt 7300)) = Some 4"
    by (simp_all add: register_pool_def set_persist_dir_def sample_receipt_def)
  moreover have "le_bytes 4 (0 :: u32) = [0, 0, 0, 0]"
    by code_simp
  moreover have "x_serialize sample_externals (sample_receipt 7300) = []"
    by (simp add: sample_externals_def)
  ultimately show ?thesis
    using ingest_exact [where oc = True and x = sample_externals and written = "\<lambda>r. Appended" and
        r = "sample_receipt 7300" and self = ?self and fs = Map.empty]
    by (simp add: case_prod_unfold)
qed

text \<open>
  C5: in every state a collector can reach, whatever the order of its calls, no pool is listed twice or
  without receipts, no two queued receipts have the same deduplication hash and all these hashes are
  remembered; and if nothing was reloaded from disk, every queued receipt has a timestamp in the
  current window with grace, a named node and content, and a verified signature.
\<close>

theorem collector_invariant:
  assumes "collector_reachable x loads (collector_new s e g) self"
  shows "collector_inv x self \<and>
    (loads \<or> list_all (receipt_valid x self) (all_receipts self))"
  using collector_reachable_facts [OF assms] by (auto simp: list_all_iff)

theorem collector_invariant_witness:
  "collector_inv sample_externals (register_pool 3 4 (collector_new 1000 2000 300))"
proof -
  have "collector_reachable sample_externals False (collector_new 1000 2000 300)
      (register_pool 3 4 (collector_new 1000 2000 300))"
    by (intro r_into_rtranclp collector_step.register)
  from collector_invariant [OF this] show ?thesis by simp
qed

text \<open>
  recovery never finds what was persisted. The files \<open>persist_receipt\<close> writes have the extension
  \<open>log\<close>, while \<open>load_persisted\<close> only reads files with the extension \<open>receipts\<close>: on any directory
  whose files were all written by the collector, whatever their contents, it loads nothing.
\<close>

theorem recovery_finds_nothing:
  assumes "list_all (\<lambda>(name, content). \<exists>pool. name = receipt_file x pool) files"
  shows "load_persisted x files self = (0, self)"
proof (rule load_persisted_ignores)
  show "\<forall>(name, content) \<in> set files. extension name \<noteq> Some ''receipts''"
    using assms extension_log by (fastforce simp: list_all_iff)
qed

theorem recovery_finds_nothing_witness:
  "load_persisted sample_externals [(receipt_file sample_externals 4, Some [1, 2, 3])] (collector_new 1000 2000 300) =
    (0, collector_new 1000 2000 300)"
  by (rule recovery_finds_nothing) auto

end
