(* ===== verification/Fee.thy ===== *)
theory Fee
  imports Prelude
begin

text \<open>
  \<open>crates/settlement/src/fee.rs\<close>: protocol fee and proportional payout, in \<open>u64\<close> lamports with the
  code's saturating operations and its \<open>u128\<close> intermediate. The theorems account for every lamport.
\<close>

section \<open>The code\<close>

definition PROTOCOL_FEE_BPS :: u64 where "PROTOCOL_FEE_BPS = 500"
definition MAX_PROTOCOL_FEE_BPS :: u64 where "MAX_PROTOCOL_FEE_BPS = 5000"
definition BPS_DENOMINATOR :: u64 where "BPS_DENOMINATOR = 10000"
definition USDC_DECIMALS :: u8 where "USDC_DECIMALS = 6"
definition USDC_ONE :: u64 where "USDC_ONE = 1000000"

type_synonym u128 = "128 word"

definition sat_mul128 :: "u128 \<Rightarrow> u128 \<Rightarrow> u128" where
  "sat_mul128 a b = (if 2 ^ 128 \<le> unat a * unat b then - 1 else a * b)"

definition calculate_fee :: "u64 \<Rightarrow> u64 \<Rightarrow> ('e, u64 \<times> u64) outcome" where
  "calculate_fee amount fee_bps =
     (if fee_bps > MAX_PROTOCOL_FEE_BPS then Panic
      else let fee = sat_mul64 amount fee_bps div BPS_DENOMINATOR;
               payout = sat_sub64 amount fee
           in Ok (fee, payout))"

definition calculate_default_fee :: "u64 \<Rightarrow> ('e, u64 \<times> u64) outcome" where
  "calculate_default_fee amount = calculate_fee amount PROTOCOL_FEE_BPS"

definition calculate_proportional_payout :: "u64 \<Rightarrow> u64 \<Rightarrow> u64 \<Rightarrow> u64 \<Rightarrow> ('e, u64 \<times> u64) outcome" where
  "calculate_proportional_payout pool_balance operator_weight total_weight fee_bps =
     (if total_weight = 0 \<or> operator_weight = 0 \<or> pool_balance = 0 then Ok (0, 0)
      else let share = sat_mul128 (ucast pool_balance) (ucast operator_weight) div ucast total_weight;
               share = ucast (min share (ucast (- 1 :: u64)))
           in calculate_fee share fee_bps)"

section \<open>Exact amounts\<close>

lemma unat_div64: "unat ((a :: u64) div b) = unat a div unat b"
  by (simp add: unat_div_distrib)

lemma calculate_fee_Ok:
  assumes "calculate_fee amount bps = Ok (fee, payout)"
  shows "unat bps \<le> 5000" and "unat fee = min (unat amount * unat bps) (2 ^ 64 - 1) div 10000"
    and "unat fee + unat payout = unat amount" and "unat fee \<le> unat amount div 2"
proof -
  have bps: "\<not> bps > MAX_PROTOCOL_FEE_BPS" and fee: "fee = sat_mul64 amount bps div BPS_DENOMINATOR"
    and payout: "payout = sat_sub64 amount fee"
    using assms by (auto simp: calculate_fee_def Let_def split: if_splits)
  show b: "unat bps \<le> 5000"
    using bps by (simp add: MAX_PROTOCOL_FEE_BPS_def word_less_nat_alt not_less)
  show f: "unat fee = min (unat amount * unat bps) (2 ^ 64 - 1) div 10000"
    unfolding fee unat_div64 unat_sat_mul64 by (simp add: BPS_DENOMINATOR_def)
  have "unat amount * unat bps \<le> unat amount * 5000" using b by (rule mult_le_mono2)
  then have "unat fee \<le> unat amount * 5000 div 10000"
    unfolding f by (intro div_le_mono) (meson min.cobounded1 order_trans)
  then show le: "unat fee \<le> unat amount div 2" by linarith
  then show "unat fee + unat payout = unat amount"
    unfolding payout unat_sat_sub64 by simp
qed

lemma calculate_fee_total: "unat bps \<le> 5000 \<Longrightarrow> \<exists>fee payout. calculate_fee amount bps = Ok (fee, payout)"
  by (simp add: calculate_fee_def MAX_PROTOCOL_FEE_BPS_def word_less_nat_alt Let_def)

text \<open>The share, before the fee: no saturation can happen in the \<open>u128\<close> product.\<close>

lemma unat_ucast_128: "unat (ucast (a :: u64) :: u128) = unat a"
  by (simp add: unsigned_ucast_eq take_bit_nat_eq_self order_less_trans [OF unsigned_less])

lemma share_exact:
  fixes p w t :: u64
  shows "unat (ucast (min (sat_mul128 (ucast p) (ucast w) div ucast t) (ucast (- 1 :: u64))) :: u64) =
    min (unat p * unat w div unat t) (2 ^ 64 - 1)"
proof -
  have "unat p < 2 ^ 64" "unat w < 2 ^ 64"
    using unsigned_less [of p, where 'a = nat] unsigned_less [of w, where 'a = nat] by simp_all
  then have "unat p * unat w < 2 ^ 64 * 2 ^ 64"
    by (intro mult_strict_mono') simp_all
  then have prod: "unat p * unat w < 2 ^ 128" by simp
  then have "unat (sat_mul128 (ucast p) (ucast w)) = unat p * unat w"
    by (simp add: sat_mul128_def unat_ucast_128 unat_word_ariths(2))
  then have q: "unat (sat_mul128 (ucast p) (ucast w) div ucast t) = unat p * unat w div unat t"
    by (simp add: unat_div_distrib unat_ucast_128)
  have m: "unat (ucast (- 1 :: u64) :: u128) = 2 ^ 64 - 1"
    by (simp only: unat_ucast_128 unat_max64)
  have "unat (min (sat_mul128 (ucast p) (ucast w) div ucast t) (ucast (- 1 :: u64))) =
      min (unat p * unat w div unat t) (2 ^ 64 - 1)"
    unfolding min_def word_le_nat_alt q m by (cases "unat p * unat w div unat t \<le> 2 ^ 64 - 1") (simp_all only: q m if_True if_False)
  then show ?thesis
    by (simp only: unsigned_ucast_eq take_bit_eq_mod) simp
qed

definition paid :: "u64 \<Rightarrow> u64 \<Rightarrow> u64 \<Rightarrow> nat" where
  "paid pool_balance total_weight w =
     (if total_weight = 0 \<or> w = 0 \<or> pool_balance = 0 then 0
      else min (unat pool_balance * unat w div unat total_weight) (2 ^ 64 - 1))"

lemma calculate_proportional_payout_Ok:
  assumes "unat bps \<le> 5000"
  shows "\<exists>fee payout. calculate_proportional_payout p w t bps = (Ok (fee, payout) :: ('e, u64 \<times> u64) outcome) \<and>
    unat fee + unat payout = paid p t w"
proof (cases "t = 0 \<or> w = 0 \<or> p = 0")
  case False
  let ?share = "ucast (min (sat_mul128 (ucast p) (ucast w) div ucast t) (ucast (- 1 :: u64))) :: u64"
  obtain fee payout where f: "calculate_fee ?share bps = (Ok (fee, payout) :: ('e, u64 \<times> u64) outcome)"
    using calculate_fee_total [OF assms] by blast
  have "calculate_proportional_payout p w t bps = (Ok (fee, payout) :: ('e, u64 \<times> u64) outcome)"
    using False f by (simp add: calculate_proportional_payout_def Let_def)
  moreover have "unat fee + unat payout = paid p t w"
    using calculate_fee_Ok(3) [OF f] share_exact [of p w t] False by (simp add: paid_def)
  ultimately show ?thesis by blast
qed (auto simp: calculate_proportional_payout_def paid_def)

lemma sum_div_le: "sum_list (map (\<lambda>w. f w div t) ws) \<le> sum_list (map f ws) div (t :: nat)"
proof (induction ws)
  case (Cons w ws)
  have "f w div t + sum_list (map f ws) div t \<le> (f w + sum_list (map f ws)) div t"
    by (simp add: div_add1_eq [of "f w"])
  with Cons show ?case by simp
qed simp

section \<open>Properties\<close>

text \<open>
  the fee, in every case: it panics exactly above the 50% cap; otherwise fee and payout add up to
  the amount, the fee is at most half of it, and it is \<open>floor (amount * bps / 10000)\<close> except that
  the product saturates at \<open>u64::MAX\<close>, above which every amount pays the same fee.
\<close>

theorem fee_conserves_amount:
  "case calculate_fee amount bps of
     Ok (fee, payout) \<Rightarrow> unat bps \<le> 5000 \<and> unat fee + unat payout = unat amount \<and>
       unat fee \<le> unat amount div 2 \<and> unat fee = min (unat amount * unat bps) (2 ^ 64 - 1) div 10000
   | Err e \<Rightarrow> False
   | Panic \<Rightarrow> 5000 < unat bps"
proof (cases "unat bps \<le> 5000")
  case True
  then obtain fee payout where f: "calculate_fee amount bps = (Ok (fee, payout) :: ('a, u64 \<times> u64) outcome)"
    using calculate_fee_total by blast
  show ?thesis unfolding f using calculate_fee_Ok [OF f] by simp
next
  case False
  then show ?thesis
    by (simp add: calculate_fee_def MAX_PROTOCOL_FEE_BPS_def word_less_nat_alt)
qed

text \<open>
  a pool never pays out more than it holds: over any list of operators whose weights add up to at
  most the total weight, fees and payouts together stay within the pool balance; each operator gets
  \<open>floor (balance * weight / total)\<close> in fee and payout.
\<close>

theorem payouts_within_pool:
  assumes "unat bps \<le> 5000" and "sum_list (map unat ws) \<le> unat tw" and "tw \<noteq> 0"
  shows "\<exists>fps. otraverse (\<lambda>w. calculate_proportional_payout balance w tw bps) ws = (Ok fps :: ('e, (u64 \<times> u64) list) outcome) \<and>
    sum_list (map (\<lambda>(fee, payout). unat fee + unat payout) fps) \<le> unat balance \<and>
    map (\<lambda>(fee, payout). unat fee + unat payout) fps = map (\<lambda>w. unat balance * unat w div unat tw) ws"
proof -
  have t: "0 < unat tw" using assms(3) by (simp add: unat_gt_0)
  have "\<forall>w. \<exists>fp. calculate_proportional_payout balance w tw bps = (Ok fp :: ('e, u64 \<times> u64) outcome) \<and>
      unat (fst fp) + unat (snd fp) = paid balance tw w"
    using calculate_proportional_payout_Ok [OF assms(1)] by (metis fst_conv snd_conv)
  from choice [OF this] obtain f where f: "\<And>w. calculate_proportional_payout balance w tw bps = (Ok (f w) :: ('e, u64 \<times> u64) outcome)"
    "\<And>w. unat (fst (f w)) + unat (snd (f w)) = paid balance tw w" by blast
  have exact: "paid balance tw w = unat balance * unat w div unat tw" if "w \<in> set ws" for w
  proof -
    have "unat w \<le> unat tw" using that assms(2) member_le_sum_list [of "unat w" "map unat ws"] by force
    then have "unat balance * unat w div unat tw \<le> unat balance * unat tw div unat tw"
      by (intro div_le_mono mult_le_mono2)
    then have "unat balance * unat w div unat tw \<le> unat balance" using t by simp
    also have "\<dots> \<le> 2 ^ 64 - 1" using unsigned_less [of balance, where 'a = nat] by simp
    finally show ?thesis using t by (auto simp: paid_def)
  qed
  have "sum_list (map (\<lambda>w. unat balance * unat w div unat tw) ws) \<le>
      sum_list (map (\<lambda>w. unat balance * unat w) ws) div unat tw"
    by (rule sum_div_le)
  also have "\<dots> = unat balance * sum_list (map unat ws) div unat tw"
    by (simp add: sum_list_const_mult comp_def)
  also have "\<dots> \<le> unat balance * unat tw div unat tw"
    using assms(2) by (intro div_le_mono mult_le_mono2)
  also have "\<dots> = unat balance" using t by simp
  finally have le: "sum_list (map (\<lambda>w. unat balance * unat w div unat tw) ws) \<le> unat balance" .
  have eq: "map (\<lambda>(fee, payout). unat fee + unat payout) (map f ws) = map (\<lambda>w. unat balance * unat w div unat tw) ws"
    using exact f(2) by (simp add: case_prod_beta)
  have "otraverse (\<lambda>w. calculate_proportional_payout balance w tw bps) ws = (Ok (map f ws) :: ('e, (u64 \<times> u64) list) outcome)"
    using f(1) by (intro otraverse_all_Ok)
  with le eq show ?thesis by metis
qed

theorem payouts_within_pool_witness:
  "\<exists>fps. otraverse (\<lambda>w. calculate_proportional_payout 100 w 3 500) [1, 2] = (Ok fps :: ('e, (u64 \<times> u64) list) outcome) \<and>
    sum_list (map (\<lambda>(fee, payout). unat fee + unat payout) fps) \<le> 100"
proof -
  have "sum_list (map unat [1, 2 :: u64]) \<le> unat (3 :: u64)" "unat (500 :: u64) \<le> 5000" "(3 :: u64) \<noteq> 0"
    by simp_all
  from payouts_within_pool [OF this(2,1,3), where 'e = 'e and balance = 100]
  have "\<exists>fps. otraverse (\<lambda>w. calculate_proportional_payout 100 w 3 500) [1, 2] = (Ok fps :: ('e, (u64 \<times> u64) list) outcome) \<and>
    sum_list (map (\<lambda>(fee, payout). unat fee + unat payout) fps) \<le> unat (100 :: u64) \<and>
    map (\<lambda>(fee, payout). unat fee + unat payout) fps = map (\<lambda>w. unat (100 :: u64) * unat w div unat (3 :: u64)) [1, 2 :: u64]"
    .
  then show ?thesis by (elim exE conjE) (rule exI, rule conjI, assumption, simp)
qed

end
