(* ===== verification/Pda.thy ===== *)
theory Pda
  imports Prelude
begin

text \<open>
  \<open>crates/settlement/src/pda.rs\<close>: account addresses derived by hashing seeds. SHA-256 is a parameter;
  Rust hashes the concatenation of what \<open>update\<close> is given. The seven helper functions are shown to
  hash pairwise different strings.
\<close>

section \<open>The code\<close>

definition PROGRAM_ID :: key32 where "PROGRAM_ID = 0"

abbreviation ascii :: "string \<Rightarrow> bytes" where
  "ascii s \<equiv> map of_char s"

definition CONFIG :: bytes where "CONFIG = ascii ''config''"
definition PLAN :: bytes where "PLAN = ascii ''plan''"
definition POOL :: bytes where "POOL = ascii ''pool''"
definition CREATOR_POOL :: bytes where "CREATOR_POOL = ascii ''creator_pool''"
definition CLAIM_RECEIPT :: bytes where "CLAIM_RECEIPT = ascii ''claim_receipt''"
definition TREASURY :: bytes where "TREASURY = ascii ''treasury''"
definition PAYMENT_CHANNEL :: bytes where "PAYMENT_CHANNEL = ascii ''payment_channel''"

definition pda_input :: "key32 \<Rightarrow> bytes list \<Rightarrow> bytes" where
  "pda_input program_id seeds = concat seeds @ key_bytes program_id @ ascii ''ProgramDerivedAddress''"

definition derive_pda :: "(bytes \<Rightarrow> key32) \<Rightarrow> key32 \<Rightarrow> bytes list \<Rightarrow> key32" where
  "derive_pda sha256 program_id seeds = sha256 (pda_input program_id seeds)"

definition config_pda :: "(bytes \<Rightarrow> key32) \<Rightarrow> key32 \<Rightarrow> key32" where
  "config_pda sha256 program_id = derive_pda sha256 program_id [CONFIG]"

definition treasury_pda :: "(bytes \<Rightarrow> key32) \<Rightarrow> key32 \<Rightarrow> key32" where
  "treasury_pda sha256 program_id = derive_pda sha256 program_id [TREASURY]"

definition creator_pool_pda :: "(bytes \<Rightarrow> key32) \<Rightarrow> key32 \<Rightarrow> key32 \<Rightarrow> key32" where
  "creator_pool_pda sha256 program_id creator_pubkey =
     derive_pda sha256 program_id [CREATOR_POOL, key_bytes creator_pubkey]"

definition pool_pda :: "(bytes \<Rightarrow> key32) \<Rightarrow> key32 \<Rightarrow> key32 \<Rightarrow> key32" where
  "pool_pda sha256 program_id pool_pubkey = derive_pda sha256 program_id [POOL, key_bytes pool_pubkey]"

definition plan_pda :: "(bytes \<Rightarrow> key32) \<Rightarrow> key32 \<Rightarrow> u8 \<Rightarrow> u8 \<Rightarrow> u8 \<Rightarrow> key32" where
  "plan_pda sha256 program_id service tier billing_period =
     derive_pda sha256 program_id [PLAN, [service], [tier], [billing_period]]"

definition claim_receipt_pda :: "(bytes \<Rightarrow> key32) \<Rightarrow> key32 \<Rightarrow> key32 \<Rightarrow> key32 \<Rightarrow> key32" where
  "claim_receipt_pda sha256 program_id pool_pubkey operator_pubkey =
     derive_pda sha256 program_id [CLAIM_RECEIPT, key_bytes pool_pubkey, key_bytes operator_pubkey]"

definition payment_channel_pda :: "(bytes \<Rightarrow> key32) \<Rightarrow> key32 \<Rightarrow> key32 \<Rightarrow> key32 \<Rightarrow> key32" where
  "payment_channel_pda sha256 program_id user_pubkey node_pubkey =
     derive_pda sha256 program_id [PAYMENT_CHANNEL, key_bytes user_pubkey, key_bytes node_pubkey]"

section \<open>The accounts the addresses stand for\<close>

datatype account =
    ConfigAccount
  | TreasuryAccount
  | CreatorPoolAccount key32
  | PoolAccount key32
  | PlanAccount u8 u8 u8
  | ClaimReceiptAccount key32 key32
  | PaymentChannelAccount key32 key32

fun account_seeds :: "account \<Rightarrow> bytes list" where
  "account_seeds ConfigAccount = [CONFIG]"
| "account_seeds TreasuryAccount = [TREASURY]"
| "account_seeds (CreatorPoolAccount creator) = [CREATOR_POOL, key_bytes creator]"
| "account_seeds (PoolAccount pool) = [POOL, key_bytes pool]"
| "account_seeds (PlanAccount service tier billing_period) = [PLAN, [service], [tier], [billing_period]]"
| "account_seeds (ClaimReceiptAccount pool operator) = [CLAIM_RECEIPT, key_bytes pool, key_bytes operator]"
| "account_seeds (PaymentChannelAccount user node) = [PAYMENT_CHANNEL, key_bytes user, key_bytes node]"

fun account_pda :: "(bytes \<Rightarrow> key32) \<Rightarrow> key32 \<Rightarrow> account \<Rightarrow> key32" where
  "account_pda sha256 program_id ConfigAccount = config_pda sha256 program_id"
| "account_pda sha256 program_id TreasuryAccount = treasury_pda sha256 program_id"
| "account_pda sha256 program_id (CreatorPoolAccount creator) = creator_pool_pda sha256 program_id creator"
| "account_pda sha256 program_id (PoolAccount pool) = pool_pda sha256 program_id pool"
| "account_pda sha256 program_id (PlanAccount service tier billing_period) =
     plan_pda sha256 program_id service tier billing_period"
| "account_pda sha256 program_id (ClaimReceiptAccount pool operator) =
     claim_receipt_pda sha256 program_id pool operator"
| "account_pda sha256 program_id (PaymentChannelAccount user node) =
     payment_channel_pda sha256 program_id user node"

lemma account_pda_eq: "account_pda sha256 program_id a = sha256 (pda_input program_id (account_seeds a))"
  by (cases a) (simp_all add: derive_pda_def config_pda_def treasury_pda_def creator_pool_pda_def pool_pda_def
      plan_pda_def claim_receipt_pda_def payment_channel_pda_def)

lemmas seed_defs = CONFIG_def PLAN_def POOL_def CREATOR_POOL_def CLAIM_RECEIPT_def TREASURY_def PAYMENT_CHANNEL_def

lemma account_seeds_length:
  "length (concat (account_seeds a)) = (case a of ConfigAccount \<Rightarrow> 6 | TreasuryAccount \<Rightarrow> 8 | CreatorPoolAccount _ \<Rightarrow> 44
    | PoolAccount _ \<Rightarrow> 36 | PlanAccount _ _ _ \<Rightarrow> 7 | ClaimReceiptAccount _ _ \<Rightarrow> 77 | PaymentChannelAccount _ _ \<Rightarrow> 79)"
  by (cases a) (simp_all add: seed_defs)

lemma account_seeds_inject: "concat (account_seeds a) = concat (account_seeds b) \<Longrightarrow> a = b"
  using account_seeds_length [of a] account_seeds_length [of b]
  by (cases a; cases b) (simp_all add: key.enc_inject key.enc_append_inject)

lemma pda_input_inject: "pda_input p (account_seeds a) = pda_input q (account_seeds b) \<longleftrightarrow> p = q \<and> a = b"
proof
  assume eq: "pda_input p (account_seeds a) = pda_input q (account_seeds b)"
  then have "concat (account_seeds a) = concat (account_seeds b)" "key_bytes p = key_bytes q"
    by (simp_all add: pda_input_def append_eq_append_conv)
  then show "p = q \<and> a = b" using account_seeds_inject key.enc_inject by blast
qed simp

text \<open>
  the addresses of the seven kinds of accounts are separated: two accounts, of whatever kind and
  under whatever programs, that get the same address are the same account of the same program, or the
  two strings hashed for them are a collision of SHA-256.
\<close>

theorem account_addresses_separated:
  assumes "account_pda sha256 p a = account_pda sha256 q b"
  shows "p = q \<and> a = b \<or>
    (let x = pda_input p (account_seeds a); y = pda_input q (account_seeds b) in x \<noteq> y \<and> sha256 x = sha256 y)"
  using assms pda_input_inject [of p a q b] by (simp add: account_pda_eq Let_def)

theorem account_addresses_separated_witness:
  "pda_input 1 (account_seeds (PoolAccount 2)) \<noteq> pda_input 1 (account_seeds ConfigAccount)"
  using account_addresses_separated [of "\<lambda>_. 0" 1 "PoolAccount 2" 1 ConfigAccount]
  by (simp add: account_pda_eq Let_def)

end
