(* ===== verification/Instruction.thy ===== *)
theory Instruction
  imports Fee Pda
begin

text \<open>
  \<open>crates/settlement/src/instruction.rs\<close>: instruction data as a discriminator byte and a \<open>bincode\<close>
  payload. The payload structs are the constructors of \<open>payload\<close>; \<open>bincode\<close> is a parameter on them.
  What a reader of the data relies on is that \<open>bincode\<close> is injective on the payloads of one struct; the
  discriminator then tells the structs apart.
\<close>

section \<open>The code\<close>

datatype instruction_type =
    InitializeConfigType | CreatePlanType | UpdatePlanType | DeletePlanType | SubscribeType
  | CreateCreatorPoolType | FundCreatorPoolType | FundContentType | PostDistributionType | ClaimType
  | OpenPaymentChannelType | SettlePaymentChannelType | ClosePaymentChannelType

fun discriminator :: "instruction_type \<Rightarrow> u8" where
  "discriminator InitializeConfigType = 0"
| "discriminator CreatePlanType = 1"
| "discriminator UpdatePlanType = 2"
| "discriminator DeletePlanType = 3"
| "discriminator SubscribeType = 4"
| "discriminator CreateCreatorPoolType = 5"
| "discriminator FundCreatorPoolType = 6"
| "discriminator FundContentType = 7"
| "discriminator PostDistributionType = 8"
| "discriminator ClaimType = 9"
| "discriminator OpenPaymentChannelType = 10"
| "discriminator SettlePaymentChannelType = 11"
| "discriminator ClosePaymentChannelType = 12"

datatype payload =
    InitializeConfig key32 u64
  | CreatePlan u8 u8 u8 u64
  | CreateCreatorPool key32 u8
  | FundCreatorPool key32 u64
  | FundContent key32 key32 u64 u8
  | PostDistribution key32 key32 u64 bytes bytes
  | ClaimPayout key32 key32 u64 "key32 list" u32
  | OpenPaymentChannel key32 key32 u64 "64 word"
  | SettlePaymentChannel key32 key32 u64 u64 bytes
  | ClosePaymentChannel key32 key32

definition build_instruction :: "(payload \<Rightarrow> bytes) \<Rightarrow> instruction_type \<Rightarrow> payload \<Rightarrow> bytes" where
  "build_instruction bincode ty data = discriminator ty # bincode data"

definition initialize_config :: "(payload \<Rightarrow> bytes) \<Rightarrow> key32 \<Rightarrow> bytes" where
  "initialize_config bincode admin =
     build_instruction bincode InitializeConfigType (InitializeConfig admin PROTOCOL_FEE_BPS)"

definition create_creator_pool :: "(payload \<Rightarrow> bytes) \<Rightarrow> key32 \<Rightarrow> u8 \<Rightarrow> bytes" where
  "create_creator_pool bincode creator tier =
     build_instruction bincode CreateCreatorPoolType (CreateCreatorPool creator tier)"

definition fund_creator_pool :: "(payload \<Rightarrow> bytes) \<Rightarrow> key32 \<Rightarrow> u64 \<Rightarrow> bytes" where
  "fund_creator_pool bincode creator amount =
     build_instruction bincode FundCreatorPoolType (FundCreatorPool creator amount)"

definition fund_content :: "(payload \<Rightarrow> bytes) \<Rightarrow> key32 \<Rightarrow> key32 \<Rightarrow> u64 \<Rightarrow> u8 \<Rightarrow> bytes" where
  "fund_content bincode creator cid amount tier =
     build_instruction bincode FundContentType (FundContent creator cid amount tier)"

definition post_distribution ::
  "(payload \<Rightarrow> bytes) \<Rightarrow> key32 \<Rightarrow> key32 \<Rightarrow> u64 \<Rightarrow> bytes \<Rightarrow> bytes \<Rightarrow> bytes" where
  "post_distribution bincode pool_pubkey distribution_root total_weight groth16_proof public_inputs =
     build_instruction bincode PostDistributionType
       (PostDistribution pool_pubkey distribution_root total_weight groth16_proof public_inputs)"

definition claim_payout ::
  "(payload \<Rightarrow> bytes) \<Rightarrow> key32 \<Rightarrow> key32 \<Rightarrow> u64 \<Rightarrow> key32 list \<Rightarrow> u32 \<Rightarrow> bytes" where
  "claim_payout bincode pool_pubkey operator_pubkey operator_weight merkle_proof leaf_index =
     build_instruction bincode ClaimType
       (ClaimPayout pool_pubkey operator_pubkey operator_weight merkle_proof leaf_index)"

definition open_payment_channel :: "(payload \<Rightarrow> bytes) \<Rightarrow> key32 \<Rightarrow> key32 \<Rightarrow> u64 \<Rightarrow> 64 word \<Rightarrow> bytes" where
  "open_payment_channel bincode user node amount expires_at =
     build_instruction bincode OpenPaymentChannelType (OpenPaymentChannel user node amount expires_at)"

definition settle_payment_channel :: "(payload \<Rightarrow> bytes) \<Rightarrow> key32 \<Rightarrow> key32 \<Rightarrow> u64 \<Rightarrow> u64 \<Rightarrow> bytes \<Rightarrow> bytes" where
  "settle_payment_channel bincode user node amount nonce voucher_signature =
     build_instruction bincode SettlePaymentChannelType
       (SettlePaymentChannel user node amount nonce voucher_signature)"

definition close_payment_channel :: "(payload \<Rightarrow> bytes) \<Rightarrow> key32 \<Rightarrow> key32 \<Rightarrow> bytes" where
  "close_payment_channel bincode user node =
     build_instruction bincode ClosePaymentChannelType (ClosePaymentChannel user node)"

record account_meta =
  meta_pubkey :: key32
  is_signer :: bool
  is_writable :: bool

definition claim_payout_accounts :: "(bytes \<Rightarrow> key32) \<Rightarrow> key32 \<Rightarrow> key32 \<Rightarrow> key32 \<Rightarrow> account_meta list" where
  "claim_payout_accounts sha256 program_id pool_pubkey operator_pubkey =
     (let pool_pda = creator_pool_pda sha256 program_id pool_pubkey;
          claim_pda = claim_receipt_pda sha256 program_id pool_pubkey operator_pubkey;
          treasury = treasury_pda sha256 program_id
      in [\<lparr>meta_pubkey = pool_pda, is_signer = False, is_writable = True\<rparr>,
          \<lparr>meta_pubkey = claim_pda, is_signer = False, is_writable = True\<rparr>,
          \<lparr>meta_pubkey = treasury, is_signer = False, is_writable = True\<rparr>,
          \<lparr>meta_pubkey = operator_pubkey, is_signer = True, is_writable = True\<rparr>])"

definition settle_payment_channel_accounts ::
  "(bytes \<Rightarrow> key32) \<Rightarrow> key32 \<Rightarrow> key32 \<Rightarrow> key32 \<Rightarrow> account_meta list" where
  "settle_payment_channel_accounts sha256 program_id user node =
     (let channel_pda = payment_channel_pda sha256 program_id user node;
          treasury = treasury_pda sha256 program_id
      in [\<lparr>meta_pubkey = channel_pda, is_signer = False, is_writable = True\<rparr>,
          \<lparr>meta_pubkey = treasury, is_signer = False, is_writable = True\<rparr>,
          \<lparr>meta_pubkey = node, is_signer = True, is_writable = True\<rparr>,
          \<lparr>meta_pubkey = user, is_signer = False, is_writable = True\<rparr>])"

section \<open>Reading instructions back\<close>

fun payload_type :: "payload \<Rightarrow> instruction_type" where
  "payload_type (InitializeConfig _ _) = InitializeConfigType"
| "payload_type (CreatePlan _ _ _ _) = CreatePlanType"
| "payload_type (CreateCreatorPool _ _) = CreateCreatorPoolType"
| "payload_type (FundCreatorPool _ _) = FundCreatorPoolType"
| "payload_type (FundContent _ _ _ _) = FundContentType"
| "payload_type (PostDistribution _ _ _ _ _) = PostDistributionType"
| "payload_type (ClaimPayout _ _ _ _ _) = ClaimType"
| "payload_type (OpenPaymentChannel _ _ _ _) = OpenPaymentChannelType"
| "payload_type (SettlePaymentChannel _ _ _ _ _) = SettlePaymentChannelType"
| "payload_type (ClosePaymentChannel _ _) = ClosePaymentChannelType"

text \<open>The instructions the builders make, each with the payload it carries.\<close>

inductive built :: "(payload \<Rightarrow> bytes) \<Rightarrow> bytes \<Rightarrow> payload \<Rightarrow> bool" for bincode where
  "built bincode (initialize_config bincode admin) (InitializeConfig admin PROTOCOL_FEE_BPS)"
| "built bincode (create_creator_pool bincode creator tier) (CreateCreatorPool creator tier)"
| "built bincode (fund_creator_pool bincode creator amount) (FundCreatorPool creator amount)"
| "built bincode (fund_content bincode creator cid amount tier) (FundContent creator cid amount tier)"
| "built bincode (post_distribution bincode pk dr tw gp pi) (PostDistribution pk dr tw gp pi)"
| "built bincode (claim_payout bincode pk opk w mp li) (ClaimPayout pk opk w mp li)"
| "built bincode (open_payment_channel bincode user node amount ex) (OpenPaymentChannel user node amount ex)"
| "built bincode (settle_payment_channel bincode user node amount n sig) (SettlePaymentChannel user node amount n sig)"
| "built bincode (close_payment_channel bincode user node) (ClosePaymentChannel user node)"

lemmas builder_defs = initialize_config_def create_creator_pool_def fund_creator_pool_def fund_content_def
  post_distribution_def claim_payout_def open_payment_channel_def settle_payment_channel_def
  close_payment_channel_def build_instruction_def

lemma built_bytes: "built bincode bs p \<Longrightarrow> bs = discriminator (payload_type p) # bincode p"
  by (induction rule: built.induct) (simp_all add: builder_defs)

lemma discriminator_inject: "discriminator t = discriminator t' \<longleftrightarrow> t = t'"
  by (cases t; cases t') simp_all

text \<open>A concrete injective serializer, for the witness: vectors carry their length in unary.\<close>

fun vec_bytes :: "bytes \<Rightarrow> bytes" where
  "vec_bytes bs = replicate (length bs) 1 @ [0] @ bs"

fun sample_bincode :: "payload \<Rightarrow> bytes" where
  "sample_bincode (InitializeConfig k a) = key_bytes k @ le_bytes 8 a"
| "sample_bincode (CreatePlan s t b p) = [s, t, b] @ le_bytes 8 p"
| "sample_bincode (CreateCreatorPool k t) = key_bytes k @ [t]"
| "sample_bincode (FundCreatorPool k a) = key_bytes k @ le_bytes 8 a"
| "sample_bincode (FundContent k c a t) = key_bytes k @ key_bytes c @ le_bytes 8 a @ [t]"
| "sample_bincode (PostDistribution k r w g p) = key_bytes k @ key_bytes r @ le_bytes 8 w @ vec_bytes g @ p"
| "sample_bincode (ClaimPayout k r w ps i) =
     key_bytes k @ key_bytes r @ le_bytes 8 w @ le_bytes 4 i @ concat (map key_bytes ps)"
| "sample_bincode (OpenPaymentChannel u n a e) = key_bytes u @ key_bytes n @ le_bytes 8 a @ le_bytes 8 e"
| "sample_bincode (SettlePaymentChannel u n a m v) = key_bytes u @ key_bytes n @ le_bytes 8 a @ le_bytes 8 m @ v"
| "sample_bincode (ClosePaymentChannel u n) = key_bytes u @ key_bytes n"

lemma vec_bytes_inject: "vec_bytes g @ p = vec_bytes g' @ p' \<longleftrightarrow> g = g' \<and> p = p'"
proof -
  have "replicate m 1 @ (0 :: u8) # x = replicate n 1 @ 0 # y \<Longrightarrow> m = n \<and> x = y" for m n x y
  proof (induction m arbitrary: n)
    case 0
    then show ?case by (cases n) simp_all
  next
    case (Suc m)
    then show ?case by (cases n) simp_all
  qed
  from this [of "length g" "g @ p" "length g'" "g' @ p'"] show ?thesis by auto
qed

lemma concat_key_bytes_inject: "concat (map key_bytes ps) = concat (map key_bytes qs) \<longleftrightarrow> ps = qs"
proof
  assume "concat (map key_bytes ps) = concat (map key_bytes qs)"
  then show "ps = qs"
  proof (induction ps arbitrary: qs)
    case Nil
    then show ?case by (cases qs) (auto dest: arg_cong [where f = length])
  next
    case (Cons p ps)
    then show ?case
      by (cases qs) (auto simp: key.enc_append_inject dest: arg_cong [where f = length])
  qed
qed simp

lemma sample_bincode_inject: "payload_type p = payload_type q \<Longrightarrow> sample_bincode p = sample_bincode q \<Longrightarrow> p = q"
  by (cases p; cases q) (simp_all add: key.enc_append_inject le64.enc_append_inject le32.enc_append_inject
      key.enc_inject le64.enc_inject vec_bytes_inject concat_key_bytes_inject del: vec_bytes.simps)

text \<open>
  instruction data is unambiguous: if \<open>bincode\<close> is injective on the payloads of each single
  instruction, then two builder calls that produce the same bytes were for the same instruction with
  the same arguments; the first byte alone tells the instruction.
\<close>

theorem instruction_data_unambiguous:
  assumes "\<forall>p q. payload_type p = payload_type q \<longrightarrow> bincode p = bincode q \<longrightarrow> p = q"
    and "built bincode bs p" and "built bincode bs' q"
  shows "(bs = bs' \<longrightarrow> p = q) \<and> (hd bs = hd bs' \<longleftrightarrow> payload_type p = payload_type q)"
  using built_bytes [OF assms(2)] built_bytes [OF assms(3)] assms(1) discriminator_inject by auto

theorem instruction_data_unambiguous_witness:
  "fund_creator_pool sample_bincode 1 2 \<noteq> initialize_config sample_bincode 1"
proof -
  have "\<forall>p q. payload_type p = payload_type q \<longrightarrow> sample_bincode p = sample_bincode q \<longrightarrow> p = q"
    using sample_bincode_inject by blast
  from instruction_data_unambiguous [OF this built.intros(3) built.intros(1), of 1 2 1] show ?thesis by auto
qed

end
