(* ===== verification/Batch.thy ===== *)
theory Batch
  imports Collector Instruction
begin

text \<open>
  \<open>crates/aggregator/src/batch.rs\<close> and \<open>poster.rs\<close>: from the receipts of one pool to a proof and to the
  instruction data of the transactions. The submitters only hand these to an RPC client, so a
  submission is the transaction it is given.
\<close>

section \<open>Batches\<close>

record pool_batch =
  batch_pool :: key32
  batch_weights :: "entry list"
  batch_receipt_count :: nat
  batch_total_weight :: u64
  batch_proof :: batch_proof

definition build_batch :: "bool \<Rightarrow> externals \<Rightarrow> key32 \<Rightarrow> storage_receipt list \<Rightarrow> pool_batch ar" where
  "build_batch oc x pool receipts =
     (if receipts = [] then Err EmptyPoolBatch
      else obind (distribution_loop oc (map contribution_of receipts) []) (\<lambda>weights.
           obind (sum_weights oc (map snd weights) 0) (\<lambda>total_weight.
           case prove_batch oc (x_sha256 x) (map contribution_of receipts) pool of
             Err e \<Rightarrow> Err (ProverFailed e)
           | Panic \<Rightarrow> Panic
           | Ok proof' \<Rightarrow> Ok \<lparr>batch_pool = pool, batch_weights = weights, batch_receipt_count = length receipts,
                             batch_total_weight = total_weight, batch_proof = proof'\<rparr>)))"

section \<open>Transactions\<close>

record built_transaction =
  instruction_data :: bytes
  description :: string
  tx_pool :: key32
  tx_weights :: "entry list"

definition posted_root :: "pool_batch \<Rightarrow> key32" where
  "posted_root batch =
     (let pi = public_inputs (batch_proof batch) in if 32 \<le> length pi then of_key_bytes (take 32 pi) else 0)"

definition build_post_distribution :: "(payload \<Rightarrow> bytes) \<Rightarrow> externals \<Rightarrow> pool_batch \<Rightarrow> built_transaction" where
  "build_post_distribution bincode x batch =
     \<lparr>instruction_data = post_distribution bincode (batch_pool batch) (posted_root batch)
        (batch_total_weight batch) (proof_bytes (batch_proof batch)) (public_inputs (batch_proof batch)),
      description = ''post_distribution(pool='' @ x_hex x (key_bytes (batch_pool batch)) @ '', weight='' @
        dec_string (unat (batch_total_weight batch)) @ '', operators='' @
        dec_string (length (batch_weights batch)) @ '')'',
      tx_pool = batch_pool batch, tx_weights = batch_weights batch\<rparr>"

definition claim_transaction ::
  "(payload \<Rightarrow> bytes) \<Rightarrow> externals \<Rightarrow> key32 \<Rightarrow> key32 \<Rightarrow> u64 \<Rightarrow> key32 list \<Rightarrow> u32 \<Rightarrow> built_transaction" where
  "claim_transaction bincode x pool operator weight merkle_proof leaf_index =
     \<lparr>instruction_data = claim_payout bincode pool operator weight merkle_proof leaf_index,
      description = ''claim(pool='' @ x_hex x (key_bytes pool) @ '', operator='' @
        x_hex x (key_bytes operator) @ '', weight='' @ dec_string (unat weight) @ '')'',
      tx_pool = pool, tx_weights = []\<rparr>"

definition build_claims :: "(payload \<Rightarrow> bytes) \<Rightarrow> externals \<Rightarrow> pool_batch \<Rightarrow> built_transaction list" where
  "build_claims bincode x batch =
     map (\<lambda>(i, (operator, weight)). claim_transaction bincode x (batch_pool batch) operator weight [] (of_nat i))
       (enumerate 0 (batch_weights batch))"

section \<open>What a batch commits to\<close>

definition proofs_of :: "storage_receipt list \<Rightarrow> key32 \<Rightarrow> nat" where
  "proofs_of rs node = length (filter (\<lambda>r. storage_node r = node) rs)"

lemma operator_total_receipts: "operator_total (map contribution_of rs) op = proofs_of rs op"
  by (induction rs) (simp_all add: operator_total_def proofs_of_def contribution_of_def)

lemma valid_receipt_contribution:
  "valid_receipt (contribution_of r) \<longleftrightarrow> timestamp r \<noteq> 0 \<and> storage_node r \<noteq> 0"
  by (auto simp: valid_receipt_def contribution_of_def)

lemma sum_contributions: "sum_list (map (\<lambda>r. unat (c_weight r)) (map contribution_of rs)) = length rs"
  by (induction rs) (simp_all add: contribution_of_def)

lemma proofs_of_le: "proofs_of rs node \<le> length rs"
  by (simp add: proofs_of_def)

lemma build_batch_Ok:
  assumes rs: "rs \<noteq> []" "list_all (\<lambda>r. timestamp r \<noteq> 0 \<and> storage_node r \<noteq> 0) rs" "length rs < 2 ^ 64"
  shows "\<exists>batch out. build_batch oc x pool rs = Ok batch \<and> batch_pool batch = pool \<and>
    batch_receipt_count batch = length rs \<and> unat (batch_total_weight batch) = length rs \<and>
    aggregate_receipts True (map contribution_of rs) = Ok (batch_weights batch) \<and>
    verify_batch (batch_proof batch) = Ok out \<and> out_pool_id out = pool \<and>
    out_total_weight out = batch_total_weight batch \<and> posted_root batch = out_root out \<and>
    out_root out = tree_root (x_sha256 x) (tree_depth (length (batch_weights batch)))
      (padded (map (merkle_leaf (x_sha256 x)) (batch_weights batch)))"
proof -
  let ?cs = "map contribution_of rs"
  have valid: "list_all valid_receipt ?cs"
    using rs(2) by (simp add: list_all_iff valid_receipt_contribution)
  have tot: "operator_total ?cs op < 2 ^ 64" for op
    using proofs_of_le [of rs op] rs(3) unfolding operator_total_receipts by linarith
  from distribution_loop_spec [OF btree.valid_empty, of True ?cs, where 'e = prover_error] tot
  obtain es where "distribution_loop True ?cs [] = (Ok es :: entry list pr)" by auto
  then have agg: "aggregate_receipts True ?cs = Ok es"
    using rs(1) valid by (simp add: aggregate_receipts_def aggregate_loop_valid)
  then have agg_oc: "aggregate_receipts oc ?cs = Ok es" by (simp add: aggregate_receipts_iff)
  from distribution_loop_spec [OF btree.valid_empty, of oc ?cs, where 'e = aggregator_error] tot
  obtain es' where es': "distribution_loop oc ?cs [] = (Ok es' :: entry list ar)" "al_valid es'"
    "map_of es' = (\<lambda>op. if op \<in> c_operator ` set ?cs then Some (operator_weight ?cs op) else None)"
    by (auto cong: if_cong)
  have "es' = es"
    using es'(2,3) agg sorted_entries_eqI [of es' es] by (simp add: aggregate_receipts_iff)
  note loop = es'(1) [unfolded this]
  have al: "al_valid es" using agg by (simp add: aggregate_receipts_iff)
  note sums = aggregate_totals [OF agg]
  have "sum_list (map unat (map snd es)) = length rs"
    using sums(1) sum_contributions [of rs] by (simp add: comp_def case_prod_unfold)
  then have fits: "unat (0 :: u64) + sum_list (map unat (map snd es)) = length rs" by simp
  let ?t = "sum_list (map snd es)"
  have "unat (0 :: u64) + sum_list (map unat (map snd es)) < 2 ^ 64" using fits rs(3) by (simp only:)
  note t = sum_weights_checked [OF this, where 'a = prover_error] sum_weights_checked [OF this, where 'a = aggregator_error]
  have total: "unat ?t = length rs" using t(1) fits by simp
  have "es \<noteq> []"
    using sums(2) rs(1) by auto
  have sorted: "sorted (map fst es)" using al by (simp add: strict_sorted_iff)
  have leaves: "map (merkle_leaf (x_sha256 x)) es \<noteq> []" using \<open>es \<noteq> []\<close> by simp
  let ?out = "\<lparr>out_root = tree_root (x_sha256 x) (tree_depth (length es)) (padded (map (merkle_leaf (x_sha256 x)) es)),
    out_total_weight = ?t, out_entry_count = of_nat (length es), out_pool_id = pool\<rparr>"
  have "execute_guest_logic oc (x_sha256 x) \<lparr>in_entries = es, in_pool_id = pool\<rparr> = (Ok ?out :: distribution_output pr)"
    using t(1) [of oc] by (simp add: execute_guest_logic_def sort_key_id_if_sorted [OF sorted] compute_merkle_root_eq [OF leaves] Let_def)
  then have prove: "prove_batch oc (x_sha256 x) ?cs pool =
      Ok \<lparr>proof_bytes = MOCK_PROOF_MAGIC @ output_to_bytes ?out, public_inputs = output_to_bytes ?out\<rparr>"
    using agg_oc by (simp add: prove_batch_def Let_def)
  let ?b = "\<lparr>batch_pool = pool, batch_weights = es, batch_receipt_count = length rs, batch_total_weight = ?t,
    batch_proof = \<lparr>proof_bytes = MOCK_PROOF_MAGIC @ output_to_bytes ?out, public_inputs = output_to_bytes ?out\<rparr>\<rparr>"
  have "build_batch oc x pool rs = Ok ?b"
    using rs(1) loop t(2) [of oc] prove by (simp add: build_batch_def)
  moreover have "posted_root ?b = out_root ?out"
    by (simp add: posted_root_def output_to_bytes_def key.dec_enc)
  ultimately show ?thesis
    using agg total verify_batch_output [of ?out] by (intro exI [of _ ?b] exI [of _ ?out]) simp
qed

text \<open>A receipt stamped 0 spoils the batch: the prover refuses it, in every build.\<close>

lemma build_batch_zero_stamp:
  assumes "r \<in> set rs" and "timestamp r = 0"
  shows "build_batch oc x pool rs \<noteq> Ok batch"
proof -
  have "\<not> list_all valid_receipt (map contribution_of rs)"
    using assms by (auto simp: list_all_iff valid_receipt_contribution)
  then have "prove_batch oc (x_sha256 x) (map contribution_of rs) pool \<noteq> Ok p" for p
    by (auto simp: aggregate_receipts_iff elim!: prove_batch_Ok)
  then show ?thesis by (auto simp: build_batch_def split: outcome.splits)
qed

text \<open>The weight of a node in a batch is the number of its receipts.\<close>

lemma aggregate_proofs:
  assumes "aggregate_receipts True (map contribution_of rs) = Ok es"
  shows "map_of es node = (if 0 < proofs_of rs node then Some (of_nat (proofs_of rs node)) else None)"
proof -
  note agg = assms [unfolded aggregate_receipts_iff]
  have "node \<in> c_operator ` set (map contribution_of rs) \<longleftrightarrow> 0 < proofs_of rs node"
    by (auto simp: proofs_of_def contribution_of_def filter_empty_conv image_image)
  moreover have "operator_weight (map contribution_of rs) node = of_nat (proofs_of rs node)"
  proof -
    have "unat (operator_weight (map contribution_of rs) node) = proofs_of rs node"
      using agg by (simp add: unat_operator_weight operator_total_receipts)
    from this [symmetric] show ?thesis by (simp only: of_nat_unat ucast_id)
  qed
  ultimately show ?thesis using agg by simp
qed

section \<open>Properties\<close>

text \<open>
  a batch over validated receipts always builds; the weight it assigns to a node is the number of
  that node's receipts, its total is the number of receipts, its proof verifies and commits to the same
  pool, total and entries, and the root that is posted is the committed one.
\<close>

theorem batch_counts_receipts:
  assumes "rs \<noteq> []" and "list_all (\<lambda>r. timestamp r \<noteq> 0 \<and> storage_node r \<noteq> 0) rs" and "length rs < 2 ^ 64"
  shows "\<exists>batch out. build_batch True x pool rs = Ok batch \<and> unat (batch_total_weight batch) = length rs \<and>
    (\<forall>node. map_of (batch_weights batch) node =
      (if 0 < proofs_of rs node then Some (of_nat (proofs_of rs node)) else None)) \<and>
    verify_batch (batch_proof batch) = Ok out \<and> out_pool_id out = pool \<and>
    out_total_weight out = batch_total_weight batch \<and>
    out_root out = tree_root (x_sha256 x) (tree_depth (length (batch_weights batch)))
      (padded (map (merkle_leaf (x_sha256 x)) (batch_weights batch))) \<and>
    instruction_data (build_post_distribution bincode x batch) = post_distribution bincode pool (out_root out)
      (out_total_weight out) (proof_bytes (batch_proof batch)) (output_to_bytes out)"
proof -
  obtain batch out where b: "build_batch True x pool rs = Ok batch" "batch_pool batch = pool"
    "unat (batch_total_weight batch) = length rs"
    "aggregate_receipts True (map contribution_of rs) = Ok (batch_weights batch)"
    and o: "verify_batch (batch_proof batch) = Ok out" "out_pool_id out = pool"
    "out_total_weight out = batch_total_weight batch" "posted_root batch = out_root out"
    "out_root out = tree_root (x_sha256 x) (tree_depth (length (batch_weights batch)))
      (padded (map (merkle_leaf (x_sha256 x)) (batch_weights batch)))"
    using build_batch_Ok [OF assms] by blast
  have "public_inputs (batch_proof batch) = output_to_bytes out"
    using o(1) by (auto simp: verify_batch_def committed.enc_dec split: if_splits)
  with b o aggregate_proofs [OF b(4)] show ?thesis
    by (intro exI [of _ batch] exI [of _ out]) (simp add: build_post_distribution_def)
qed

theorem batch_counts_receipts_witness:
  "\<exists>batch. build_batch True sample_externals 4 [sample_receipt 1500, sample_receipt 1600] = Ok batch \<and>
    unat (batch_total_weight batch) = 2"
proof -
  have "list_all (\<lambda>r. timestamp r \<noteq> 0 \<and> storage_node r \<noteq> 0) [sample_receipt 1500, sample_receipt 1600]"
    by (simp add: sample_receipt_def)
  from batch_counts_receipts [OF _ this, of sample_externals 4 "\<lambda>_. []"] show ?thesis by auto
qed

text \<open>
  the claims of a batch are one per operator, in the order of the leaves of the distribution tree,
  each for that operator's weight and with its leaf index, and with an empty Merkle proof.
\<close>

theorem claims_follow_leaves:
  "length (build_claims bincode x batch) = length (batch_weights batch) \<and>
   list_all2 (\<lambda>i claim. case batch_weights batch ! i of (operator, weight) \<Rightarrow>
     instruction_data claim = claim_payout bincode (batch_pool batch) operator weight [] (of_nat i) \<and>
     tx_pool claim = batch_pool batch)
   [0..<length (batch_weights batch)] (build_claims bincode x batch)"
  by (auto simp: build_claims_def claim_transaction_def list_all2_conv_all_nth nth_enumerate_eq split: prod.splits)

end
