(* ===== verification/Service.thy ===== *)
theory Service
  imports Batch
begin

text \<open>
  \<open>crates/aggregator/src/service.rs\<close>: the epoch loop. \<open>process_epoch_end\<close> builds one transaction per pool
  and moves the collector to the next epoch; \<open>epoch_round\<close> is one round of \<open>run_with_channel\<close>, with the
  messages each poll finds in the channel and the submitter's answers as inputs. The order in which a
  \<open>HashMap\<close> lists its keys is the parameter \<open>order\<close>.
\<close>

section \<open>The code\<close>

definition mul64 :: "bool \<Rightarrow> u64 \<Rightarrow> u64 \<Rightarrow> ('e, u64) outcome" where
  "mul64 oc a b = (if oc \<and> 2 ^ 64 \<le> unat a * unat b then Panic else Ok (a * b))"

record aggregator_config =
  epoch_duration_secs :: u64
  grace_period_secs :: u64
  program_id :: key32
  max_batch_size :: nat
  data_dir :: "string option"
  solana_rpc_url :: "string option"
  submit_claims :: bool

definition default_aggregator_config :: aggregator_config where
  "default_aggregator_config =
     \<lparr>epoch_duration_secs = 3600, grace_period_secs = 300, program_id = 0, max_batch_size = 1000,
      data_dir = None, solana_rpc_url = None, submit_claims = False\<rparr>"

record service =
  svc_config :: aggregator_config
  svc_collector :: collector
  current_epoch :: u64

definition align_to_epoch :: "bool \<Rightarrow> u64 \<Rightarrow> u64 \<Rightarrow> ('e, u64) outcome" where
  "align_to_epoch oc ts epoch_duration =
     (if epoch_duration = 0 then Panic else mul64 oc (ts div epoch_duration) epoch_duration)"

definition epoch_dir :: "string \<Rightarrow> u64 \<Rightarrow> string" where
  "epoch_dir dir epoch = path_join dir (''epoch_'' @ dec_string (unat epoch))"

definition service_new_with_epoch :: "aggregator_config \<Rightarrow> u64 \<Rightarrow> u64 \<Rightarrow> ('e, service) outcome" where
  "service_new_with_epoch config start end' =
     (if epoch_duration_secs config = 0 then Panic
      else Ok \<lparr>svc_config = config, svc_collector = collector_new start end' (grace_period_secs config),
               current_epoch = start div epoch_duration_secs config\<rparr>)"

definition service_new :: "bool \<Rightarrow> aggregator_config \<Rightarrow> u64 \<Rightarrow> ('e, service) outcome" where
  "service_new oc config now =
     obind (align_to_epoch oc now (epoch_duration_secs config)) (\<lambda>start.
     obind (add64 oc start (epoch_duration_secs config)) (\<lambda>end'.
       let coll = collector_new start end' (grace_period_secs config);
           epoch = start div epoch_duration_secs config;
           coll = (case data_dir config of None \<Rightarrow> coll
                   | Some dir \<Rightarrow> set_persist_dir (epoch_dir dir epoch) coll)
       in Ok \<lparr>svc_config = config, svc_collector = coll, current_epoch = epoch\<rparr>))"

definition advance_epoch :: "bool \<Rightarrow> service \<Rightarrow> ('e, service) outcome" where
  "advance_epoch oc self =
     obind (add64 oc (current_epoch self) 1) (\<lambda>epoch.
     obind (mul64 oc epoch (epoch_duration_secs (svc_config self))) (\<lambda>start.
     obind (add64 oc start (epoch_duration_secs (svc_config self))) (\<lambda>end'.
       let coll = reset start end' (svc_collector self);
           coll = (case data_dir (svc_config self) of None \<Rightarrow> coll
                   | Some dir \<Rightarrow> set_persist_dir (epoch_dir dir epoch) coll)
       in Ok (self\<lparr>svc_collector := coll, current_epoch := epoch\<rparr>))))"

text \<open>The results are values of type \<open>Result\<close>: a failed batch is an entry of the list, a panic is not.\<close>

fun process_pools ::
  "bool \<Rightarrow> (payload \<Rightarrow> bytes) \<Rightarrow> externals \<Rightarrow> key32 list \<Rightarrow> collector \<Rightarrow>
    ('e, (aggregator_error + built_transaction) list \<times> collector) outcome" where
  "process_pools oc bincode x [] coll = Ok ([], coll)"
| "process_pools oc bincode x (pool # ps) coll =
     (case take_receipts pool coll of (receipts, coll) \<Rightarrow>
       if receipts = [] then process_pools oc bincode x ps coll
       else case build_batch oc x pool receipts of
         Panic \<Rightarrow> Panic
       | Ok batch \<Rightarrow> omap (\<lambda>(results, coll). (Inr (build_post_distribution bincode x batch) # results, coll))
           (process_pools oc bincode x ps coll)
       | Err e \<Rightarrow> omap (\<lambda>(results, coll). (Inl e # results, coll)) (process_pools oc bincode x ps coll))"

definition process_epoch_end ::
  "bool \<Rightarrow> (payload \<Rightarrow> bytes) \<Rightarrow> externals \<Rightarrow> (key32 list \<Rightarrow> key32 list) \<Rightarrow> service \<Rightarrow>
    ('e, (aggregator_error + built_transaction) list \<times> service) outcome" where
  "process_epoch_end oc bincode x order self =
     (let ps = order (pools (svc_collector self)) in
      if ps = [] then omap (\<lambda>self. ([], self)) (advance_epoch oc self)
      else obind (process_pools oc bincode x ps (svc_collector self)) (\<lambda>(results, coll).
             omap (\<lambda>self. (results, self)) (advance_epoch oc (self\<lparr>svc_collector := coll\<rparr>))))"

text \<open>What is handed to the submitter: a distribution, and after its success the claims, one per operator.\<close>

datatype submission =
    Submit built_transaction
  | SubmitClaim key32 key32 u64 "key32 list" u32

definition submissions :: "(built_transaction \<Rightarrow> bool) \<Rightarrow> bool \<Rightarrow> aggregator_error + built_transaction \<Rightarrow> submission list" where
  "submissions submit_ok claims result = (case result of
      Inl e \<Rightarrow> []
    | Inr tx \<Rightarrow> Submit tx #
        (if submit_ok tx \<and> claims
         then map (\<lambda>(operator, weight). SubmitClaim (tx_pool tx) operator weight [] 0) (tx_weights tx) else []))"

fun drain_polls ::
  "bool \<Rightarrow> externals \<Rightarrow> (storage_receipt \<Rightarrow> append_result) \<Rightarrow> bytes list list \<Rightarrow> collector \<times> disk \<Rightarrow> ('e, collector \<times> disk) outcome" where
  "drain_polls oc x written [] st = Ok st"
| "drain_polls oc x written (msgs # polls) st =
     (case drain_channel oc x written msgs st of (Panic, st') \<Rightarrow> Panic
      | (_, st') \<Rightarrow> drain_polls oc x written polls st')"

text \<open>
  \<open>poll i\<close> are the messages waiting at the \<open>i\<close>-th poll: one poll per started ten seconds of waiting,
  none if the epoch has already ended, and one after the grace period.
\<close>

definition poll_count :: "u64 \<Rightarrow> u64 \<Rightarrow> nat" where
  "poll_count now ending = (if now < ending then div_ceil (unat (ending - now)) 10 else 0) + 1"

definition epoch_round ::
  "bool \<Rightarrow> (payload \<Rightarrow> bytes) \<Rightarrow> externals \<Rightarrow> (key32 list \<Rightarrow> key32 list) \<Rightarrow> (storage_receipt \<Rightarrow> append_result) \<Rightarrow> u64 \<Rightarrow> (nat \<Rightarrow> bytes list) \<Rightarrow>
    (built_transaction \<Rightarrow> bool) \<Rightarrow> service \<times> disk \<Rightarrow> ('e, submission list \<times> service \<times> disk) outcome" where
  "epoch_round oc bincode x order written now poll submit_ok st = (case st of (self, fs) \<Rightarrow>
     obind (add64 oc (current_epoch self) 1) (\<lambda>next.
     obind (mul64 oc next (epoch_duration_secs (svc_config self))) (\<lambda>ending.
     obind (drain_polls oc x written (map poll [0..<poll_count now ending]) (svc_collector self, fs)) (\<lambda>(coll, fs).
     obind (process_epoch_end oc bincode x order (self\<lparr>svc_collector := coll\<rparr>)) (\<lambda>(results, self).
       Ok (concat (map (submissions submit_ok (submit_claims (svc_config self))) results), self, fs))))))"

section \<open>Processing the pools\<close>

lemma take_receipts_other: "q \<noteq> p \<Longrightarrow> map_of (pool_receipts (snd (take_receipts p coll))) q = map_of (pool_receipts coll) q"
proof -
  assume "q \<noteq> p"
  then have "map_of (filter (\<lambda>(r, _). r \<noteq> p) xs) q = map_of xs q" for xs :: "(key32 \<times> storage_receipt list) list"
    by (induction xs) auto
  then show ?thesis by (simp add: take_receipts_def)
qed

definition good_queue :: "storage_receipt list \<Rightarrow> bool" where
  "good_queue rs \<longleftrightarrow> rs \<noteq> [] \<and> list_all (\<lambda>r. timestamp r \<noteq> 0 \<and> storage_node r \<noteq> 0) rs \<and> length rs < 2 ^ 64"

text \<open>A transaction that posts the receipts of its pool.\<close>

definition posts :: "bool \<Rightarrow> (payload \<Rightarrow> bytes) \<Rightarrow> externals \<Rightarrow> key32 \<Rightarrow> storage_receipt list \<Rightarrow> built_transaction \<Rightarrow> bool" where
  "posts oc bincode x pool rs tx \<longleftrightarrow> tx_pool tx = pool \<and>
     aggregate_receipts True (map contribution_of rs) = Ok (tx_weights tx) \<and>
     (\<exists>batch. build_batch oc x pool rs = Ok batch \<and> tx = build_post_distribution bincode x batch)"

lemma process_pools_posts:
  assumes "distinct ps" and "\<forall>p \<in> set ps. \<exists>rs. map_of (pool_receipts coll) p = Some rs \<and> good_queue rs"
  shows "\<exists>txs coll'. process_pools oc bincode x ps coll = (Ok (map Inr txs, coll') :: ('e, _) outcome) \<and>
    list_all2 (\<lambda>p tx. posts oc bincode x p (the (map_of (pool_receipts coll) p)) tx) ps txs"
  using assms
proof (induction ps arbitrary: coll)
  case (Cons p ps)
  obtain rs where rs: "map_of (pool_receipts coll) p = Some rs" "good_queue rs"
    using Cons.prems by auto
  obtain coll1 where t: "take_receipts p coll = (rs, coll1)"
    using rs(1) by (simp add: take_receipts_def)
  have same: "map_of (pool_receipts coll1) q = map_of (pool_receipts coll) q" if "q \<noteq> p" for q
    using take_receipts_other [OF that, of coll] t by simp
  obtain batch where b: "build_batch oc x p rs = Ok batch" "batch_pool batch = p"
    "aggregate_receipts True (map contribution_of rs) = Ok (batch_weights batch)"
    using build_batch_Ok [of rs oc x p] rs(2) by (auto simp: good_queue_def)
  have "\<forall>q \<in> set ps. \<exists>rs. map_of (pool_receipts coll1) q = Some rs \<and> good_queue rs"
    using Cons.prems same by (metis distinct.simps(2) list.set_intros(2))
  from Cons.IH [OF _ this] Cons.prems(1) obtain txs coll' where
    ih: "process_pools oc bincode x ps coll1 = (Ok (map Inr txs, coll') :: ('e, _) outcome)"
    "list_all2 (\<lambda>p tx. posts oc bincode x p (the (map_of (pool_receipts coll1) p)) tx) ps txs" by auto
  have "posts oc bincode x p rs (build_post_distribution bincode x batch)"
    using b by (auto simp: posts_def build_post_distribution_def)
  moreover have "list_all2 (\<lambda>p tx. posts oc bincode x p (the (map_of (pool_receipts coll) p)) tx) ps txs"
  proof (rule list_all2_all_nthI)
    show "length ps = length txs" using ih(2) by (rule list_all2_lengthD)
    fix i assume i: "i < length ps"
    then have "ps ! i \<noteq> p" using Cons.prems(1) nth_mem by fastforce
    with list_all2_nthD [OF ih(2) i] same
    show "posts oc bincode x (ps ! i) (the (map_of (pool_receipts coll) (ps ! i))) (txs ! i)" by simp
  qed
  ultimately show ?case
    using t b ih(1) rs(1,2) by (intro exI [of _ "build_post_distribution bincode x batch # txs"] exI [of _ coll'])
      (simp add: good_queue_def)
qed simp

text \<open>
  Whatever the outcome of the batches: the results are one per pool with a queue, in the order of the
  pools, each the transaction of that queue's batch or the error that building it ended with.
\<close>

definition pool_result ::
  "bool \<Rightarrow> (payload \<Rightarrow> bytes) \<Rightarrow> externals \<Rightarrow> key32 \<Rightarrow> storage_receipt list \<Rightarrow>
    aggregator_error + built_transaction \<Rightarrow> bool" where
  "pool_result oc bincode x pool rs result \<longleftrightarrow> (case build_batch oc x pool rs of
     Ok batch \<Rightarrow> result = Inr (build_post_distribution bincode x batch)
   | Err e \<Rightarrow> result = Inl e
   | Panic \<Rightarrow> False)"

lemma process_pools_exact:
  assumes "distinct ps" and "\<forall>p \<in> set ps. \<exists>rs. map_of (pool_receipts coll) p = Some rs \<and> rs \<noteq> []"
    and "process_pools oc bincode x ps coll = (Ok (results, coll') :: ('e, _) outcome)"
  shows "list_all2 (\<lambda>p. pool_result oc bincode x p (the (map_of (pool_receipts coll) p))) ps results"
  using assms
proof (induction ps arbitrary: coll results)
  case (Cons p ps)
  obtain rs where rs: "map_of (pool_receipts coll) p = Some rs" "rs \<noteq> []"
    using Cons.prems(2) by auto
  obtain coll1 where t: "take_receipts p coll = (rs, coll1)"
    using rs(1) by (simp add: take_receipts_def)
  have same: "map_of (pool_receipts coll1) q = map_of (pool_receipts coll) q" if "q \<in> set ps" for q
    using take_receipts_other [of q p coll] t that Cons.prems(1) by auto
  obtain result tail where tail: "process_pools oc bincode x ps coll1 = (Ok (tail, coll') :: ('e, _) outcome)"
    and res: "results = result # tail" "pool_result oc bincode x p rs result"
    using Cons.prems(3) t rs(2) by (auto simp: pool_result_def split: outcome.splits)
  have "\<forall>q \<in> set ps. \<exists>rs. map_of (pool_receipts coll1) q = Some rs \<and> rs \<noteq> []"
    using Cons.prems(2) same by simp
  from Cons.IH [OF _ this tail] Cons.prems(1) have
    "list_all2 (\<lambda>p. pool_result oc bincode x p (the (map_of (pool_receipts coll1) p))) ps tail" by simp
  then have "list_all2 (\<lambda>p. pool_result oc bincode x p (the (map_of (pool_receipts coll) p))) ps tail"
    by (rule list.rel_mono_strong) (simp add: same)
  then show ?case using res rs(1) by simp
qed simp

lemma process_pools_fields:
  "process_pools oc bincode x ps coll = (Ok (results, coll') :: ('e, _) outcome) \<Longrightarrow>
    cid_to_pool coll' = cid_to_pool coll \<and> grace_secs coll' = grace_secs coll"
proof (induction ps arbitrary: coll results)
  case (Cons p ps)
  have "cid_to_pool (snd (take_receipts p coll)) = cid_to_pool coll" "grace_secs (snd (take_receipts p coll)) = grace_secs coll"
    by (simp_all add: take_receipts_def)
  moreover obtain results' where "process_pools oc bincode x ps (snd (take_receipts p coll)) = (Ok (results', coll') :: ('e, _) outcome)"
    using Cons.prems by (auto split: prod.splits if_splits outcome.splits)
  ultimately show ?case using Cons.IH by metis
qed simp

lemma advance_epoch_Ok:
  assumes "(unat (current_epoch self) + 2) * unat (epoch_duration_secs (svc_config self)) < 2 ^ 64"
    and "epoch_duration_secs (svc_config self) \<noteq> 0"
  shows "\<exists>self'. advance_epoch oc self = (Ok self' :: ('e, service) outcome) \<and> svc_config self' = svc_config self \<and>
    unat (current_epoch self') = unat (current_epoch self) + 1 \<and>
    pool_receipts (svc_collector self') = [] \<and> seen (svc_collector self') = {} \<and>
    grace_secs (svc_collector self') = grace_secs (svc_collector self) \<and>
    cid_to_pool (svc_collector self') = cid_to_pool (svc_collector self) \<and>
    unat (window_start (svc_collector self')) = (unat (current_epoch self) + 1) * unat (epoch_duration_secs (svc_config self)) \<and>
    unat (window_end (svc_collector self')) = (unat (current_epoch self) + 2) * unat (epoch_duration_secs (svc_config self))"
proof -
  let ?e = "current_epoch self" and ?d = "epoch_duration_secs (svc_config self)"
  have d: "0 < unat ?d" using assms(2) by (simp add: unat_gt_0)
  then have "(unat ?e + 2) * 1 \<le> (unat ?e + 2) * unat ?d" by (intro mult_le_mono2) simp
  with assms(1) have e: "unat ?e + 1 < 2 ^ 64" by simp
  then have e1: "unat (?e + 1) = unat ?e + 1" using unat_add64 [of ?e 1] by simp
  have split: "(unat ?e + 2) * unat ?d = (unat ?e + 1) * unat ?d + unat ?d" by simp
  have m: "unat (?e + 1) * unat ?d < 2 ^ 64" using assms(1) split e1 by simp
  then have start: "unat ((?e + 1) * ?d) = (unat ?e + 1) * unat ?d" using unat_mul64 [OF m] e1 by simp
  have end': "unat ((?e + 1) * ?d) + unat ?d < 2 ^ 64" using assms(1) split start by simp
  then have "unat ((?e + 1) * ?d + ?d) = (unat ?e + 2) * unat ?d" using unat_add64 [OF end'] start split by simp
  with e m start end' e1 show ?thesis
    by (auto simp: advance_epoch_def add64_def mul64_def reset_def set_persist_dir_def Let_def split: option.split)
qed

lemma posts_total: "posts oc bincode x p rs tx \<Longrightarrow> sum_list (map (\<lambda>(op, w). unat w) (tx_weights tx)) = length rs"
  using aggregate_totals(1) sum_contributions by (fastforce simp: posts_def)

lemma sum_posts:
  "list_all2 (\<lambda>p tx. posts oc bincode x p (f p) tx) ps txs \<Longrightarrow>
    sum_list (map (\<lambda>tx. sum_list (map (\<lambda>(op, w). unat w) (tx_weights tx))) txs) = sum_list (map (\<lambda>p. length (f p)) ps)"
  by (induction ps txs rule: list_all2_induct) (simp_all add: posts_total)

lemma queued_counts:
  assumes "distinct (map fst prs)" and "mset ps = mset (map fst prs)"
  shows "sum_list (map (\<lambda>p. length (the (map_of prs p))) ps) = sum_list (map (\<lambda>(p, rs). length rs) prs)"
proof -
  have "sum_list (map (\<lambda>p. length (the (map_of prs p))) ps) = sum_list (map (\<lambda>p. length (the (map_of prs p))) (map fst prs))"
    using arg_cong [OF assms(2), of "\<lambda>M. sum_mset (image_mset (\<lambda>p. length (the (map_of prs p))) M)"]
    unfolding mset_map [symmetric] sum_mset_sum_list .
  also have "\<dots> = sum_list (map (\<lambda>(p, rs). length rs) prs)"
    using assms(1) unfolding map_map by (intro arg_cong [where f = sum_list] map_cong) auto
  finally show ?thesis .
qed

text \<open>The map lists every pool with a queue once, and no queue is empty.\<close>

lemma pools_listed:
  assumes "collector_inv x coll" and "mset (order (pools coll)) = mset (pools coll)"
  shows "set (order (pools coll)) = fst ` set (pool_receipts coll)" and "distinct (order (pools coll))"
    and "\<forall>p \<in> set (order (pools coll)). \<exists>rs. map_of (pool_receipts coll) p = Some rs \<and> rs \<noteq> []"
proof -
  show keys: "set (order (pools coll)) = fst ` set (pool_receipts coll)" and "distinct (order (pools coll))"
    using assms by (metis list.set_map pools_def set_mset_mset, metis collector_inv_def distinct_mset_eq)
  show "\<forall>p \<in> set (order (pools coll)). \<exists>rs. map_of (pool_receipts coll) p = Some rs \<and> rs \<noteq> []"
  proof
    fix p assume "p \<in> set (order (pools coll))"
    then obtain rs where rs: "(p, rs) \<in> set (pool_receipts coll)" unfolding keys by auto
    then have "map_of (pool_receipts coll) p = Some rs" "rs \<noteq> []"
      using assms(1) by (auto simp: collector_inv_def pools_def)
    then show "\<exists>rs. map_of (pool_receipts coll) p = Some rs \<and> rs \<noteq> []" by blast
  qed
qed

text \<open>The results of an epoch, one per pool.\<close>

lemma epoch_end_results:
  assumes reach: "collector_reachable x loads (collector_new s e g) (svc_collector self)"
    and order: "mset (order (pools (svc_collector self))) = mset (pools (svc_collector self))"
    and run: "process_epoch_end oc bincode x order self = (Ok (results, self') :: ('e, _) outcome)"
  shows "list_all2 (\<lambda>p. pool_result oc bincode x p (the (map_of (pool_receipts (svc_collector self)) p)))
    (order (pools (svc_collector self))) results"
proof (cases "order (pools (svc_collector self)) = []")
  case True
  with run show ?thesis by (simp add: process_epoch_end_def)
next
  case False
  with run obtain coll where "process_pools oc bincode x (order (pools (svc_collector self))) (svc_collector self) =
      (Ok (results, coll) :: ('e, _) outcome)"
    by (auto simp: process_epoch_end_def)
  note pools = pools_listed [where order = order, OF collector_reachable_facts(1) [OF reach] order]
  from \<open>process_pools _ _ _ _ _ = _\<close> show ?thesis
    by (rule process_pools_exact [OF pools(2,3)])
qed

lemma epoch_end_total:
  assumes reach: "collector_reachable x False (collector_new s e g) (svc_collector self)"
    and stamped: "list_all (\<lambda>r. timestamp r \<noteq> 0) (all_receipts (svc_collector self))"
    and "receipt_count (svc_collector self) < 2 ^ 64"
    and order: "mset (order (pools (svc_collector self))) = mset (pools (svc_collector self))"
    and adv: "(unat (current_epoch self) + 2) * unat (epoch_duration_secs (svc_config self)) < 2 ^ 64"
      "epoch_duration_secs (svc_config self) \<noteq> 0"
  shows "\<exists>txs self'. process_epoch_end oc bincode x order self = (Ok (map Inr txs, self') :: ('e, _) outcome) \<and>
    list_all2 (\<lambda>p tx. posts oc bincode x p (the (map_of (pool_receipts (svc_collector self)) p)) tx)
      (order (pools (svc_collector self))) txs \<and>
    sum_list (map (\<lambda>tx. sum_list (map (\<lambda>(op, w). unat w) (tx_weights tx))) txs) = receipt_count (svc_collector self) \<and>
    receipt_count (svc_collector self') = 0 \<and> seen (svc_collector self') = {} \<and>
    unat (current_epoch self') = unat (current_epoch self) + 1 \<and>
    unat (window_start (svc_collector self')) = (unat (current_epoch self) + 1) * unat (epoch_duration_secs (svc_config self)) \<and>
    unat (window_end (svc_collector self')) = (unat (current_epoch self) + 2) * unat (epoch_duration_secs (svc_config self))"
proof -
  let ?c = "svc_collector self" let ?ps = "order (pools ?c)"
  have inv: "collector_inv x ?c" and valid: "\<forall>r \<in> set (all_receipts ?c). receipt_valid x ?c r"
    using collector_reachable_facts [OF reach] by simp_all
  have len: "receipt_count ?c = length (all_receipts ?c)"
    by (simp add: receipt_count_def all_receipts_def length_concat case_prod_unfold comp_def)
  note keys = pools_listed(1) [where order = order, OF inv order]
  note dist = pools_listed(2) [where order = order, OF inv order]
  have "\<exists>rs. map_of (pool_receipts ?c) p = Some rs \<and> good_queue rs" if "p \<in> set ?ps" for p
  proof -
    from that keys obtain rs where "(p, rs) \<in> set (pool_receipts ?c)" by auto
    moreover from this have "set rs \<subseteq> set (all_receipts ?c)" "rs \<noteq> []"
      using inv by (auto simp: all_receipts_def collector_inv_def)
    moreover have "length rs \<le> length (all_receipts ?c)"
    proof -
      have "length rs \<in> set (map (length \<circ> snd) (pool_receipts ?c))"
        using \<open>(p, rs) \<in> set (pool_receipts ?c)\<close> by force
      then have "length rs \<le> sum_list (map (length \<circ> snd) (pool_receipts ?c))" by (intro member_le_sum_list) simp_all
      then show ?thesis by (simp add: all_receipts_def length_concat)
    qed
    moreover have "timestamp r \<noteq> 0 \<and> storage_node r \<noteq> 0" if "r \<in> set rs" for r
    proof -
      have "receipt_valid x ?c r" "timestamp r \<noteq> 0"
        using that calculation(2) valid stamped by (auto simp: list_all_iff)
      then show ?thesis by (simp add: receipt_valid_def)
    qed
    ultimately show ?thesis
      using inv assms(3) len by (auto simp: good_queue_def collector_inv_def pools_def list_all_iff)
  qed
  then obtain txs coll where run: "process_pools oc bincode x ?ps ?c = (Ok (map Inr txs, coll) :: ('e, _) outcome)"
    and all: "list_all2 (\<lambda>p tx. posts oc bincode x p (the (map_of (pool_receipts ?c) p)) tx) ?ps txs"
    using process_pools_posts [OF dist, where coll = ?c and x = x and oc = oc and bincode = bincode and 'e = 'e] by blast
  have total: "sum_list (map (\<lambda>tx. sum_list (map (\<lambda>(op, w). unat w) (tx_weights tx))) txs) = receipt_count ?c"
    unfolding sum_posts [OF all] receipt_count_def
    using inv order by (intro queued_counts) (simp_all add: collector_inv_def pools_def)
  show ?thesis
  proof (cases "?ps = []")
    case True
    with all have "txs = []" by simp
    with True advance_epoch_Ok [OF adv, of oc, where 'e = 'e] all total show ?thesis
      by (auto simp: process_epoch_end_def receipt_count_def Let_def)
  next
    case False
    have "(unat (current_epoch (self\<lparr>svc_collector := coll\<rparr>)) + 2) *
        unat (epoch_duration_secs (svc_config (self\<lparr>svc_collector := coll\<rparr>))) < 2 ^ 64"
      "epoch_duration_secs (svc_config (self\<lparr>svc_collector := coll\<rparr>)) \<noteq> 0" using adv by simp_all
    from advance_epoch_Ok [OF this, of oc, where 'e = 'e] run False all total show ?thesis
      by (auto simp: process_epoch_end_def receipt_count_def Let_def)
  qed
qed

text \<open>A window that does not start at 0 admits no receipt stamped 0.\<close>

lemma window_stamped:
  assumes "collector_reachable x False (collector_new s e g) coll" and "window_start coll \<noteq> 0"
  shows "list_all (\<lambda>r. timestamp r \<noteq> 0) (all_receipts coll)"
proof -
  have "\<not> window_start coll \<le> 0" using assms(2) by (simp add: word_le_nat_alt unat_eq_0)
  with collector_reachable_facts(2) [OF assms(1)] show ?thesis
    by (auto simp: list_all_iff receipt_valid_def)
qed

definition sample_service :: service where
  "sample_service = \<lparr>svc_config = default_aggregator_config,
     svc_collector = fst (snd (ingest True sample_externals (\<lambda>r. Appended) (sample_receipt 7300)
       (register_pool 3 4 (collector_new 3600 7200 300), Map.empty))), current_epoch = 1\<rparr>"

lemma sample_accepts: "accepts True sample_externals (register_pool 3 4 (collector_new 3600 7200 300)) (sample_receipt 7300)"
  by (simp add: accepts_def receipt_valid_def register_pool_def collector_new_def sample_defs
      verify_receipt_signature_def word_le_nat_alt word_less_nat_alt)

lemma sample_collector:
  "svc_collector sample_service = (register_pool 3 4 (collector_new 3600 7200 300))
     \<lparr>seen := {0}, pool_receipts := [(4, [sample_receipt 7300])]\<rparr>"
  using sample_accepts ingest_cases(1) [of True sample_externals "\<lambda>r. Appended" "sample_receipt 7300"
      "register_pool 3 4 (collector_new 3600 7200 300)" Map.empty]
  by (simp add: sample_service_def register_pool_def collector_new_def dedup_hash_def)
    (simp add: sample_defs)

lemma sample_reachable:
  "collector_reachable sample_externals False (collector_new 3600 7200 300) (svc_collector sample_service)"
proof -
  let ?c = "register_pool 3 4 (collector_new 3600 7200 300)"
  obtain res coll fs where i: "ingest True sample_externals (\<lambda>r. Appended) (sample_receipt 7300) (?c, Map.empty) = (res, coll, fs)"
    by (metis surj_pair)
  then have "svc_collector sample_service = coll" by (simp add: sample_service_def)
  with collector_step.ingest [OF i, of False]
  have "collector_step sample_externals False ?c (svc_collector sample_service)" by simp
  moreover have "collector_step sample_externals False (collector_new 3600 7200 300) ?c"
    by (rule collector_step.register)
  ultimately show ?thesis by (meson r_into_rtranclp rtranclp.rtrancl_into_rtrancl)
qed

lemma sample_premises:
  "window_start (svc_collector sample_service) \<noteq> 0" "receipt_count (svc_collector sample_service) = 1"
  "mset (rev (pools (svc_collector sample_service))) = mset (pools (svc_collector sample_service))"
  "(unat (current_epoch sample_service) + 2) * unat (epoch_duration_secs (svc_config sample_service)) < 2 ^ 64"
  "epoch_duration_secs (svc_config sample_service) \<noteq> 0"
  by (simp_all add: sample_collector receipt_count_def register_pool_def collector_new_def)
    (simp_all add: sample_service_def default_aggregator_config_def)

lemma sample_stamped: "list_all (\<lambda>r. timestamp r \<noteq> 0) (all_receipts (svc_collector sample_service))"
  by (rule window_stamped [OF sample_reachable sample_premises(1)])

lemma sample_count: "receipt_count (svc_collector sample_service) < 2 ^ 64"
  by (simp add: sample_premises)

section \<open>Properties\<close>

text \<open>
  C3: the end of an epoch loses nothing. Take a collector that was reached from a new one by its own
  calls, without receipts loaded from disk, so that every receipt it holds was validated against the
  window; let it hold fewer than \<open>2 ^ 64\<close> receipts, none of them stamped 0, which the collector accepts
  when its window starts at 0 but the prover refuses; and let the epoch length be positive and the end
  of the next epoch fit 64 bits. Then, with overflow checks and without, the service builds exactly
  one transaction per pool with receipts, in whatever order the map lists them, each carrying the
  verified batch of that pool's queue; the posted weights add up to the number of receipts collected;
  and the next epoch starts with an empty collector and the next window.
\<close>

theorem epoch_end_posts_every_receipt:
  assumes reach: "collector_reachable x False (collector_new s e g) (svc_collector self)"
    and stamped: "list_all (\<lambda>r. timestamp r \<noteq> 0) (all_receipts (svc_collector self))"
    and "receipt_count (svc_collector self) < 2 ^ 64"
    and order: "mset (order (pools (svc_collector self))) = mset (pools (svc_collector self))"
    and adv: "(unat (current_epoch self) + 2) * unat (epoch_duration_secs (svc_config self)) < 2 ^ 64"
      "epoch_duration_secs (svc_config self) \<noteq> 0"
  shows "\<exists>txs self'. process_epoch_end oc bincode x order self = (Ok (map Inr txs, self') :: ('e, _) outcome) \<and>
    list_all2 (\<lambda>p tx. posts oc bincode x p (the (map_of (pool_receipts (svc_collector self)) p)) tx)
      (order (pools (svc_collector self))) txs \<and>
    sum_list (map (\<lambda>tx. sum_list (map (\<lambda>(op, w). unat w) (tx_weights tx))) txs) = receipt_count (svc_collector self) \<and>
    receipt_count (svc_collector self') = 0 \<and> seen (svc_collector self') = {} \<and>
    unat (current_epoch self') = unat (current_epoch self) + 1 \<and>
    unat (window_start (svc_collector self')) = (unat (current_epoch self) + 1) * unat (epoch_duration_secs (svc_config self)) \<and>
    unat (window_end (svc_collector self')) = (unat (current_epoch self) + 2) * unat (epoch_duration_secs (svc_config self))"
  using assms by (rule epoch_end_total)

theorem epoch_end_posts_every_receipt_witness:
  "\<exists>txs self'. process_epoch_end True sample_bincode sample_externals rev sample_service =
      (Ok (map Inr txs, self') :: (unit, _) outcome) \<and>
    sum_list (map (\<lambda>tx. sum_list (map (\<lambda>(op, w). unat w) (tx_weights tx))) txs) = 1"
  using epoch_end_posts_every_receipt [where oc = True and order = rev and bincode = sample_bincode and 'e = unit,
      OF sample_reachable sample_stamped sample_count sample_premises(3-5)]
  unfolding sample_premises(2) by blast

text \<open>
  a receipt stamped 0 takes its pool's queue with it: no batch can be built over a queue that holds
  it, and the epoch's result for that pool is an error.
\<close>

theorem zero_stamp_loses_queue:
  assumes "distinct ps" and "\<forall>p \<in> set ps. \<exists>rs. map_of (pool_receipts coll) p = Some rs \<and> rs \<noteq> []"
    and "process_pools oc bincode x ps coll = (Ok (results, coll') :: ('e, _) outcome)"
    and "i < length ps" and "r \<in> set (the (map_of (pool_receipts coll) (ps ! i)))" and "timestamp r = 0"
  shows "isl (results ! i)"
  using list_all2_nthD [OF process_pools_exact [OF assms(1-3)] assms(4)] build_batch_zero_stamp [OF assms(5,6)]
  by (auto simp: pool_result_def split: outcome.splits)

text \<open>
  C36: a receipt stamped in the grace period is counted in two epochs. If it is accepted at or after the
  end of the window, then after the epoch has been processed the collector, whose memory of seen
  receipts was cleared and whose new window starts at the old end, accepts the same receipt again.
\<close>

theorem late_receipt_accepted_twice:
  assumes "accepts True x (svc_collector self) r" and "window_end (svc_collector self) \<le> timestamp r"
    and "ingest True x written r (svc_collector self, fs) = (res, coll, fs')"
    and "process_epoch_end True bincode x order (self\<lparr>svc_collector := coll\<rparr>) = (Ok (results, self') :: ('e, _) outcome)"
    and "unat (window_end (svc_collector self)) = (unat (current_epoch self) + 1) * unat (epoch_duration_secs (svc_config self))"
    and "(unat (current_epoch self) + 2) * unat (epoch_duration_secs (svc_config self)) + unat (grace_secs (svc_collector self)) < 2 ^ 64"
    and "epoch_duration_secs (svc_config self) \<noteq> 0"
  shows "accepts True x (svc_collector self') r \<and>
    fst (ingest True x written r (svc_collector self', fs')) = Ok ()"
proof -
  let ?c = "svc_collector self" and ?c' = "svc_collector self'"
  let ?d = "epoch_duration_secs (svc_config self)"
  have coll: "cid_to_pool coll = cid_to_pool ?c" "grace_secs coll = grace_secs ?c"
    using ingest_state [OF assms(3)] by auto
  have adv: "(unat (current_epoch self) + 2) * unat ?d < 2 ^ 64" using assms(6) by linarith
  obtain s where s: "advance_epoch True s = (Ok self' :: ('e, service) outcome)" "svc_config s = svc_config self"
    "current_epoch s = current_epoch self" "cid_to_pool (svc_collector s) = cid_to_pool coll"
    "grace_secs (svc_collector s) = grace_secs coll"
  proof (cases "order (pools coll) = []")
    case True
    with assms(4) show thesis by (intro that [of "self\<lparr>svc_collector := coll\<rparr>"]) (simp_all add: process_epoch_end_def)
  next
    case False
    with assms(4) obtain coll' where "process_pools True bincode x (order (pools coll)) coll = (Ok (results, coll') :: ('e, _) outcome)"
      "advance_epoch True (self\<lparr>svc_collector := coll'\<rparr>) = (Ok self' :: ('e, service) outcome)"
      by (auto simp: process_epoch_end_def)
    with process_pools_fields [of True bincode x _ coll results coll', where 'e = 'e] show thesis
      by (intro that [of "self\<lparr>svc_collector := coll'\<rparr>"]) simp_all
  qed
  have f: "seen ?c' = {}" "grace_secs ?c' = grace_secs ?c" "cid_to_pool ?c' = cid_to_pool ?c"
    "unat (window_start ?c') = (unat (current_epoch self) + 1) * unat ?d"
    "unat (window_end ?c') = (unat (current_epoch self) + 2) * unat ?d"
    using advance_epoch_Ok [of s True, where 'e = 'e] s coll adv assms(7) by auto
  have "unat (window_start ?c') = unat (window_end ?c)" using f(4) assms(5) by simp
  then have start: "window_start ?c' \<le> timestamp r" using assms(2) by (simp add: word_le_nat_alt)
  have fits: "unat (window_end ?c') + unat (grace_secs ?c') < 2 ^ 64" using f(2,5) assms(6) by simp
  have old: "unat (window_end ?c) + unat (grace_secs ?c) < 2 ^ 64" using assms(1) by (simp add: accepts_def)
  have "unat (window_end ?c) \<le> unat (window_end ?c')" unfolding f(5) assms(5) by simp
  then have "window_end ?c + grace_secs ?c \<le> window_end ?c' + grace_secs ?c'"
    using unat_add64 [OF fits] unat_add64 [OF old] f(2) by (simp add: word_le_nat_alt)
  moreover have "timestamp r < window_end ?c + grace_secs ?c" using assms(1) by (simp add: accepts_def receipt_valid_def)
  ultimately have "timestamp r < window_end ?c' + grace_secs ?c'" by (rule order_less_le_trans [rotated])
  then have "accepts True x ?c' r"
    using assms(1) start fits f(1,3) by (auto simp: accepts_def receipt_valid_def)
  then show ?thesis using ingest_cases(2) by blast
qed

theorem late_receipt_accepted_twice_witness:
  "\<exists>txs self'. process_epoch_end True sample_bincode sample_externals rev sample_service =
      (Ok (map Inr txs, self') :: (unit, _) outcome) \<and>
    accepts True sample_externals (svc_collector self') (sample_receipt 7300)"
proof -
  let ?c = "register_pool 3 4 (collector_new 3600 7200 300)"
  let ?s = "\<lparr>svc_config = default_aggregator_config, svc_collector = ?c, current_epoch = 1\<rparr>"
  obtain res coll fs where i: "ingest True sample_externals (\<lambda>r. Appended) (sample_receipt 7300) (svc_collector ?s, Map.empty) = (res, coll, fs)"
    by (metis surj_pair)
  then have s: "?s\<lparr>svc_collector := coll\<rparr> = sample_service" by (simp add: sample_service_def)
  obtain txs self' where run: "process_epoch_end True sample_bincode sample_externals rev sample_service =
      (Ok (map Inr txs, self') :: (unit, _) outcome)"
    using epoch_end_total [where oc = True and order = rev and bincode = sample_bincode and 'e = unit,
      OF sample_reachable sample_stamped sample_count sample_premises(3-5)] by blast
  have "accepts True sample_externals (svc_collector ?s) (sample_receipt 7300)" using sample_accepts by simp
  from late_receipt_accepted_twice [OF this _ i run [folded s]] run show ?thesis
    by (auto simp: sample_receipt_def register_pool_def collector_new_def default_aggregator_config_def word_le_nat_alt)
qed

end
