(* ===== verification/Submit.thy ===== *)
theory Submit
  imports Service
begin

text \<open>
  The submitters of \<open>crates/aggregator/src/poster.rs\<close> and what the service does with them: the trait
  \<open>TransactionSubmitter\<close> as the locale \<open>transaction_submitter\<close>, the two implementations the crate
  has, the loop of \<open>run_with_channel\<close> over the results of an epoch with a submitter that keeps state
  (\<open>submissions\<close> in \<open>Service\<close> is its answer-by-answer view), and one round of the legacy loop \<open>run\<close>.
  The hexadecimal text is the function \<open>x_hex\<close> of the externals.
\<close>

record submit_result =
  tx_signature :: string
  confirmed :: bool

type_synonym 's submit_op = "built_transaction \<Rightarrow> 's \<Rightarrow> (aggregator_error + submit_result) \<times> 's"
type_synonym 's claim_op =
  "key32 \<Rightarrow> key32 \<Rightarrow> u64 \<Rightarrow> key32 list \<Rightarrow> u32 \<Rightarrow> 's \<Rightarrow> (aggregator_error + submit_result) \<times> 's"

section \<open>The submission loop of an epoch\<close>

fun claim_round :: "'s claim_op \<Rightarrow> key32 \<Rightarrow> entry list \<Rightarrow> 's \<Rightarrow> 's" where
  "claim_round submit_claim pool [] s = s"
| "claim_round submit_claim pool ((operator, weight) # ws) s =
     claim_round submit_claim pool ws (snd (submit_claim pool operator weight [] 0 s))"

fun submit_results ::
    "'s submit_op \<Rightarrow> 's claim_op \<Rightarrow> bool \<Rightarrow> (aggregator_error + built_transaction) list \<Rightarrow> 's \<Rightarrow> 's" where
  "submit_results submit submit_claim claims [] s = s"
| "submit_results submit submit_claim claims (Inl e # results) s = submit_results submit submit_claim claims results s"
| "submit_results submit submit_claim claims (Inr tx # results) s =
     (case submit tx s of
        (Inl e, s) \<Rightarrow> submit_results submit submit_claim claims results s
      | (Inr r, s) \<Rightarrow> submit_results submit submit_claim claims results
          (if claims then claim_round submit_claim (tx_pool tx) (tx_weights tx) s else s))"

text \<open>The transaction of a claim, and of any submission.\<close>

locale transaction_submitter =
  fixes submit :: "'s submit_op" and submit_claim :: "'s claim_op"
    and claim_tx :: "key32 \<Rightarrow> key32 \<Rightarrow> u64 \<Rightarrow> key32 list \<Rightarrow> u32 \<Rightarrow> built_transaction"
  assumes claim_is_submitted: "submit_claim pool operator weight merkle leaf s = submit (claim_tx pool operator weight merkle leaf) s"
begin

fun tx_of :: "submission \<Rightarrow> built_transaction" where
  "tx_of (Submit tx) = tx"
| "tx_of (SubmitClaim pool operator weight merkle leaf) = claim_tx pool operator weight merkle leaf"

lemma claim_round_fold:
  "claim_round submit_claim pool ws s =
    fold (\<lambda>tx s. snd (submit tx s)) (map (\<lambda>(operator, weight). claim_tx pool operator weight [] 0) ws) s"
  by (induction ws arbitrary: s) (auto simp: claim_is_submitted)

end

text \<open>A submitter that accepts everything and keeps a record.\<close>

locale recording_submitter = transaction_submitter submit submit_claim claim_tx
  for submit :: "'s submit_op" and submit_claim :: "'s claim_op" and claim_tx +
  fixes recorded :: "'s \<Rightarrow> built_transaction list"
  assumes submit_accepts: "\<exists>r. fst (submit tx s) = Inr r"
    and submit_records: "recorded (snd (submit tx s)) = recorded s @ [tx]"
begin

lemma fold_records: "recorded (fold (\<lambda>tx s. snd (submit tx s)) txs s) = recorded s @ txs"
  by (induction txs arbitrary: s) (simp_all add: submit_records)

text \<open>The record of an epoch is its submissions, in order.\<close>

lemma epoch_recorded:
  "recorded (submit_results submit submit_claim claims results s) =
    recorded s @ map tx_of (concat (map (submissions (\<lambda>tx. True) claims) results))"
proof (induction results arbitrary: s)
  case (Cons result results)
  show ?case
  proof (cases result)
    case (Inr tx)
    obtain r s' where s': "submit tx s = (Inr r, s')"
      using submit_accepts [of tx s] by (cases "submit tx s") auto
    have "recorded s' = recorded s @ [tx]"
      using submit_records [of tx s] by (simp add: s')
    then show ?thesis
      using Cons.IH by (simp add: Inr s' submissions_def claim_round_fold fold_records comp_def case_prod_unfold)
  qed (use Cons.IH in \<open>simp add: submissions_def\<close>)
qed simp

end

section \<open>The submitters of the crate\<close>

type_synonym dry_run_submitter = "built_transaction list"

definition dry_run_new :: dry_run_submitter where
  "dry_run_new = []"

definition dry_run_submissions :: "dry_run_submitter \<Rightarrow> built_transaction list" where
  "dry_run_submissions self = self"

definition submission_count :: "dry_run_submitter \<Rightarrow> nat" where
  "submission_count self = length self"

definition dry_run_submit :: "dry_run_submitter submit_op" where
  "dry_run_submit tx self =
     (let self = self @ [tx] in
      (Inr \<lparr>tx_signature = ''dryrun_'' @ dec_string (submission_count self), confirmed = True\<rparr>, self))"

definition dry_run_submit_claim :: "(payload \<Rightarrow> bytes) \<Rightarrow> externals \<Rightarrow> dry_run_submitter claim_op" where
  "dry_run_submit_claim bincode x pool operator weight merkle_proof leaf_index self =
     dry_run_submit (claim_transaction bincode x pool operator weight merkle_proof leaf_index) self"

record solana_rpc_poster =
  rpc_url :: string
  keypair_bytes :: "512 word"
  poster_program_id :: key32
  max_retries :: "32 word"

definition solana_new :: "string \<Rightarrow> 512 word \<Rightarrow> key32 \<Rightarrow> solana_rpc_poster" where
  "solana_new url keypair program =
     \<lparr>rpc_url = url, keypair_bytes = keypair, poster_program_id = program, max_retries = 3\<rparr>"

definition with_max_retries :: "32 word \<Rightarrow> solana_rpc_poster \<Rightarrow> solana_rpc_poster" where
  "with_max_retries n self = self\<lparr>max_retries := n\<rparr>"

definition solana_submit :: "externals \<Rightarrow> solana_rpc_poster submit_op" where
  "solana_submit x tx self =
     (Inr \<lparr>tx_signature = ''sim_'' @ x_hex x (take (min 8 (length (instruction_data tx))) (instruction_data tx)),
           confirmed = True\<rparr>, self)"

definition solana_submit_claim :: "(payload \<Rightarrow> bytes) \<Rightarrow> externals \<Rightarrow> solana_rpc_poster claim_op" where
  "solana_submit_claim bincode x pool operator weight merkle_proof leaf_index self =
     solana_submit x (claim_transaction bincode x pool operator weight merkle_proof leaf_index) self"

interpretation dry_run: recording_submitter dry_run_submit "dry_run_submit_claim bincode x" "claim_transaction bincode x"
    dry_run_submissions
  for bincode x
  by unfold_locales (simp_all add: dry_run_submit_claim_def dry_run_submit_def dry_run_submissions_def Let_def)

interpretation solana: transaction_submitter "solana_submit x" "solana_submit_claim bincode x" "claim_transaction bincode x"
  for bincode x
  by unfold_locales (simp add: solana_submit_claim_def)

text \<open>The RPC submitter reports every transaction as confirmed and keeps nothing: an epoch leaves it as it was.\<close>

lemma solana_submit_state: "\<exists>r. solana_submit x tx s = (Inr r, s)"
  by (simp add: solana_submit_def)

lemma solana_claims_unchanged: "claim_round (solana_submit_claim bincode x) pool ws s = s"
proof (induction ws)
  case (Cons w ws)
  then show ?case
    using solana_submit_state [of x "claim_transaction bincode x pool (fst w) (snd w) [] 0" s]
    by (cases w) (auto simp: solana_submit_claim_def)
qed simp

lemma solana_epoch_unchanged:
  "submit_results (solana_submit x) (solana_submit_claim bincode x) claims results s = s"
proof (induction results)
  case (Cons result results)
  show ?case
  proof (cases result)
    case (Inr tx)
    obtain r where "solana_submit x tx s = (Inr r, s)"
      using solana_submit_state by blast
    with Cons Inr show ?thesis by (cases claims) (simp_all add: solana_claims_unchanged)
  qed (use Cons in simp)
qed simp

section \<open>The legacy loop\<close>

text \<open>\<open>source i\<close> is the \<open>i\<close>-th call of the closure, on the collector and on what the closure works with.\<close>

fun source_polls :: "(nat \<Rightarrow> collector \<times> 'w \<Rightarrow> ('e, collector \<times> 'w) outcome) \<Rightarrow> nat list \<Rightarrow> collector \<times> 'w \<Rightarrow>
    ('e, collector \<times> 'w) outcome" where
  "source_polls source [] st = Ok st"
| "source_polls source (i # is) st = obind (source i st) (source_polls source is)"

definition run_round ::
  "bool \<Rightarrow> (payload \<Rightarrow> bytes) \<Rightarrow> externals \<Rightarrow> (key32 list \<Rightarrow> key32 list) \<Rightarrow> u64 \<Rightarrow>
    (nat \<Rightarrow> collector \<times> 'w \<Rightarrow> ('e, collector \<times> 'w) outcome) \<Rightarrow> service \<times> 'w \<Rightarrow>
    ('e, (aggregator_error + built_transaction) list \<times> service \<times> 'w) outcome" where
  "run_round oc bincode x order now source st = (case st of (self, w) \<Rightarrow>
     obind (add64 oc (current_epoch self) 1) (\<lambda>next.
     obind (mul64 oc next (epoch_duration_secs (svc_config self))) (\<lambda>ending.
     obind (source_polls source [0..<poll_count now ending] (svc_collector self, w)) (\<lambda>(coll, w).
     obind (process_epoch_end oc bincode x order (self\<lparr>svc_collector := coll\<rparr>)) (\<lambda>(results, self).
       Ok (results, self, w))))))"

text \<open>The closure that drains the channel.\<close>

definition channel_source ::
  "bool \<Rightarrow> externals \<Rightarrow> (storage_receipt \<Rightarrow> append_result) \<Rightarrow> (nat \<Rightarrow> bytes list) \<Rightarrow> nat \<Rightarrow> collector \<times> disk \<Rightarrow>
    ('e, collector \<times> disk) outcome" where
  "channel_source oc x written poll i st =
     (case drain_channel oc x written (poll i) st of (Panic, st') \<Rightarrow> Panic | (_, st') \<Rightarrow> Ok st')"

lemma omap_obind: "omap f (obind m g) = obind m (\<lambda>x. omap f (g x))"
  by (cases m) simp_all

lemma source_polls_channel:
  "source_polls (channel_source oc x written poll) is st = drain_polls oc x written (map poll is) st"
proof (induction "is" arbitrary: st)
  case (Cons i "is")
  show ?case
  proof -
    obtain r st' where "drain_channel oc x written (poll i) st = (r, st')" by (metis surj_pair)
    then show ?thesis using Cons.IH by (cases r) (simp_all add: channel_source_def)
  qed
qed simp

text \<open>
  a round of the legacy loop whose closure drains the channel does what a round of the loop with
  a channel does to the service and the disk, and the submissions of the latter are those of the
  former's results; where one panics, so does the other.
\<close>

theorem legacy_round_equivalent:
  "epoch_round oc bincode x order written now poll submit_ok (self, fs) =
    omap (\<lambda>(results, self', fs').
        (concat (map (submissions submit_ok (submit_claims (svc_config self'))) results), self', fs'))
      (run_round oc bincode x order now (channel_source oc x written poll) (self, fs))"
  by (simp add: epoch_round_def run_round_def source_polls_channel omap_obind case_prod_unfold)

text \<open>
  C25: what the end of an epoch leaves with its submitter, whichever batches failed. Take a collector
  that was reached from a new one by its own calls, files loaded from disk included, and an epoch end
  that did not panic. Its results are one per pool with a queue, in the order in which the map lists
  the pools: the transaction that posts the batch of that queue, or the error that building it ended
  with. The recording submitter then holds, after what it held before and in the order of the results,
  nothing for an error, and for a transaction the transaction itself followed, if claims are submitted,
  by one claim per operator for its weight; every claim has an empty proof and leaf index 0, also where
  \<open>build_claims\<close> numbers the leaves. The RPC submitter keeps nothing of it.
\<close>

theorem epoch_submissions_recorded:
  assumes reach: "collector_reachable x loads (collector_new s e g) (svc_collector self)"
    and order: "mset (order (pools (svc_collector self))) = mset (pools (svc_collector self))"
    and run: "process_epoch_end oc bincode x order self = (Ok (results, self') :: ('e, _) outcome)"
  shows "list_all2 (\<lambda>p result. case build_batch oc x p (the (map_of (pool_receipts (svc_collector self)) p)) of
        Ok batch \<Rightarrow> result = Inr (build_post_distribution bincode x batch)
      | Err e \<Rightarrow> result = Inl e
      | Panic \<Rightarrow> False)
      (order (pools (svc_collector self))) results \<and>
    dry_run_submissions (submit_results dry_run_submit (dry_run_submit_claim bincode x) claims results past) =
      dry_run_submissions past @ concat (map (\<lambda>result. case result of
          Inl e \<Rightarrow> []
        | Inr tx \<Rightarrow> tx # (if claims
            then map (\<lambda>(operator, weight). claim_transaction bincode x (tx_pool tx) operator weight [] 0) (tx_weights tx)
            else [])) results) \<and>
    submit_results (solana_submit x) (solana_submit_claim bincode x) claims results rpc = rpc"
proof -
  have "map (dry_run.tx_of bincode x) (concat (map (submissions (\<lambda>tx. True) claims) results)) =
      concat (map (\<lambda>result. case result of Inl e \<Rightarrow> [] | Inr tx \<Rightarrow> tx #
        (if claims then map (\<lambda>(operator, weight). claim_transaction bincode x (tx_pool tx) operator weight [] 0) (tx_weights tx)
         else [])) results)"
    by (induction results) (auto simp: submissions_def split: sum.split)
  with epoch_end_results [where order = order, OF assms, unfolded pool_result_def]
    dry_run.epoch_recorded [of bincode x claims results past] show ?thesis
    by (simp add: solana_epoch_unchanged)
qed

theorem epoch_submissions_recorded_witness:
  "\<exists>txs self'. process_epoch_end True sample_bincode sample_externals rev sample_service =
      (Ok (map Inr txs, self') :: (unit, _) outcome) \<and> length txs = 1 \<and>
    hd (dry_run_submissions (submit_results dry_run_submit (dry_run_submit_claim sample_bincode sample_externals) True
      (map Inr txs) dry_run_new)) = hd txs"
proof -
  obtain txs self' where run: "process_epoch_end True sample_bincode sample_externals rev sample_service =
      (Ok (map Inr txs, self') :: (unit, _) outcome)"
    using epoch_end_total [where oc = True and order = rev and bincode = sample_bincode and 'e = unit,
      OF sample_reachable sample_stamped sample_count sample_premises(3-5)] by blast
  note recorded = epoch_submissions_recorded [where claims = True and past = dry_run_new,
    OF sample_reachable sample_premises(3) run]
  have "length txs = 1"
    using list_all2_lengthD [OF recorded [THEN conjunct1]]
    by (simp add: sample_collector register_pool_def collector_new_def pools_def)
  then obtain tx where "txs = [tx]" by (auto simp: length_Suc_conv)
  with run recorded show ?thesis
    by (intro exI [of _ txs] exI [of _ self']) (simp add: dry_run_submissions_def dry_run_new_def)
qed

end
