(* ===== verification/Guest.thy ===== *)
theory Guest
  imports Prover
begin

text \<open>
  \<open>crates/distribution-guest/src/main.rs\<close>, the program proved in the SP1 virtual machine, and the
  \<open>ProverClient\<close> of \<open>crates/prover/src/lib.rs\<close> built with the feature \<open>sp1\<close>. The virtual machine is a
  parameter: \<open>prove\<close> and \<open>execute\<close> take the program and its input, and the locale \<open>zkvm\<close> states the one
  thing the code relies on, that public values are what the program commits. \<open>distribution_prover\<close>
  is the contract both clients share; the mock one and the SP1 one are instances of it.
\<close>

section \<open>The guest program\<close>

text \<open>\<open>while nodes.len() < n { nodes.push([0u8; 32]); }\<close>\<close>

function guest_pad :: "nat \<Rightarrow> key32 list \<Rightarrow> key32 list" where
  "guest_pad n nodes = (if length nodes < n then guest_pad n (nodes @ [0]) else nodes)"
  by pat_completeness auto
termination
  by (relation "measure (\<lambda>(n, nodes). n - length nodes)") auto

declare guest_pad.simps [simp del]

text \<open>\<open>for i in (0..nodes.len()).step_by(2)\<close>, from index \<open>i\<close> on with the parents pushed so far.\<close>

function guest_level :: "(bytes \<Rightarrow> key32) \<Rightarrow> key32 list \<Rightarrow> nat \<Rightarrow> key32 list \<Rightarrow> ('e, key32 list) outcome" where
  "guest_level sha256 nodes i next =
     (if i < length nodes
      then obind (oidx nodes i) (\<lambda>left. obind (oidx nodes (i + 1)) (\<lambda>right.
        guest_level sha256 nodes (i + 2) (next @ [sha256 (key_bytes left @ key_bytes right)])))
      else Ok next)"
  by pat_completeness auto
termination
  by (relation "measure (\<lambda>(sha256, nodes, i, next). length nodes - i)") auto

declare guest_level.simps [simp del]

lemma guest_level_eq:
  "guest_level sha256 nodes i next = omap ((@) next) (merge_level sha256 (drop i nodes))"
proof (induction "length nodes - i" arbitrary: i "next" rule: less_induct)
  case less
  consider "length nodes \<le> i" | "length nodes = i + 1" | "i + 1 < length nodes" by linarith
  then show ?case
  proof cases
    case 1
    then show ?thesis by (simp add: guest_level.simps [of _ _ i])
  next
    case 2
    then have "drop i nodes = [nodes ! i]" by (simp add: Cons_nth_drop_Suc [symmetric])
    with 2 show ?thesis by (simp add: guest_level.simps [of _ _ i] oidx_def)
  next
    case 3
    then have "drop i nodes = nodes ! i # nodes ! (i + 1) # drop (i + 2) nodes"
      by (simp add: Cons_nth_drop_Suc)
    moreover have "omap ((@) (xs @ [y])) m = omap ((@) xs) (omap ((#) y) m)" for xs and y :: key32 and m :: "('e, key32 list) outcome"
      by (cases m) simp_all
    ultimately show ?thesis
      using 3 less [of "i + 2"] by (simp add: guest_level.simps [of _ _ i] hash_pair_def)
  qed
qed

function guest_merge :: "(bytes \<Rightarrow> key32) \<Rightarrow> key32 list \<Rightarrow> ('e, key32 list) outcome" where
  "guest_merge sha256 nodes =
     (if 1 < length nodes then obind (guest_level sha256 nodes 0 []) (guest_merge sha256) else Ok nodes)"
  by pat_completeness auto
termination
proof (relation "measure (\<lambda>(sha256, nodes). length nodes)")
  fix sha256 nodes and x :: "key32 list"
  assume "1 < length nodes" "guest_level sha256 nodes 0 [] = (Ok x :: ('e, key32 list) outcome)"
  then show "((sha256, x), (sha256, nodes)) \<in> measure (\<lambda>(sha256, nodes). length nodes)"
    by (auto simp: guest_level_eq dest!: length_merge_level)
qed simp

declare guest_merge.simps [simp del]

definition guest_merkle_root :: "(bytes \<Rightarrow> key32) \<Rightarrow> key32 list \<Rightarrow> ('e, key32) outcome" where
  "guest_merkle_root sha256 leaves =
     (if leaves = [] then Ok 0
      else if length leaves = 1 then oidx leaves 0
      else obind (guest_merge sha256 (guest_pad (next_power_of_two (length leaves)) leaves)) (\<lambda>nodes. oidx nodes 0))"

text \<open>\<open>main\<close>: what it commits, field by field; it panics on an empty distribution.\<close>

definition guest_main :: "bool \<Rightarrow> (bytes \<Rightarrow> key32) \<Rightarrow> distribution_input \<Rightarrow> ('e, bytes) outcome" where
  "guest_main oc sha256 input =
     (if in_entries input = [] then Panic
      else let entries = sort_key fst (in_entries input) in
        obind (sum_weights oc (map snd entries) 0) (\<lambda>total_weight.
        obind (guest_merkle_root sha256 (map (merkle_leaf sha256) entries)) (\<lambda>root.
          Ok (key_bytes root @ le_bytes 8 total_weight @
              le_bytes 4 (of_nat (length entries) :: u32) @ key_bytes (in_pool_id input)))))"

section \<open>The SP1 client\<close>

type_synonym guest_program = "distribution_input \<Rightarrow> (string, bytes) outcome"

text \<open>
  \<open>prove\<close> is \<open>setup\<close>, \<open>prove(..).groth16().run()\<close> of the SDK: the public values and \<open>proof.bytes()\<close>;
  \<open>elf\<close> is \<open>DISTRIBUTION_ELF\<close>. The input passes from \<open>SP1Stdin::write\<close> to \<open>sp1_zkvm::io::read\<close> unchanged: its
  serialisation between host and guest belongs to the virtual machine.
\<close>

definition sp1_prove_batch ::
    "(guest_program \<Rightarrow> distribution_input \<Rightarrow> (string, bytes \<times> bytes) outcome) \<Rightarrow> guest_program \<Rightarrow>
     bool \<Rightarrow> contribution list \<Rightarrow> key32 \<Rightarrow> batch_proof pr" where
  "sp1_prove_batch prove elf oc receipts pool_id =
     obind (aggregate_receipts oc receipts) (\<lambda>entries.
     obind (map_err Sp1 (prove elf \<lparr>in_entries = entries, in_pool_id = pool_id\<rparr>)) (\<lambda>(public_values, proof').
       Ok \<lparr>proof_bytes = proof', public_inputs = public_values\<rparr>))"

definition sp1_execute_batch ::
    "(guest_program \<Rightarrow> distribution_input \<Rightarrow> (string, bytes) outcome) \<Rightarrow> guest_program \<Rightarrow>
     bool \<Rightarrow> contribution list \<Rightarrow> key32 \<Rightarrow> distribution_output pr" where
  "sp1_execute_batch execute elf oc receipts pool_id =
     obind (aggregate_receipts oc receipts) (\<lambda>entries.
     obind (map_err Sp1 (execute elf \<lparr>in_entries = entries, in_pool_id = pool_id\<rparr>)) (\<lambda>output.
       if length output \<noteq> 76 then Err (Sp1 ''unexpected output length'')
       else Ok (output_from_bytes output)))"

definition sp1_verify_batch :: "batch_proof \<Rightarrow> distribution_output pr" where
  "sp1_verify_batch proof' =
     (if length (public_inputs proof') \<noteq> 76 then Err InvalidProof
      else Ok (output_from_bytes (public_inputs proof')))"

definition vkey_hash :: "(guest_program \<Rightarrow> 'pk \<times> 'vk) \<Rightarrow> ('vk \<Rightarrow> string) \<Rightarrow> guest_program \<Rightarrow> string" where
  "vkey_hash setup_fn bytes32 elf = (case setup_fn elf of (pk, vk) \<Rightarrow> bytes32 vk)"

section \<open>The guest agrees with the host\<close>

lemma guest_pad_eq: "guest_pad n nodes = nodes @ replicate (n - length nodes) 0"
proof (induction "n - length nodes" arbitrary: nodes)
  case (Suc d)
  then have "n - length nodes = Suc (n - length (nodes @ [0]))" by simp
  with Suc show ?case by (simp add: guest_pad.simps [of n nodes])
next
  case 0
  then show ?case by (simp add: guest_pad.simps [of n nodes])
qed

lemma guest_merge_eq: "guest_merge sha256 nodes = (merge_loop sha256 nodes :: ('e, key32 list) outcome)"
proof (induction "length nodes" arbitrary: nodes rule: less_induct)
  case less
  have "guest_level sha256 nodes 0 [] = (merge_level sha256 nodes :: ('e, key32 list) outcome)"
    by (cases "merge_level sha256 nodes :: ('e, key32 list) outcome") (simp_all add: guest_level_eq)
  then show ?case
    using less by (auto simp: guest_merge.simps [of _ nodes] merge_loop.simps [of _ nodes]
        dest!: length_merge_level intro!: obind_cong)
qed

lemma guest_merkle_root_eq: "guest_merkle_root sha256 leaves = (compute_merkle_root sha256 leaves :: ('e, key32) outcome)"
  by (simp add: guest_merkle_root_def compute_merkle_root_def guest_merge_eq guest_pad_eq Let_def)

lemma guest_main_eq:
  assumes "in_entries input \<noteq> []"
  shows "guest_main oc sha256 input = (omap output_to_bytes (execute_guest_logic oc sha256 input) :: ('e, bytes) outcome)"
proof -
  let ?es = "sort_key fst (in_entries input)"
  have "?es \<noteq> []" using assms by (metis length_0_conv length_sort)
  then have "map (merkle_leaf sha256) ?es \<noteq> []" by simp
  note root = compute_merkle_root_eq [OF this, where 'e = 'e]
  show ?thesis
    using assms by (cases "sum_weights oc (map snd ?es) 0 :: ('e, u64) outcome")
      (simp_all add: guest_main_def execute_guest_logic_def guest_merkle_root_eq root Let_def output_to_bytes_def)
qed

text \<open>The logic returns no error of its own: its result is the same at every error type.\<close>

lemma sum_weights_any_error:
  "sum_weights oc ws acc = (Ok t :: ('e, u64) outcome) \<Longrightarrow> sum_weights oc ws acc = (Ok t :: ('f, u64) outcome)"
  by (induction ws arbitrary: acc) (auto simp: add64_def split: if_splits)

lemma execute_guest_logic_any_error:
  assumes "in_entries input \<noteq> []"
    and "execute_guest_logic oc sha256 input = (Ok out :: ('e, distribution_output) outcome)"
  shows "execute_guest_logic oc sha256 input = (Ok out :: ('f, distribution_output) outcome)"
proof -
  let ?es = "sort_key fst (in_entries input)"
  have "?es \<noteq> []" using assms(1) by (metis length_0_conv length_sort)
  then have "map (merkle_leaf sha256) ?es \<noteq> []" by simp
  note roots = compute_merkle_root_eq [OF this, where 'e = 'e] compute_merkle_root_eq [OF this, where 'e = 'f]
  from assms(2) show ?thesis
    by (auto simp: execute_guest_logic_def Let_def roots dest: sum_weights_any_error [where 'f = 'f])
qed

section \<open>The contract of a prover\<close>

text \<open>
  What the verifier reads is the output of the guest logic on the aggregate. \<open>oc_host\<close> and
  \<open>oc_guest\<close> are the overflow checks of the two builds.
\<close>

locale distribution_prover =
  fixes prove :: "contribution list \<Rightarrow> key32 \<Rightarrow> batch_proof pr"
    and verify :: "batch_proof \<Rightarrow> distribution_output pr"
    and oc_host :: bool
    and oc_guest :: bool
    and sha256 :: "bytes \<Rightarrow> key32"
  assumes prove_Ok: "prove rs pid = Ok p \<Longrightarrow> \<exists>es out. aggregate_receipts oc_host rs = Ok es \<and>
      execute_guest_logic oc_guest sha256 \<lparr>in_entries = es, in_pool_id = pid\<rparr> = (Ok out :: distribution_output pr) \<and>
      public_inputs p = output_to_bytes out \<and> verify p = Ok out"
begin

lemma reads_aggregate:
  assumes "prove rs pid = Ok p"
  obtains es out where "aggregate_receipts oc_host rs = Ok es" and "verify p = Ok out" and "out_pool_id out = pid"
    and "out_root out = tree_root sha256 (tree_depth (length es)) (padded (map (merkle_leaf sha256) es))"
    and "out_total_weight out = sum_list (map c_weight rs)"
    and "out_entry_count out = of_nat (card (c_operator ` set rs))"
proof -
  from prove_Ok [OF assms] obtain es out where es: "aggregate_receipts oc_host rs = Ok es"
    and run: "execute_guest_logic oc_guest sha256 \<lparr>in_entries = es, in_pool_id = pid\<rparr> = (Ok out :: distribution_output pr)"
    and v: "verify p = Ok out" by blast
  show ?thesis
    using that [OF es v] execute_guest_logic_Ok [OF run aggregate_nonempty(1,2) [OF es]]
    by (simp add: aggregate_sum [OF es] aggregate_nonempty(3) [OF es])
qed

lemma order_independent:
  assumes "prove rs pid = Ok p" and "prove rs' pid = Ok p'" and "mset rs = mset rs'"
  shows "public_inputs p = public_inputs p' \<and> verify p = verify p'"
proof -
  from prove_Ok [OF assms(1)] obtain es out where es: "aggregate_receipts oc_host rs = Ok es"
    "execute_guest_logic oc_guest sha256 \<lparr>in_entries = es, in_pool_id = pid\<rparr> = (Ok out :: distribution_output pr)"
    "public_inputs p = output_to_bytes out" "verify p = Ok out" by blast
  from prove_Ok [OF assms(2)] obtain es' out' where "aggregate_receipts oc_host rs' = Ok es'"
    "execute_guest_logic oc_guest sha256 \<lparr>in_entries = es', in_pool_id = pid\<rparr> = (Ok out' :: distribution_output pr)"
    "public_inputs p' = output_to_bytes out'" "verify p' = Ok out'" by blast
  with es show ?thesis by (auto simp: aggregate_receipts_mset [OF assms(3)])
qed

end

interpretation mock: distribution_prover "prove_batch oc sha256" verify_batch oc oc sha256 for oc sha256
proof
  fix rs pid p assume "prove_batch oc sha256 rs pid = Ok p"
  then show "\<exists>es out. aggregate_receipts oc rs = Ok es \<and>
      execute_guest_logic oc sha256 \<lparr>in_entries = es, in_pool_id = pid\<rparr> = (Ok out :: distribution_output pr) \<and>
      public_inputs p = output_to_bytes out \<and> verify_batch p = Ok out"
    by (rule prove_batch_Ok) (auto simp: verify_batch_output)
qed

section \<open>The virtual machine\<close>

text \<open>
  The documented behaviour of the SDK: the public values of a proof, and the result of an execution,
  are what the program commits on that input. Nothing is assumed of proof bytes, nor that proving succeeds.
\<close>

locale zkvm =
  fixes prove :: "guest_program \<Rightarrow> distribution_input \<Rightarrow> (string, bytes \<times> bytes) outcome"
    and execute :: "guest_program \<Rightarrow> distribution_input \<Rightarrow> (string, bytes) outcome"
  assumes prove_commits: "prove elf input = Ok (public_values, pb) \<Longrightarrow> elf input = Ok public_values"
    and execute_commits: "execute elf input = Ok public_values \<Longrightarrow> elf input = Ok public_values"
begin

lemma guest_run:
  assumes "guest_main oc_guest sha256 \<lparr>in_entries = es, in_pool_id = pid\<rparr> = (Ok vals :: (string, bytes) outcome)"
  shows "\<exists>out. execute_guest_logic oc_guest sha256 \<lparr>in_entries = es, in_pool_id = pid\<rparr> = (Ok out :: distribution_output pr) \<and>
    vals = output_to_bytes out"
proof -
  let ?input = "\<lparr>in_entries = es, in_pool_id = pid\<rparr>"
  have ne: "in_entries ?input \<noteq> []" using assms by (auto simp: guest_main_def)
  from assms guest_main_eq [OF ne, of oc_guest sha256, where 'e = string] obtain out
    where "execute_guest_logic oc_guest sha256 ?input = (Ok out :: (string, distribution_output) outcome)"
      and "vals = output_to_bytes out" by auto
  then show ?thesis
    using execute_guest_logic_any_error [OF ne, where 'e = string and 'f = prover_error] by blast
qed

lemma sp1_prove_Ok:
  assumes "sp1_prove_batch prove (guest_main oc_guest sha256) oc_host rs pid = Ok p"
  shows "\<exists>es out. aggregate_receipts oc_host rs = Ok es \<and>
      execute_guest_logic oc_guest sha256 \<lparr>in_entries = es, in_pool_id = pid\<rparr> = (Ok out :: distribution_output pr) \<and>
      public_inputs p = output_to_bytes out \<and> sp1_verify_batch p = Ok out"
proof -
  from assms obtain es vals pb where es: "aggregate_receipts oc_host rs = Ok es"
    and run: "prove (guest_main oc_guest sha256) \<lparr>in_entries = es, in_pool_id = pid\<rparr> = Ok (vals, pb)"
    and p: "p = \<lparr>proof_bytes = pb, public_inputs = vals\<rparr>"
    by (auto simp: sp1_prove_batch_def)
  from guest_run [OF prove_commits [OF run]] es p show ?thesis
    by (auto simp: sp1_verify_batch_def committed.enc_length committed.dec_enc)
qed

lemma sp1_execute_Ok:
  assumes "sp1_execute_batch execute (guest_main oc_guest sha256) oc_host rs pid = Ok out"
  shows "\<exists>es. aggregate_receipts oc_host rs = Ok es \<and>
      execute_guest_logic oc_guest sha256 \<lparr>in_entries = es, in_pool_id = pid\<rparr> = (Ok out :: distribution_output pr)"
proof -
  from assms obtain es vals where es: "aggregate_receipts oc_host rs = Ok es"
    and run: "execute (guest_main oc_guest sha256) \<lparr>in_entries = es, in_pool_id = pid\<rparr> = Ok vals"
    and out: "out = output_from_bytes vals"
    by (auto simp: sp1_execute_batch_def split: if_splits)
  from guest_run [OF execute_commits [OF run]] es out show ?thesis
    by (auto simp: committed.dec_enc)
qed

sublocale sp1: distribution_prover "sp1_prove_batch prove (guest_main oc_guest sha256) oc_host" sp1_verify_batch oc_host oc_guest sha256
  for oc_host oc_guest sha256
  by unfold_locales (rule sp1_prove_Ok)

lemmas sp1_reads_aggregate = sp1.reads_aggregate

end

text \<open>The executor that runs the program natively and proves nothing, as the SDK's own mock mode does.\<close>

definition native_prove :: "guest_program \<Rightarrow> distribution_input \<Rightarrow> (string, bytes \<times> bytes) outcome" where
  "native_prove elf input = omap (\<lambda>public_values. (public_values, [])) (elf input)"

definition native_execute :: "guest_program \<Rightarrow> distribution_input \<Rightarrow> (string, bytes) outcome" where
  "native_execute elf input = elf input"

interpretation native: zkvm native_prove native_execute
  by unfold_locales (auto simp: native_prove_def native_execute_def)

section \<open>Properties\<close>

text \<open>
  host and guest agree: on every nonempty distribution the bytes the guest program commits, with
  its own copy of the Merkle tree, are the encoding of what the host-side execution returns, including
  overflow panics, so that the verifier decodes the host's output from the guest's commitment.
\<close>

theorem guest_commits_host_output:
  assumes "in_entries input \<noteq> []"
  shows "guest_main oc sha256 input = (omap output_to_bytes (execute_guest_logic oc sha256 input) :: bytes pr) \<and>
    omap output_from_bytes (guest_main oc sha256 input) = (execute_guest_logic oc sha256 input :: distribution_output pr)"
proof
  show eq: "guest_main oc sha256 input = (omap output_to_bytes (execute_guest_logic oc sha256 input) :: bytes pr)"
    by (rule guest_main_eq [OF assms])
  show "omap output_from_bytes (guest_main oc sha256 input) = (execute_guest_logic oc sha256 input :: distribution_output pr)"
    unfolding eq by (cases "execute_guest_logic oc sha256 input :: distribution_output pr") (simp_all add: committed.dec_enc)
qed

theorem guest_commits_host_output_witness:
  "guest_main True (\<lambda>_. 0) \<lparr>in_entries = [(9, 3)], in_pool_id = 2\<rparr> =
    (omap output_to_bytes (execute_guest_logic True (\<lambda>_. 0) \<lparr>in_entries = [(9, 3)], in_pool_id = 2\<rparr>) :: bytes pr)"
  by (rule guest_commits_host_output [THEN conjunct1]) simp

text \<open>
  C7: the two builds of the prover agree. On every virtual machine whose public values are what the
  program commits, if the SP1 client proves a batch then the mock client (with the overflow checks of
  the guest) proves it too, with the same public inputs; both verifiers read the same output from
  their proofs, and a dry run with \<open>execute_batch\<close>, if it returns, returns that output.
\<close>

theorem sp1_agrees_with_mock:
  assumes "zkvm prove execute"
    and "sp1_prove_batch prove (guest_main oc sha256) oc rs pid = Ok p"
  shows "\<exists>p' out. prove_batch oc sha256 rs pid = Ok p' \<and> public_inputs p' = public_inputs p \<and>
    verify_batch p' = Ok out \<and> sp1_verify_batch p = Ok out \<and>
    (\<forall>out'. sp1_execute_batch execute (guest_main oc sha256) oc rs pid = Ok out' \<longrightarrow> out' = out)"
proof -
  from zkvm.sp1_prove_Ok [OF assms] obtain es out where es: "aggregate_receipts oc rs = Ok es"
    "execute_guest_logic oc sha256 \<lparr>in_entries = es, in_pool_id = pid\<rparr> = (Ok out :: distribution_output pr)"
    "public_inputs p = output_to_bytes out" "sp1_verify_batch p = Ok out" by blast
  have "out' = out" if "sp1_execute_batch execute (guest_main oc sha256) oc rs pid = Ok out'" for out'
    using zkvm.sp1_execute_Ok [OF assms(1) that] es(1,2) by auto
  then show ?thesis
    using es verify_batch_output [of out] by (auto simp: prove_batch_def Let_def)
qed

theorem sp1_agrees_with_mock_witness:
  "\<exists>p p'. sp1_prove_batch native_prove (guest_main True (\<lambda>_. 0)) True
      [\<lparr>c_weight = 3, c_signable_data = [], c_operator = 9, c_signer = 1, c_timestamp = 5, c_signature = []\<rparr>] 2 = Ok p \<and>
     prove_batch True (\<lambda>_. 0)
      [\<lparr>c_weight = 3, c_signable_data = [], c_operator = 9, c_signer = 1, c_timestamp = 5, c_signature = []\<rparr>] 2 = Ok p' \<and>
     sp1_verify_batch p = verify_batch p' \<and> proof_bytes p = [] \<and> length (public_inputs p) = 76"
proof -
  let ?rs = "[\<lparr>c_weight = 3, c_signable_data = [], c_operator = 9, c_signer = 1, c_timestamp = 5, c_signature = []\<rparr>] :: contribution list"
  obtain p where p: "sp1_prove_batch native_prove (guest_main True (\<lambda>_. 0)) True ?rs 2 = Ok p"
    and fields: "proof_bytes p = []" "length (public_inputs p) = 76"
    by (simp add: sp1_prove_batch_def native_prove_def aggregate_receipts_def add_weight_def add64_def guest_main_def
        guest_merkle_root_def Let_def)
  from sp1_agrees_with_mock [OF native.zkvm_axioms p] show ?thesis
    using p fields by auto
qed

text \<open>
  the verifier of the SP1 build looks at nothing but the length of the public inputs: it accepts
  a batch exactly when these are the encoding of an output, whatever the proof bytes, so that anybody
  can make it accept any root and total; it never panics.
\<close>

theorem sp1_verifier_ignores_proof:
  "(sp1_verify_batch p = Ok out \<longleftrightarrow> public_inputs p = output_to_bytes out) \<and>
   sp1_verify_batch \<lparr>proof_bytes = forged, public_inputs = output_to_bytes out\<rparr> = Ok out \<and>
   sp1_verify_batch p \<noteq> Panic"
  using committed.enc_dec [of "public_inputs p"]
  by (auto simp: sp1_verify_batch_def committed.enc_length committed.dec_enc)

text \<open>
  C35: the total a proof commits is the sum of the receipts' weights modulo \<open>2 ^ 64\<close>, and exact only
  below: the guest is built without overflow checks, so a batch whose weights exceed \<open>u64\<close> in sum,
  over operators that each stay below, is proved and verified with a wrapped total.
\<close>

theorem guest_total_is_modular:
  assumes "zkvm prove execute"
    and "sp1_prove_batch prove (guest_main False sha256) oc rs pid = Ok p"
  shows "\<exists>out. sp1_verify_batch p = Ok out \<and> out_pool_id out = pid \<and>
    unat (out_total_weight out) = sum_list (map (\<lambda>r. unat (c_weight r)) rs) mod 2 ^ 64 \<and>
    out_entry_count out = of_nat (card (c_operator ` set rs))"
proof -
  have "sum_list (map c_weight rs) = (of_nat (sum_list (map (\<lambda>r. unat (c_weight r)) rs)) :: u64)"
    by (induction rs) simp_all
  then have "unat (sum_list (map c_weight rs)) = sum_list (map (\<lambda>r. unat (c_weight r)) rs) mod 2 ^ 64"
    by (simp add: unsigned_of_nat take_bit_eq_mod)
  moreover obtain out where "sp1_verify_batch p = Ok out" "out_pool_id out = pid"
    "out_total_weight out = sum_list (map c_weight rs)"
    "out_entry_count out = of_nat (card (c_operator ` set rs))"
    by (rule zkvm.sp1_reads_aggregate [OF assms])
  ultimately show ?thesis by auto
qed

theorem guest_total_is_modular_witness:
  "\<exists>p out. sp1_prove_batch native_prove (guest_main False (\<lambda>_. 0)) True
      [\<lparr>c_weight = 2 ^ 63, c_signable_data = [], c_operator = 9, c_signer = 1, c_timestamp = 5, c_signature = []\<rparr>,
       \<lparr>c_weight = 2 ^ 63, c_signable_data = [], c_operator = 8, c_signer = 1, c_timestamp = 5, c_signature = []\<rparr>] 2 = Ok p \<and>
     sp1_verify_batch p = Ok out \<and> out_total_weight out = 0 \<and> out_entry_count out = 2"
proof -
  let ?rs = "[\<lparr>c_weight = 2 ^ 63, c_signable_data = [], c_operator = 9, c_signer = 1, c_timestamp = 5, c_signature = []\<rparr>,
       \<lparr>c_weight = 2 ^ 63, c_signable_data = [], c_operator = 8, c_signer = 1, c_timestamp = 5, c_signature = []\<rparr>] :: contribution list"
  obtain p where p: "sp1_prove_batch native_prove (guest_main False (\<lambda>_. 0)) True ?rs 2 = Ok p"
    by (simp add: sp1_prove_batch_def native_prove_def aggregate_receipts_def add_weight_def add64_def guest_main_def
        guest_merkle_root_eq compute_merkle_root_eq Let_def)
  from guest_total_is_modular [OF native.zkvm_axioms p] show ?thesis
    using p by (auto simp: unat_eq_0)
qed

end
