(* ===== verification/Payout.thy ===== *)
theory Payout
  imports Service Fee Guest
begin

text \<open>
  From receipts to lamports: the end of an epoch (\<open>Service\<close>, \<open>Batch\<close>, \<open>Prover\<close>) together with the
  payouts of \<open>settlement/src/fee.rs\<close> that the claims of its distributions ask for, and what is left of
  the receipts when a distribution cannot be submitted.
\<close>

section \<open>The payouts of a distribution\<close>

text \<open>One claim per operator, each paid in proportion to the posted total.\<close>

definition claim_payouts :: "u64 \<Rightarrow> u64 \<Rightarrow> u64 \<Rightarrow> entry list \<Rightarrow> ('e, (u64 \<times> u64) list) outcome" where
  "claim_payouts pool_balance fee_bps total_weight weights =
     otraverse (\<lambda>(operator, weight). calculate_proportional_payout pool_balance weight total_weight fee_bps) weights"

definition amount :: "u64 \<times> u64 \<Rightarrow> nat" where
  "amount = (\<lambda>(fee, payout). unat fee + unat payout)"

lemma otraverse_map: "otraverse f (map g xs) = otraverse (f \<circ> g) xs"
  by (induction xs) simp_all

lemma batch_payouts:
  assumes "rs \<noteq> []" and "list_all (\<lambda>r. timestamp r \<noteq> 0 \<and> storage_node r \<noteq> 0) rs" and "length rs < 2 ^ 64"
    and bps: "unat bps \<le> 5000"
  shows "\<exists>batch fps. build_batch True x pool rs = Ok batch \<and>
    claim_payouts balance bps (batch_total_weight batch) (batch_weights batch) = (Ok fps :: ('e, (u64 \<times> u64) list) outcome) \<and>
    sum_list (map amount fps) \<le> unat balance \<and>
    map amount fps = map (\<lambda>(operator, weight). unat balance * proofs_of rs operator div length rs) (batch_weights batch)"
proof -
  obtain batch where b: "build_batch True x pool rs = Ok batch" "unat (batch_total_weight batch) = length rs"
    "aggregate_receipts True (map contribution_of rs) = Ok (batch_weights batch)"
    using build_batch_Ok [OF assms(1-3), of True] by blast
  let ?es = "batch_weights batch" and ?t = "batch_total_weight batch"
  have t: "?t \<noteq> 0" using b(2) assms(1) by auto
  have w: "unat weight = proofs_of rs operator" if "(operator, weight) \<in> set ?es" for operator weight
  proof -
    have "distinct (map fst ?es)" using b(3) by (auto simp: aggregate_receipts_iff strict_sorted_iff)
    then have "map_of ?es operator = Some weight" using that by simp
    then have "weight = of_nat (proofs_of rs operator)"
      by (simp add: aggregate_proofs [OF b(3)] split: if_splits)
    then show ?thesis
      using proofs_of_le [of rs operator] assms(3) by (simp add: unsigned_of_nat take_bit_nat_eq_self)
  qed
  have "sum_list (map unat (map snd ?es)) = length rs"
    using aggregate_totals(1) [OF b(3)] sum_contributions [of rs] by (simp add: comp_def case_prod_unfold)
  then have "sum_list (map unat (map snd ?es)) \<le> unat ?t" using b(2) by simp
  from payouts_within_pool [OF bps this t, of balance, where 'e = 'e] obtain fps where
    run: "otraverse (\<lambda>w. calculate_proportional_payout balance w ?t bps) (map snd ?es) = (Ok fps :: ('e, (u64 \<times> u64) list) outcome)"
    and le: "sum_list (map amount fps) \<le> unat balance"
    and eq: "map amount fps = map (\<lambda>w. unat balance * unat w div unat ?t) (map snd ?es)"
    unfolding amount_def by blast
  have "claim_payouts balance bps ?t ?es = (Ok fps :: ('e, (u64 \<times> u64) list) outcome)"
    using run unfolding otraverse_map claim_payouts_def by (simp add: comp_def case_prod_unfold)
  moreover have "map amount fps = map (\<lambda>(operator, weight). unat balance * proofs_of rs operator div length rs) ?es"
    unfolding eq b(2) using w by auto
  ultimately show ?thesis using b(1) le by blast
qed

section \<open>What a round leaves\<close>

lemma process_epoch_end_clears:
  assumes "process_epoch_end oc bincode x order self = (Ok (results, self') :: ('e, _) outcome)"
  shows "pool_receipts (svc_collector self') = [] \<and> seen (svc_collector self') = {}"
proof -
  have "pool_receipts (svc_collector s') = [] \<and> seen (svc_collector s') = {}"
    if "advance_epoch oc s = (Ok s' :: ('e, service) outcome)" for s s'
    using that by (auto simp: advance_epoch_def reset_def set_persist_dir_def Let_def split: option.splits)
  with assms show ?thesis by (auto simp: process_epoch_end_def Let_def split: if_splits)
qed

section \<open>Properties\<close>

text \<open>
  C4: from receipts to lamports. Whatever is in the pools, the claims of the distributions that the end
  of an epoch posts never ask for more than the pool holds: for every pool, with any balance and any
  fee up to the cap, the payouts and fees of its operators are computed without a failure, each is
  the operator's exact share \<open>balance * receipts div all receipts\<close>, and together they stay within the
  balance.
\<close>

theorem epoch_payouts_within_pools:
  assumes reach: "collector_reachable x False (collector_new s e g) (svc_collector self)"
    and "window_start (svc_collector self) \<noteq> 0" and "receipt_count (svc_collector self) < 2 ^ 64"
    and order: "mset (order (pools (svc_collector self))) = mset (pools (svc_collector self))"
    and adv: "(unat (current_epoch self) + 2) * unat (epoch_duration_secs (svc_config self)) < 2 ^ 64"
      "epoch_duration_secs (svc_config self) \<noteq> 0"
    and bps: "unat bps \<le> 5000"
  shows "\<exists>txs self'. process_epoch_end True bincode x order self = (Ok (map Inr txs, self') :: ('e, _) outcome) \<and>
    list_all2 (\<lambda>p tx. \<exists>batch fps. let rs = the (map_of (pool_receipts (svc_collector self)) p) in
      build_batch True x p rs = Ok batch \<and> tx = build_post_distribution bincode x batch \<and>
      claim_payouts (balance p) bps (batch_total_weight batch) (tx_weights tx) = (Ok fps :: ('e, (u64 \<times> u64) list) outcome) \<and>
      sum_list (map amount fps) \<le> unat (balance p) \<and>
      map amount fps = map (\<lambda>(operator, weight). unat (balance p) * proofs_of rs operator div length rs) (tx_weights tx))
    (order (pools (svc_collector self))) txs"
proof -
  let ?q = "\<lambda>p. the (map_of (pool_receipts (svc_collector self)) p)"
  obtain txs self' where run: "process_epoch_end True bincode x order self = (Ok (map Inr txs, self') :: ('e, _) outcome)"
    and posts: "list_all2 (\<lambda>p tx. posts True bincode x p (?q p) tx) (order (pools (svc_collector self))) txs"
    and total: "sum_list (map (\<lambda>tx. sum_list (map (\<lambda>(op, w). unat w) (tx_weights tx))) txs) = receipt_count (svc_collector self)"
    using epoch_end_total [where oc = True and order = order and bincode = bincode and 'e = 'e,
      OF reach window_stamped [OF assms(1,2)] assms(3-6)] by blast
  have "\<exists>batch fps. let rs = ?q p in build_batch True x p rs = Ok batch \<and> tx = build_post_distribution bincode x batch \<and>
      claim_payouts (balance p) bps (batch_total_weight batch) (tx_weights tx) = (Ok fps :: ('e, (u64 \<times> u64) list) outcome) \<and>
      sum_list (map amount fps) \<le> unat (balance p) \<and>
      map amount fps = map (\<lambda>(operator, weight). unat (balance p) * proofs_of rs operator div length rs) (tx_weights tx)"
    if tx: "tx \<in> set txs" and post: "posts True bincode x p (?q p) tx" for p tx
  proof -
    have agg: "aggregate_receipts True (map contribution_of (?q p)) = Ok (tx_weights tx)"
      using post by (simp add: posts_def)
    have "list_all valid_receipt (map contribution_of (?q p))" and ne: "?q p \<noteq> []"
      using agg by (auto simp: aggregate_receipts_iff)
    then have ok: "list_all (\<lambda>r. timestamp r \<noteq> 0 \<and> storage_node r \<noteq> 0) (?q p)"
      by (simp add: list_all_iff valid_receipt_contribution)
    have "length (?q p) = sum_list (map (\<lambda>(op, w). unat w) (tx_weights tx))" using posts_total [OF post] by simp
    also have "\<dots> \<le> receipt_count (svc_collector self)"
      unfolding total [symmetric] using tx by (intro member_le_sum_list) simp_all
    finally have "length (?q p) < 2 ^ 64" using assms(3) by linarith
    from batch_payouts [OF ne ok this bps, of x p "balance p", where 'e = 'e] post show ?thesis
      by (auto simp: posts_def build_post_distribution_def Let_def)
  qed
  then have "list_all2 (\<lambda>p tx. \<exists>batch fps. let rs = ?q p in build_batch True x p rs = Ok batch \<and> tx = build_post_distribution bincode x batch \<and>
      claim_payouts (balance p) bps (batch_total_weight batch) (tx_weights tx) = (Ok fps :: ('e, (u64 \<times> u64) list) outcome) \<and>
      sum_list (map amount fps) \<le> unat (balance p) \<and>
      map amount fps = map (\<lambda>(operator, weight). unat (balance p) * proofs_of rs operator div length rs) (tx_weights tx))
    (order (pools (svc_collector self))) txs"
    using posts by (auto simp: list_all2_conv_all_nth)
  then show ?thesis using run by blast
qed

theorem epoch_payouts_within_pools_witness:
  "\<exists>txs self'. process_epoch_end True sample_bincode sample_externals rev sample_service =
      (Ok (map Inr txs, self') :: (unit, _) outcome) \<and> length txs = length (pools (svc_collector sample_service))"
proof -
  have "unat (500 :: u64) \<le> 5000" by simp
  from epoch_payouts_within_pools [where order = rev and bincode = sample_bincode and 'e = unit and balance = "\<lambda>_. 1000",
      OF sample_reachable sample_premises(1) sample_count _ sample_premises(4,5) this]
  obtain txs self' where "process_epoch_end True sample_bincode sample_externals rev sample_service =
      (Ok (map Inr txs, self') :: (unit, _) outcome)"
    and l: "list_all2 (\<lambda>p tx. \<exists>batch fps. let rs = the (map_of (pool_receipts (svc_collector sample_service)) p) in
      build_batch True sample_externals p rs = Ok batch \<and> tx = build_post_distribution sample_bincode sample_externals batch \<and>
      claim_payouts 1000 500 (batch_total_weight batch) (tx_weights tx) = (Ok fps :: (unit, (u64 \<times> u64) list) outcome) \<and>
      sum_list (map amount fps) \<le> unat (1000 :: u64) \<and>
      map amount fps = map (\<lambda>(operator, weight). unat (1000 :: u64) * proofs_of rs operator div length rs) (tx_weights tx))
    (rev (pools (svc_collector sample_service))) txs" by auto
  moreover have "length txs = length (pools (svc_collector sample_service))"
    using list_all2_lengthD [OF l] by simp
  ultimately show ?thesis by blast
qed

text \<open>
  C37: a distribution that cannot be submitted is lost with its receipts: the state a round of the
  service ends in is the same whatever the submitter answers, and in it the collector holds nothing
  and remembers nothing, so that no later round tries again.
\<close>

theorem failed_submission_loses_receipts:
  assumes "epoch_round oc bincode x order written now poll submit_ok st = (Ok (subs, self', fs') :: ('e, _) outcome)"
  shows "(\<exists>subs'. epoch_round oc bincode x order written now poll (\<lambda>tx. False) st = (Ok (subs', self', fs') :: ('e, _) outcome) \<and>
      list_all (\<lambda>s. case s of Submit tx \<Rightarrow> True | _ \<Rightarrow> False) subs') \<and>
    pool_receipts (svc_collector self') = [] \<and> seen (svc_collector self') = {}"
proof (intro conjI)
  obtain self fs where st: "st = (self, fs)" by fastforce
  from assms obtain n ending coll results where round: "add64 oc (current_epoch self) 1 = (Ok n :: ('e, u64) outcome)"
      "mul64 oc n (epoch_duration_secs (svc_config self)) = (Ok ending :: ('e, u64) outcome)"
      "drain_polls oc x written (map poll [0..<poll_count now ending]) (svc_collector self, fs) = (Ok (coll, fs') :: ('e, _) outcome)"
    and run: "process_epoch_end oc bincode x order (self\<lparr>svc_collector := coll\<rparr>) = (Ok (results, self') :: ('e, _) outcome)"
    unfolding st epoch_round_def by (auto split: prod.splits)
  then have again: "epoch_round oc bincode x order written now poll (\<lambda>tx. False) st =
      (Ok (concat (map (submissions (\<lambda>tx. False) (submit_claims (svc_config self'))) results), self', fs') :: ('e, _) outcome)"
    unfolding st epoch_round_def by simp
  have "list_all (\<lambda>s. case s of Submit tx \<Rightarrow> True | _ \<Rightarrow> False) (concat (map (submissions (\<lambda>tx. False) claims) results))" for claims
    by (auto simp: list_all_iff submissions_def split: sum.splits)
  with again show "\<exists>subs'. epoch_round oc bincode x order written now poll (\<lambda>tx. False) st = (Ok (subs', self', fs') :: ('e, _) outcome) \<and>
      list_all (\<lambda>s. case s of Submit tx \<Rightarrow> True | _ \<Rightarrow> False) subs'" by blast
  from process_epoch_end_clears [OF run]
  show "pool_receipts (svc_collector self') = []" "seen (svc_collector self') = {}" by simp_all
qed

theorem failed_submission_loses_receipts_witness:
  "\<exists>subs self' fs'. epoch_round True sample_bincode sample_externals rev (\<lambda>r. Appended) 8000 (\<lambda>i. []) (\<lambda>tx. True)
      (sample_service, Map.empty) = (Ok (subs, self', fs') :: (unit, _) outcome) \<and>
    receipt_count (svc_collector sample_service) = 1 \<and> pool_receipts (svc_collector self') = []"
proof -
  obtain txs self' where "process_epoch_end True sample_bincode sample_externals rev sample_service =
      (Ok (map Inr txs, self') :: (unit, _) outcome)"
    using epoch_end_total [where oc = True and order = rev and bincode = sample_bincode and 'e = unit,
      OF sample_reachable sample_stamped sample_count sample_premises(3-5)] by blast
  moreover have "current_epoch sample_service = 1" "epoch_duration_secs (svc_config sample_service) = 3600"
    by (simp_all add: sample_service_def default_aggregator_config_def)
  ultimately obtain subs fs' where run: "epoch_round True sample_bincode sample_externals rev (\<lambda>r. Appended) 8000 (\<lambda>i. []) (\<lambda>tx. True)
      (sample_service, Map.empty) = (Ok (subs, self', fs') :: (unit, _) outcome)"
    by (simp add: epoch_round_def add64_def mul64_def poll_count_def)
  from failed_submission_loses_receipts [OF this] run sample_premises(2) show ?thesis by blast
qed

text \<open>
  what a wrapped total does to a pool: two operators that are each owed little more than half of
  \<open>2 ^ 64\<close> are together entered with a total of 2, and every claim asks for more than the pool holds.
\<close>

theorem wrapped_total_overpays:
  "\<exists>p out fps. sp1_prove_batch native_prove (guest_main False (\<lambda>_. 0)) True
      [\<lparr>c_weight = 2 ^ 63 + 1, c_signable_data = [], c_operator = 9, c_signer = 1, c_timestamp = 5, c_signature = []\<rparr>,
       \<lparr>c_weight = 2 ^ 63 + 1, c_signable_data = [], c_operator = 8, c_signer = 1, c_timestamp = 5, c_signature = []\<rparr>] 2 = Ok p \<and>
     sp1_verify_batch p = Ok out \<and>
     claim_payouts 10 500 (out_total_weight out) [(8, 2 ^ 63 + 1), (9, 2 ^ 63 + 1)] = (Ok fps :: (unit, (u64 \<times> u64) list) outcome) \<and>
     list_all (\<lambda>fp. 10 < amount fp) fps"
proof -
  let ?rs = "[\<lparr>c_weight = 2 ^ 63 + 1, c_signable_data = [], c_operator = 9, c_signer = 1, c_timestamp = 5, c_signature = []\<rparr>,
       \<lparr>c_weight = 2 ^ 63 + 1, c_signable_data = [], c_operator = 8, c_signer = 1, c_timestamp = 5, c_signature = []\<rparr>] :: contribution list"
  obtain p where p: "sp1_prove_batch native_prove (guest_main False (\<lambda>_. 0)) True ?rs 2 = Ok p"
    by (simp add: sp1_prove_batch_def native_prove_def aggregate_receipts_def add_weight_def add64_def guest_main_def
        guest_merkle_root_eq compute_merkle_root_eq Let_def)
  from native.sp1_prove_Ok [OF p] obtain es out where v: "sp1_verify_batch p = Ok out"
    and es: "aggregate_receipts True ?rs = Ok es"
    and run: "execute_guest_logic False (\<lambda>_. 0) \<lparr>in_entries = es, in_pool_id = 2\<rparr> = (Ok out :: distribution_output pr)"
    by blast
  have "out_total_weight out = sum_list (map c_weight ?rs)"
    using execute_guest_logic_Ok [OF run aggregate_nonempty(1,2) [OF es]] aggregate_sum [OF es] by simp
  then have t: "out_total_weight out = 2" by simp
  have bps: "unat (500 :: u64) \<le> 5000" by simp
  from calculate_proportional_payout_Ok [OF bps, of 10 "2 ^ 63 + 1" 2, where 'e = unit] obtain fp where
    "calculate_proportional_payout 10 (2 ^ 63 + 1) 2 500 = (Ok fp :: (unit, u64 \<times> u64) outcome)"
    "amount fp = paid 10 2 (2 ^ 63 + 1)" by (auto simp: amount_def)
  moreover have "10 < paid 10 2 (2 ^ 63 + 1)" by (simp add: paid_def)
  ultimately have "claim_payouts 10 500 2 [(8, 2 ^ 63 + 1), (9, 2 ^ 63 + 1)] = (Ok [fp, fp] :: (unit, (u64 \<times> u64) list) outcome)"
    and "list_all (\<lambda>fp. 10 < amount fp) [fp, fp]" by (simp_all add: claim_payouts_def)
  then show ?thesis using p v t by metis
qed

end
