(* ===== verification/Gf256.thy ===== *)
theory Gf256
  imports Prelude
begin

text \<open>
  \<open>crates/erasure/src/gf256.rs\<close>: arithmetic of GF(2^8) with the polynomial 0x11D by log and exp
  tables. The tables are built by the loop of the source; the lemmas show that the table entries
  are the powers of the generator \<open>x\<close>, that the table multiplication is the carry-less product
  reduced by the polynomial (\<open>peasant\<close>, a bitwise reference), and that the byte operations are a
  field (\<open>instantiation gf :: field\<close>).
\<close>

named_theorems gf_simps \<open>the laws of the byte field\<close>

section \<open>The code\<close>

definition POLYNOMIAL :: u16 where
  "POLYNOMIAL = 0x11D"

record tables =
  tab_log :: "u8 list"
  tab_exp :: "u8 list"

text \<open>\<open>val <<= 1; if val & 0x100 != 0 { val ^= POLYNOMIAL }\<close>\<close>

definition shift_reduce :: "u16 \<Rightarrow> u16" where
  "shift_reduce val = (let v = push_bit 1 val in if v AND 0x100 \<noteq> 0 then v XOR POLYNOMIAL else v)"

definition table_step :: "nat \<Rightarrow> u16 \<times> u8 list \<times> u8 list \<Rightarrow> u16 \<times> u8 list \<times> u8 list" where
  "table_step i s = (case s of (val, log, exp) \<Rightarrow>
     (shift_reduce val, log[unat val := of_nat i], exp[i := ucast val]))"

definition TABLES :: tables where
  "TABLES = (case fold table_step [0..<255] (1, replicate 256 0, replicate 256 0) of
     (val, log, exp) \<Rightarrow> \<lparr>tab_log = log, tab_exp = exp[255 := exp ! 0]\<rparr>)"

definition gf_add :: "u8 \<Rightarrow> u8 \<Rightarrow> u8" where
  "gf_add a b = a XOR b"

definition gf_sub :: "u8 \<Rightarrow> u8 \<Rightarrow> u8" where
  "gf_sub a b = a XOR b"

definition gf_mul :: "u8 \<Rightarrow> u8 \<Rightarrow> u8" where
  "gf_mul a b =
     (if a = 0 \<or> b = 0 then 0
      else let log_sum = (ucast (tab_log TABLES ! unat a) + ucast (tab_log TABLES ! unat b) :: u16) mod 255
           in tab_exp TABLES ! unat log_sum)"

definition mul_table :: "u8 \<Rightarrow> u8 list" where
  "mul_table a =
     (if a = 0 then replicate 256 0
      else let log_a = ucast (tab_log TABLES ! unat a) :: u16
           in fold (\<lambda>x table. table[x := tab_exp TABLES ! unat ((log_a + ucast (tab_log TABLES ! x)) mod 255)])
                [1..<256] (replicate 256 0))"

definition gf_inv :: "u8 \<Rightarrow> u8 option" where
  "gf_inv a =
     (if a = 0 then None
      else let log_inv = (255 - ucast (tab_log TABLES ! unat a) :: u16) mod 255
           in Some (tab_exp TABLES ! unat log_inv))"

section \<open>Powers of the generator\<close>

text \<open>Multiplication by \<open>x\<close> on bytes; \<open>shift_reduce\<close> is its 16-bit form.\<close>

definition xtime :: "u8 \<Rightarrow> u8" where
  "xtime v = push_bit 1 v XOR (if bit v 7 then 0x1D else 0)"

abbreviation xpow :: "nat \<Rightarrow> u8" where
  "xpow n \<equiv> (xtime ^^ n) 1"

lemma shift_reduce_ucast: "shift_reduce (ucast v) = ucast (xtime v)"
proof -
  have "\<forall>v :: u8. shift_reduce (ucast v) = ucast (xtime v)"
    unfolding all_u8_iff by code_simp
  then show ?thesis ..
qed

lemma xtime_xor: "xtime (a XOR b) = xtime a XOR xtime b"
  by (rule bit_word_eqI) (auto simp: xtime_def bit_simps)

lemma xtime_0 [simp]: "xtime 0 = 0"
  by (simp add: xtime_def)

lemma xtime_eq_0 [simp]: "xtime v = 0 \<longleftrightarrow> v = 0"
proof -
  have "\<forall>v :: u8. xtime v = 0 \<longleftrightarrow> v = 0"
    unfolding all_u8_iff by code_simp
  then show ?thesis ..
qed

lemma xor_eq_0 [simp]: "a XOR b = 0 \<longleftrightarrow> a = (b :: 'a::len word)"
  by (metis xor.assoc xor.right_neutral xor_self_eq)

lemma xtime_inject [simp]: "xtime a = xtime b \<longleftrightarrow> a = b"
  by (metis xor_eq_0 xtime_eq_0 xtime_xor)

lemma xtimes_xor: "(xtime ^^ n) (a XOR b) = (xtime ^^ n) a XOR (xtime ^^ n) b"
  by (induction n) (simp_all add: xtime_xor)

lemma xtimes_0 [simp]: "(xtime ^^ n) 0 = 0"
  by (induction n) simp_all

lemma xtimes_inject [simp]: "(xtime ^^ n) a = (xtime ^^ n) b \<longleftrightarrow> a = b"
  by (induction n) simp_all

lemma xpow_nonzero [simp]: "xpow n \<noteq> 0"
  by (induction n) simp_all

lemma xtimes_xpow: "(xtime ^^ m) (xpow n) = xpow (m + n)"
  by (simp add: funpow_add)

text \<open>
  The order of \<open>x\<close> is 255: the 255th power is 1, and no power at a maximal proper divisor of 255
  (85, 51, 15) is.
\<close>

primrec xrun :: "nat \<Rightarrow> u8 \<Rightarrow> u8" where
  "xrun 0 v = v"
| "xrun (Suc n) v = xrun n (xtime v)"

lemma xrun_eq: "xrun n v = (xtime ^^ n) v"
  by (induction n arbitrary: v) (simp_all add: funpow_swap1)

lemma xpow_255: "xpow 255 = 1"
proof -
  have "xrun 255 1 = 1" by code_simp
  then show ?thesis by (simp only: xrun_eq)
qed

lemma xpow_divisors: "xpow 85 \<noteq> 1 \<and> xpow 51 \<noteq> 1 \<and> xpow 15 \<noteq> 1"
proof -
  have "xrun 85 1 \<noteq> 1 \<and> xrun 51 1 \<noteq> 1 \<and> xrun 15 1 \<noteq> 1" by code_simp
  then show ?thesis unfolding xrun_eq .
qed

lemma xpow_period: "xpow (255 * k + n) = xpow n"
proof (induction k)
  case (Suc k)
  have "xpow (255 * Suc k + n) = (xtime ^^ (255 * k + n)) (xpow 255)"
    by (simp only: xtimes_xpow) (simp add: algebra_simps)
  then show ?case using Suc by (simp add: xpow_255)
qed simp

lemma xpow_mod_255: "xpow (n mod 255) = xpow n"
  using xpow_period [of "n div 255" "n mod 255"] by (simp add: mult_div_mod_eq)

lemma xpow_eq_1_mult: "xpow d = 1 \<Longrightarrow> xpow (d * k) = 1"
proof (induction k)
  case (Suc k)
  have "xpow (d * Suc k) = (xtime ^^ (d * k)) (xpow d)"
    by (simp only: xtimes_xpow) (simp add: algebra_simps)
  with Suc show ?case by simp
qed simp

lemma xpow_eq_1_dvd:
  assumes "xpow d = 1" and "0 < d" and "d < 255"
  shows False
proof -
  obtain x y where xy: "d * x = 255 * y + gcd d 255"
    using bezout_nat [of d 255] assms(2) by auto
  let ?g = "gcd d 255"
  have "xpow (255 * y + ?g) = 1"
    using xpow_eq_1_mult [OF assms(1), of x] by (simp add: xy)
  then have g: "xpow ?g = 1"
    by (simp only: xpow_period)
  have "?g \<le> d"
    using assms(2) by (intro dvd_imp_le) simp_all
  moreover have "0 < ?g"
    using assms(2) by simp
  ultimately have "?g \<in> set [1..<255]"
    using assms(3) unfolding set_upt atLeastLessThan_iff by linarith
  moreover have "list_all (\<lambda>g. g dvd 255 \<longrightarrow> g dvd 85 \<or> g dvd 51 \<or> g dvd 15) [1..<255 :: nat]"
    by code_simp
  moreover have "?g dvd 255"
    by simp
  ultimately have "?g dvd 85 \<or> ?g dvd 51 \<or> ?g dvd 15"
    unfolding list_all_iff by blast
  then show False
    using xpow_eq_1_mult [OF g] xpow_divisors unfolding dvd_def by metis
qed

lemma xpow_inject:
  assumes "i < 255" and "j < 255"
  shows "xpow i = xpow j \<longleftrightarrow> i = j"
proof
  have wlog: "xpow i \<noteq> xpow j" if "i < j" "j < 255" for i j
  proof
    assume "xpow i = xpow j"
    then have "(xtime ^^ i) (xpow (j - i)) = (xtime ^^ i) 1"
      using that by (simp only: xtimes_xpow) simp
    then have "xpow (j - i) = 1" by simp
    then show False using xpow_eq_1_dvd [of "j - i"] that by (metis less_imp_diff_less zero_less_diff)
  qed
  assume "xpow i = xpow j"
  then show "i = j"
    using wlog [of i j] wlog [of j i] assms by (metis linorder_neqE_nat)
qed simp

text \<open>Every nonzero byte is a power of \<open>x\<close>.\<close>

lemma card_u8: "card (UNIV :: u8 set) = 256"
proof -
  have "(UNIV :: u8 set) = of_nat ` {0..<256}"
    using all_u8_iff [of "\<lambda>x. x \<in> of_nat ` {0..<256}"] by (auto simp: list_all_iff)
  moreover have "inj_on (of_nat :: nat \<Rightarrow> u8) {0..<256}"
    by (rule inj_on_inverseI [where g = unat]) (simp add: unsigned_of_nat take_bit_eq_mod)
  ultimately show ?thesis by (metis card_image card_atLeastLessThan diff_zero)
qed

lemma xpow_image: "xpow ` {0..<255} = UNIV - {0}"
proof (rule card_subset_eq)
  show "card (xpow ` {0..<255}) = card (UNIV - {0} :: u8 set)"
    by (subst card_image) (auto simp: inj_on_def xpow_inject card_u8)
qed auto

lemma xpow_cases:
  assumes "a \<noteq> 0"
  obtains i where "i < 255" and "a = xpow i"
proof -
  from assms have "a \<in> xpow ` {0..<255}"
    by (simp add: xpow_image)
  then show thesis by (auto intro: that)
qed

section \<open>The tables hold the powers\<close>

lemma ucast_ucast_u16 [simp]: "ucast (ucast (v :: u8) :: u16) = v"
  by (rule bit_word_eqI) (auto simp: bit_simps)

lemma table_step_triple:
  "table_step i (val, log, exp) = (shift_reduce val, log[unat val := of_nat i], exp[i := ucast val])"
  by (simp add: table_step_def)

lemma table_loop:
  assumes "n \<le> 255"
  shows "\<exists>log exp. fold table_step [0..<n] (1, replicate 256 0, replicate 256 0) = (ucast (xpow n), log, exp)
    \<and> length log = 256 \<and> length exp = 256
    \<and> (\<forall>j < n. exp ! j = xpow j \<and> log ! unat (xpow j) = of_nat j)"
  using assms
proof (induction n)
  case (Suc n)
  then obtain log exp where IH:
    "fold table_step [0..<n] (1, replicate 256 0, replicate 256 0) = (ucast (xpow n), log, exp)"
    "length log = 256" "length exp = 256"
    "\<forall>j < n. exp ! j = xpow j \<and> log ! unat (xpow j) = of_nat j"
    by auto
  have "unat (xpow n) < 2 ^ 16"
    by (rule less_trans [OF unat_u8_less]) simp
  then have "unat (ucast (xpow n) :: u16) = unat (xpow n)"
    by (simp add: unsigned_ucast_eq take_bit_nat_eq_self)
  moreover have "unat (xpow n) \<noteq> unat (xpow j)" if "j < n" for j
    using that Suc.prems xpow_inject [of n j] by (simp only: word_unat_eq_iff [symmetric])
  ultimately show ?case
    using IH Suc.prems
    by (auto simp: table_step_triple shift_reduce_ucast nth_list_update less_Suc_eq all_conj_distrib)
qed simp

lemma TABLES_spec:
  "length (tab_log TABLES) = 256" "length (tab_exp TABLES) = 256"
  "j < 255 \<Longrightarrow> tab_exp TABLES ! j = xpow j"
  "j < 255 \<Longrightarrow> tab_log TABLES ! unat (xpow j) = of_nat j"
  using table_loop [of 255] by (auto simp: TABLES_def)

lemma unat_ucast_u16 [simp]: "unat (ucast (x :: u8) :: u16) = unat x"
proof -
  have "unat x < 2 ^ 16" by (rule less_trans [OF unat_u8_less]) simp
  then show ?thesis by (simp add: unsigned_ucast_eq take_bit_nat_eq_self)
qed

lemma log_sum_exp:
  assumes "i < 255" and "j < 255"
  shows "tab_exp TABLES ! unat ((ucast (tab_log TABLES ! unat (xpow i)) + ucast (tab_log TABLES ! unat (xpow j)) :: u16) mod 255)
    = xpow (i + j)"
proof -
  have "unat (ucast (of_nat i :: u8) + ucast (of_nat j :: u8) :: u16) = i + j"
    using assms by (simp add: unat_word_ariths unsigned_of_nat take_bit_eq_mod)
  then show ?thesis
    using assms by (simp add: TABLES_spec unat_mod_distrib xpow_mod_255)
qed

lemma gf_mul_xpow: "i < 255 \<Longrightarrow> gf_mul (xpow i) b = (xtime ^^ i) b"
proof (cases "b = 0")
  case False
  assume "i < 255"
  from False obtain j where "j < 255" "b = xpow j" by (rule xpow_cases)
  with \<open>i < 255\<close> show ?thesis by (simp add: gf_mul_def Let_def log_sum_exp xtimes_xpow)
qed (simp add: gf_mul_def)

section \<open>Laws of the field\<close>

lemma gf_mul_0 [simp, gf_simps]: "gf_mul 0 b = 0" "gf_mul a 0 = 0"
  by (simp_all add: gf_mul_def)

lemma gf_mul_1 [simp, gf_simps]: "gf_mul 1 b = b"
  using gf_mul_xpow [of 0] by simp

lemma gf_mul_commute: "gf_mul a b = gf_mul b a"
  by (simp add: gf_mul_def add.commute)

lemma gf_mul_1_right [simp, gf_simps]: "gf_mul b 1 = b"
  by (simp add: gf_mul_commute [of b])

lemma gf_mul_xtimes: "\<exists>i. \<forall>b. gf_mul a b = (if a = 0 then 0 else (xtime ^^ i) b)"
proof (cases "a = 0")
  case False
  then obtain i where "i < 255" "a = xpow i" by (rule xpow_cases)
  then show ?thesis using gf_mul_xpow by auto
qed simp

lemma gf_mul_xor: "gf_mul a (b XOR c) = gf_mul a b XOR gf_mul a c"
  using gf_mul_xtimes [of a] by (metis xor.right_neutral xtimes_xor)

lemma gf_mul_xor_left: "gf_mul (a XOR b) c = gf_mul a c XOR gf_mul b c"
  by (simp add: gf_mul_commute [of _ c] gf_mul_xor)

lemma gf_mul_assoc: "gf_mul (gf_mul a b) c = gf_mul a (gf_mul b c)"
proof (cases "a = 0 \<or> b = 0")
  case False
  then obtain i j where ij: "i < 255" "a = xpow i" "j < 255" "b = xpow j"
    by (metis xpow_cases)
  have "gf_mul (xpow i) (xpow j) = xpow ((i + j) mod 255)"
    using ij by (simp only: gf_mul_xpow xtimes_xpow xpow_mod_255)
  moreover have "(i + j) mod 255 < 255" by simp
  ultimately have "gf_mul (gf_mul a b) c = (xtime ^^ ((i + j) mod 255)) c"
    using ij(2,4) gf_mul_xpow by simp
  also have "\<dots> = (xtime ^^ (i + j)) c"
  proof (cases "c = 0")
    case False
    then obtain k where "c = xpow k" by (rule xpow_cases)
    then show ?thesis
      by (simp only: xtimes_xpow) (metis mod_add_left_eq xpow_mod_255)
  qed simp
  finally show ?thesis
    using ij by (simp add: gf_mul_xpow funpow_add)
qed auto

lemma gf_mul_eq_0 [simp, gf_simps]: "gf_mul a b = 0 \<longleftrightarrow> a = 0 \<or> b = 0"
proof (cases "a = 0")
  case False
  then obtain i where "i < 255" "a = xpow i" by (rule xpow_cases)
  then have "gf_mul a b = (xtime ^^ i) b" "(xtime ^^ i) b = (xtime ^^ i) 0 \<longleftrightarrow> b = 0"
    by (simp_all only: gf_mul_xpow xtimes_inject)
  with False show ?thesis by simp
qed simp

lemma gf_inv_Some:
  assumes "a \<noteq> 0"
  obtains b where "gf_inv a = Some b" and "gf_mul a b = 1" and "b \<noteq> 0"
proof -
  from assms obtain i where i: "i < 255" "a = xpow i" by (rule xpow_cases)
  let ?j = "(255 - i) mod 255"
  have "unat ((255 - ucast (of_nat i :: u8) :: u16) mod 255) = ?j"
  proof -
    have "unat (255 - ucast (of_nat i :: u8) :: u16) = 255 - i"
      using i(1) by (subst unat_sub) (simp_all add: word_le_nat_alt unsigned_of_nat take_bit_eq_mod)
    then show ?thesis by (simp add: unat_mod_distrib)
  qed
  then have "gf_inv a = Some (xpow ?j)"
    using i by (simp add: gf_inv_def TABLES_spec)
  moreover have "gf_mul a (xpow ?j) = 1"
  proof -
    have "gf_mul a (xpow ?j) = xpow ((i + (255 - i)) mod 255)"
      using i by (simp only: gf_mul_xpow xtimes_xpow) (metis mod_add_right_eq xpow_mod_255)
    then show ?thesis using i(1) by simp
  qed
  ultimately show thesis by (rule that) simp
qed

lemma gf_inv_eq: "gf_mul a b = 1 \<Longrightarrow> gf_inv a = Some b"
proof -
  assume ab: "gf_mul a b = 1"
  then have "a \<noteq> 0" by auto
  then obtain c where c: "gf_inv a = Some c" "gf_mul a c = 1" by (rule gf_inv_Some)
  have "b = gf_mul (gf_mul c a) b" by (simp add: c gf_mul_commute [of c])
  also have "\<dots> = c" by (simp only: gf_mul_assoc ab) simp
  finally show ?thesis by (simp add: c)
qed

lemma gf_inv_0 [simp, gf_simps]: "gf_inv 0 = None"
  by (simp add: gf_inv_def)

lemma gf_inv_eq_None [simp]: "gf_inv a = None \<longleftrightarrow> a = 0"
  by (cases "a = 0") (auto elim: gf_inv_Some)

section \<open>The multiplication table of a scalar\<close>

lemma mul_table_nth: "i < 256 \<Longrightarrow> mul_table a ! i = gf_mul a (of_nat i)"
proof -
  assume i: "i < 256"
  then have u: "unat (of_nat i :: u8) = i" by (simp add: unsigned_of_nat take_bit_eq_mod)
  have z: "(of_nat i :: u8) = 0 \<longleftrightarrow> i = 0"
  proof
    assume "(of_nat i :: u8) = 0"
    then have "unat (of_nat i :: u8) = 0" by (simp only: unsigned_0)
    with u show "i = 0" by (simp only:)
  qed simp
  show ?thesis
  proof (cases "a = 0")
    case False
    let ?f = "\<lambda>x. tab_exp TABLES !
      unat ((ucast (tab_log TABLES ! unat a) + ucast (tab_log TABLES ! x) :: u16) mod 255)"
    have "mul_table a = fold (\<lambda>x table. table[x := ?f x]) [1..<256] (replicate 256 0)"
      by (simp only: mul_table_def Let_def False if_False)
    then have "mul_table a ! i = (if 1 \<le> i \<and> i < 256 then ?f i else replicate 256 0 ! i)"
      using fold_update [of ?f 1 256 "replicate 256 0" i] i by (simp only: length_replicate order_refl simp_thms)
    then show ?thesis
      using False i u z by (auto simp: gf_mul_def Let_def)
  qed (use i in \<open>simp add: mul_table_def\<close>)
qed

lemma length_mul_table [simp]: "length (mul_table a) = 256"
proof (cases "a = 0")
  case False
  show ?thesis
    unfolding mul_table_def Let_def if_not_P [OF False] by (subst fold_update [THEN conjunct1]) simp
qed (simp add: mul_table_def)

lemma mul_table_unat [simp, gf_simps]: "mul_table a ! unat x = gf_mul a x"
  by (simp add: mul_table_nth)

section \<open>The reference: carry-less product modulo the polynomial\<close>

text \<open>Shift-and-add over the bits of \<open>a\<close>, reducing after every shift of \<open>b\<close>.\<close>

primrec peasant :: "nat \<Rightarrow> u8 \<Rightarrow> u8 \<Rightarrow> u8" where
  "peasant 0 a b = 0"
| "peasant (Suc n) a b = (if bit a 0 then b else 0) XOR peasant n (drop_bit 1 a) (xtime b)"

lemma gf_mul_xtime: "gf_mul (xtime a) b = gf_mul a (xtime b)"
proof -
  have x: "gf_mul 2 c = xtime c" for c
    using gf_mul_xpow [of 1 c] by (simp add: xtime_def)
  have "gf_mul (xtime a) b = gf_mul (gf_mul a 2) b"
    by (simp add: x gf_mul_commute [of a])
  then show ?thesis by (simp add: x gf_mul_assoc)
qed

lemma peasant_take_bit: "n \<le> 8 \<Longrightarrow> peasant n a b = gf_mul (take_bit n a) b"
proof (induction n arbitrary: a b)
  case (Suc n)
  have "xtime (take_bit n (drop_bit 1 a)) = push_bit 1 (take_bit n (drop_bit 1 a))"
    using Suc.prems by (simp add: xtime_def bit_simps del: push_bit_Suc)
  moreover have "take_bit (Suc n) a = (if bit a 0 then 1 else 0) XOR push_bit 1 (take_bit n (drop_bit 1 a))"
    by (rule bit_word_eqI) (auto simp: bit_simps less_Suc_eq_0_disj simp del: push_bit_Suc)
  ultimately have "gf_mul (take_bit (Suc n) a) b
      = gf_mul (if bit a 0 then 1 else 0) b XOR gf_mul (take_bit n (drop_bit 1 a)) (xtime b)"
    by (simp only: gf_mul_xor_left flip: gf_mul_xtime)
  with Suc show ?case by simp
qed simp

lemma gf_mul_peasant [code]: "gf_mul a b = peasant 8 a b"
  by (simp add: peasant_take_bit take_bit_word_eq_self)

text \<open>For evaluation: the inverse is the 254th power, by squaring.\<close>

definition gf_pow254 :: "u8 \<Rightarrow> u8" where
  "gf_pow254 a =
     (let a2 = gf_mul a a; a4 = gf_mul a2 a2; a8 = gf_mul a4 a4; a16 = gf_mul a8 a8;
          a32 = gf_mul a16 a16; a64 = gf_mul a32 a32; a128 = gf_mul a64 a64
      in gf_mul a2 (gf_mul a4 (gf_mul a8 (gf_mul a16 (gf_mul a32 (gf_mul a64 a128))))))"

lemma gf_mul_xpows: "gf_mul (xpow i) (xpow j) = xpow (i + j)"
proof -
  have "gf_mul (xpow (i mod 255)) (xpow j) = xpow (i mod 255 + j)"
    by (simp only: gf_mul_xpow mod_less_divisor zero_less_numeral xtimes_xpow)
  then show ?thesis by (metis mod_add_left_eq xpow_mod_255)
qed

lemma gf_inv_code [code]: "gf_inv a = (if a = 0 then None else Some (gf_pow254 a))"
proof (cases "a = 0")
  case False
  then obtain i where i: "a = xpow i" by (rule xpow_cases)
  have "gf_mul a (gf_pow254 a) = xpow (255 * i + 0)"
    unfolding gf_pow254_def Let_def i gf_mul_xpows by (rule arg_cong [where f = xpow]) simp
  then have "gf_mul a (gf_pow254 a) = 1"
    by (simp only: xpow_period) simp
  with False show ?thesis by (simp add: gf_inv_eq)
qed simp

section \<open>The field as a type\<close>

datatype gf = Gf (gf_byte: u8)

instantiation gf :: field
begin

definition zero_gf :: gf where "zero_gf = Gf 0"
definition one_gf :: gf where "one_gf = Gf 1"
definition plus_gf :: "gf \<Rightarrow> gf \<Rightarrow> gf" where "plus_gf a b = Gf (gf_add (gf_byte a) (gf_byte b))"
definition minus_gf :: "gf \<Rightarrow> gf \<Rightarrow> gf" where "minus_gf a b = Gf (gf_sub (gf_byte a) (gf_byte b))"
definition uminus_gf :: "gf \<Rightarrow> gf" where "uminus_gf a = a"
definition times_gf :: "gf \<Rightarrow> gf \<Rightarrow> gf" where "times_gf a b = Gf (gf_mul (gf_byte a) (gf_byte b))"
definition inverse_gf :: "gf \<Rightarrow> gf" where
  "inverse_gf a = Gf (case gf_inv (gf_byte a) of None \<Rightarrow> 0 | Some b \<Rightarrow> b)"
definition divide_gf :: "gf \<Rightarrow> gf \<Rightarrow> gf" where "divide_gf a b = a * inverse b"

instance
proof
  fix a b c :: gf
  show "a + b + c = a + (b + c)" by (simp add: plus_gf_def gf_add_def xor.assoc)
  show "a + b = b + a" by (simp add: plus_gf_def gf_add_def xor.commute)
  show "0 + a = a" by (simp add: plus_gf_def gf_add_def zero_gf_def)
  show "- a + a = 0" by (simp add: plus_gf_def gf_add_def zero_gf_def uminus_gf_def)
  show "a - b = a + - b" by (simp add: plus_gf_def gf_add_def minus_gf_def gf_sub_def uminus_gf_def)
  show "a * b * c = a * (b * c)" by (simp add: times_gf_def gf_mul_assoc)
  show "a * b = b * a" by (simp add: times_gf_def gf_mul_commute)
  show "1 * a = a" by (simp add: times_gf_def one_gf_def)
  show "(a + b) * c = a * c + b * c" by (simp add: times_gf_def plus_gf_def gf_add_def gf_mul_xor_left)
  show "(0 :: gf) \<noteq> 1" by (simp add: zero_gf_def one_gf_def)
  show "a div b = a * inverse b" by (simp add: divide_gf_def)
  show "inverse (0 :: gf) = 0" by (simp add: inverse_gf_def zero_gf_def)
  assume "a \<noteq> 0"
  then have "gf_byte a \<noteq> 0" by (cases a) (simp add: zero_gf_def)
  then obtain b where "gf_inv (gf_byte a) = Some b" "gf_mul (gf_byte a) b = 1"
    by (rule gf_inv_Some)
  then show "inverse a * a = 1"
    by (simp add: inverse_gf_def times_gf_def one_gf_def gf_mul_commute [of b])
qed

end

lemma Gf_simps [gf_simps]:
  "Gf a + Gf b = Gf (a XOR b)" "Gf a * Gf b = Gf (gf_mul a b)" "Gf a - Gf b = Gf (a XOR b)"
  "Gf 0 = 0" "Gf 1 = 1" "- Gf a = Gf a"
  by (simp_all add: plus_gf_def times_gf_def minus_gf_def zero_gf_def one_gf_def uminus_gf_def
      gf_add_def gf_sub_def)

lemma Gf_eq_0 [simp]: "Gf a = 0 \<longleftrightarrow> a = 0"
  by (simp add: zero_gf_def)

section \<open>Properties\<close>

text \<open>
  C29: the table-driven multiplication of the code is the product of GF(2)[x] modulo
  x^8 + x^4 + x^3 + x^2 + 1, computed bit by bit.
\<close>

theorem gf_mul_is_polynomial_product: "gf_mul a b = peasant 8 a b"
  by (simp add: peasant_take_bit take_bit_word_eq_self)

text \<open>
  the byte operations of the code are a field: addition and subtraction coincide, the
  multiplication is associative, commutative and distributes over addition, 1 is neutral,
  \<open>inv\<close> fails exactly on 0 and otherwise returns the one byte whose product with \<open>a\<close> is 1, and there
  are no zero divisors.
\<close>

theorem gf256_is_a_field:
  "gf_add a b = gf_sub a b \<and> gf_add a a = 0 \<and>
   gf_mul (gf_mul a b) c = gf_mul a (gf_mul b c) \<and>
   gf_mul a b = gf_mul b a \<and>
   gf_mul a (gf_add b c) = gf_add (gf_mul a b) (gf_mul a c) \<and>
   gf_mul 1 a = a \<and>
   (gf_inv a = None \<longleftrightarrow> a = 0) \<and>
   (gf_inv a = Some b \<longleftrightarrow> gf_mul a b = 1) \<and>
   (gf_mul a b = 0 \<longleftrightarrow> a = 0 \<or> b = 0)"
proof -
  have "gf_inv a = Some b \<longleftrightarrow> gf_mul a b = 1"
  proof (cases "a = 0")
    case False
    then obtain c where "gf_inv a = Some c" "gf_mul a c = 1" by (rule gf_inv_Some)
    then show ?thesis by (auto dest: gf_inv_eq)
  qed simp
  then show ?thesis
    by (intro conjI gf_mul_assoc gf_mul_commute gf_inv_eq_None gf_mul_eq_0)
      (simp_all add: gf_add_def gf_sub_def gf_mul_xor)
qed

text \<open>
  the 256-entry table built for a scalar agrees with the multiplication at every byte, so the
  loops that look products up in it compute the field product.
\<close>

theorem mul_table_correct: "length (mul_table a) = 256 \<and> mul_table a ! unat x = gf_mul a x"
  by simp

end
