(* ===== verification/Rows.thy ===== *)
theory Rows
  imports Gf256
begin

text \<open>
  Row operations over GF(2^8), the part the decoder, the rank computation and the repair code of
  \<open>crates/erasure/src/lib.rs\<close> share: scaling a row, adding a multiple of the pivot row
  (\<open>iter_mut().zip()\<close>, which stops at the shorter of the two), the search for a pivot, the
  elimination of a column, and the column loop. A row too short for the column that is read makes
  the code panic, and the model too.

  The library half: \<open>pivot_step\<close>, the panic-free effect of one column on a rectangular matrix; the
  locale \<open>row_closed\<close> of row properties that survive row operations in both directions; and the
  invariant \<open>reduced\<close> of the column loop.
\<close>

named_theorems row_simps \<open>entries and lengths of transformed rows\<close>

section \<open>The code\<close>

text \<open>\<open>for (mv, &pv) in row.iter_mut().zip(pivot_row.iter()) { *mv = add(*mv, mul(factor, pv)) }\<close>\<close>

fun axpy :: "u8 \<Rightarrow> bytes \<Rightarrow> bytes \<Rightarrow> bytes" where
  "axpy f (p # ps) (r # rs) = gf_add r (gf_mul f p) # axpy f ps rs"
| "axpy f [] rs = rs"
| "axpy f ps [] = []"

text \<open>The same loop with the products looked up: \<open>*r ^= table[p as usize]\<close>.\<close>

fun axpy_table :: "u8 list \<Rightarrow> bytes \<Rightarrow> bytes \<Rightarrow> bytes" where
  "axpy_table t (p # ps) (r # rs) = (r XOR t ! unat p) # axpy_table t ps rs"
| "axpy_table t [] rs = rs"
| "axpy_table t ps [] = []"

definition scale_row :: "u8 \<Rightarrow> bytes \<Rightarrow> bytes" where
  "scale_row c row = map (\<lambda>v. gf_mul v c) row"

definition scale_table :: "u8 list \<Rightarrow> bytes \<Rightarrow> bytes" where
  "scale_table t row = map (\<lambda>v. t ! unat v) row"

definition swap_rows :: "nat \<Rightarrow> nat \<Rightarrow> 'a list \<Rightarrow> 'a list" where
  "swap_rows i j xs = xs[i := xs ! j, j := xs ! i]"

text \<open>\<open>(rank..rows).find(|&r| matrix[r][col] != 0)\<close>, on the rows from \<open>rank\<close> on, counted from there.\<close>

fun find_nz :: "nat \<Rightarrow> bytes list \<Rightarrow> ('e, nat option) outcome" where
  "find_nz col [] = Ok None"
| "find_nz col (row # rows) =
     obind (oidx row col) (\<lambda>v. if v \<noteq> 0 then Ok (Some 0)
                                 else omap (map_option Suc) (find_nz col rows))"

text \<open>\<open>for row in 0..rows\<close>: subtract the pivot row, times the row's entry in the column.\<close>

fun elim_from :: "nat \<Rightarrow> nat \<Rightarrow> nat \<Rightarrow> bytes \<Rightarrow> bytes list \<Rightarrow> ('e, bytes list) outcome" where
  "elim_from i rank col pivot_row [] = Ok []"
| "elim_from i rank col pivot_row (row # rows) =
     obind (if i = rank then Ok row
            else obind (oidx row col) (\<lambda>factor.
                   Ok (if factor = 0 then row else axpy factor pivot_row row)))
       (\<lambda>row'. obind (elim_from (Suc i) rank col pivot_row rows) (\<lambda>rest. Ok (row' # rest)))"

type_synonym elim_state = "bytes list \<times> nat \<times> nat list" \<comment> \<open>matrix, rank, pivot columns\<close>

text \<open>
  One column. \<open>on_zero\<close> says what the code does when \<open>inv\<close> returns \<open>None\<close>: \<open>continue\<close> in the rank
  computations, \<open>return None\<close> in the repair code.
\<close>

definition reduce_col :: "(elim_state \<Rightarrow> ('e, elim_state) outcome) \<Rightarrow> nat \<Rightarrow> elim_state \<Rightarrow> ('e, elim_state) outcome" where
  "reduce_col on_zero col st = (case st of (matrix, rank, pivot_cols) \<Rightarrow>
     obind (find_nz col (drop rank matrix)) (\<lambda>pivot. case pivot of
         None \<Rightarrow> Ok (matrix, rank, pivot_cols)
       | Some d \<Rightarrow>
           let matrix = swap_rows rank (rank + d) matrix in
           obind (oidx (matrix ! rank) col) (\<lambda>v. case gf_inv v of
               None \<Rightarrow> on_zero (matrix, rank, pivot_cols)
             | Some iv \<Rightarrow>
                 let matrix = matrix[rank := scale_row iv (matrix ! rank)] in
                 obind (elim_from 0 rank col (matrix ! rank) matrix) (\<lambda>matrix.
                   Ok (matrix, rank + 1, pivot_cols @ [col])))))"

text \<open>The column loop, left early when a new pivot brings the rank to \<open>stop\<close>.\<close>

fun reduce_cols :: "(elim_state \<Rightarrow> ('e, elim_state) outcome) \<Rightarrow> nat \<Rightarrow> nat list \<Rightarrow> elim_state \<Rightarrow> ('e, elim_state) outcome" where
  "reduce_cols on_zero stop [] st = Ok st"
| "reduce_cols on_zero stop (col # cols) st =
     obind (reduce_col on_zero col st) (\<lambda>st'.
       if fst (snd st') \<noteq> fst (snd st) \<and> fst (snd st') = stop then Ok st'
       else reduce_cols on_zero stop cols st')"

section \<open>Entries of transformed rows\<close>

lemma length_axpy [simp, row_simps]: "length (axpy f ps rs) = length rs"
  by (induction f ps rs rule: axpy.induct) simp_all

lemma axpy_nth [simp, row_simps]:
  "i < length ps \<Longrightarrow> i < length rs \<Longrightarrow> axpy f ps rs ! i = rs ! i XOR gf_mul f (ps ! i)"
proof (induction f ps rs arbitrary: i rule: axpy.induct)
  case (1 f p ps r rs)
  then show ?case by (cases i) (simp_all add: gf_add_def)
qed simp_all

lemma axpy_0 [simp]: "axpy 0 ps rs = rs"
  by (induction "0 :: u8" ps rs rule: axpy.induct) (simp_all add: gf_add_def)

lemma axpy_table_eq [simp]: "axpy_table (mul_table f) ps rs = axpy f ps rs"
  by (induction f ps rs rule: axpy.induct) (simp_all add: gf_add_def)

lemma length_scale_row [simp, row_simps]: "length (scale_row c row) = length row"
  by (simp add: scale_row_def)

lemma scale_row_nth [simp, row_simps]: "i < length row \<Longrightarrow> scale_row c row ! i = gf_mul (row ! i) c"
  by (simp add: scale_row_def)

lemma scale_table_eq [simp]: "scale_table (mul_table c) row = scale_row c row"
  by (simp add: scale_table_def scale_row_def gf_mul_commute)

lemma length_swap_rows [simp, row_simps]: "length (swap_rows i j xs) = length xs"
  by (simp add: swap_rows_def)

lemma swap_rows_nth:
  "i < length xs \<Longrightarrow> j < length xs \<Longrightarrow> r < length xs \<Longrightarrow>
    swap_rows i j xs ! r = xs ! (if r = i then j else if r = j then i else r)"
  by (auto simp: swap_rows_def nth_list_update)

section \<open>Dot products and linear combinations\<close>

fun dot :: "bytes \<Rightarrow> bytes \<Rightarrow> u8" where
  "dot (u # us) (v # vs) = gf_mul u v XOR dot us vs"
| "dot [] vs = 0"
| "dot us [] = 0"

text \<open>\<open>c\<^sub>0 p\<^sub>0 + c\<^sub>1 p\<^sub>1 + \<dots>\<close>, as a vector of length \<open>n\<close>.\<close>

fun lincomb :: "nat \<Rightarrow> bytes \<Rightarrow> bytes list \<Rightarrow> bytes" where
  "lincomb n (c # cs) (p # ps) = axpy c p (lincomb n cs ps)"
| "lincomb n [] ps = replicate n 0"
| "lincomb n cs [] = replicate n 0"

lemma dot_Nil2 [simp]: "dot us [] = 0"
  by (cases us) simp_all

lemma dot_axpy: "length u = length v \<Longrightarrow> dot (axpy c u v) w = dot v w XOR gf_mul c (dot u w)"
proof (induction u v arbitrary: w rule: list_induct2)
  case (Cons x xs y ys)
  then show ?case
    by (cases w) (simp_all add: gf_add_def gf_mul_xor gf_mul_xor_left gf_mul_assoc
        xor.assoc xor.left_commute)
qed simp

lemma dot_scale_row: "dot (scale_row c u) w = gf_mul c (dot u w)"
proof (induction u arbitrary: w)
  case (Cons x xs)
  then show ?case
    by (cases w) (simp_all add: scale_row_def gf_mul_xor gf_mul_assoc gf_mul_commute [of x])
qed (simp add: scale_row_def)

lemma dot_append:
  "length u = length v \<Longrightarrow> dot (u @ u') (v @ v') = dot u v XOR dot u' v'"
  by (induction u v rule: list_induct2) (simp_all add: xor.assoc)

lemma dot_replicate_0 [simp]: "dot (replicate n 0) w = 0"
proof (induction n arbitrary: w)
  case (Suc n)
  then show ?case by (cases w) simp_all
qed simp

lemma dot_commute: "dot u v = dot v u"
  by (induction u v rule: dot.induct) (simp_all add: gf_mul_commute)

lemma dot_unit:
  "i < length w \<Longrightarrow> dot ((replicate n 0)[i := 1]) w = (if i < n then w ! i else 0)"
proof (induction n arbitrary: i w)
  case (Suc n)
  then show ?case by (cases w; cases i) simp_all
qed simp

lemma length_lincomb [simp, row_simps]: "length (lincomb n cs ps) = n"
  by (induction n cs ps rule: lincomb.induct) simp_all

lemma lincomb_nth:
  "\<forall>p \<in> set ps. length p = n \<Longrightarrow> i < n \<Longrightarrow> lincomb n cs ps ! i = dot cs (map (\<lambda>p. p ! i) ps)"
  by (induction n cs ps rule: lincomb.induct) (simp_all add: xor.commute)

lemma dot_lincomb:
  "\<forall>p \<in> set ps. length p = n \<Longrightarrow> dot (lincomb n cs ps) w = dot cs (map (\<lambda>p. dot p w) ps)"
  by (induction n cs ps rule: lincomb.induct) (simp_all add: dot_axpy xor.commute)

section \<open>One column of a rectangular matrix\<close>

abbreviation rect :: "nat \<Rightarrow> bytes list \<Rightarrow> bool" where
  "rect n M \<equiv> \<forall>row \<in> set M. length row = n"

lemma rect_nth [simp]: "rect n M \<Longrightarrow> r < length M \<Longrightarrow> length (M ! r) = n"
  by simp

text \<open>What the elimination of column \<open>col\<close> with the pivot in row \<open>p\<close> amounts to.\<close>

definition pivot_row :: "nat \<Rightarrow> nat \<Rightarrow> bytes list \<Rightarrow> bytes" where
  "pivot_row col p M = scale_row (the (gf_inv (M ! p ! col))) (M ! p)"

definition pivot_step :: "nat \<Rightarrow> nat \<Rightarrow> nat \<Rightarrow> bytes list \<Rightarrow> bytes list" where
  "pivot_step rank col p M =
     map (\<lambda>r. if r = rank then pivot_row col p M
              else let row = M ! (if r = p then rank else r) in axpy (row ! col) (pivot_row col p M) row)
       [0..<length M]"

lemma length_pivot_step [simp, row_simps]: "length (pivot_step rank col p M) = length M"
  by (simp add: pivot_step_def)

lemma length_pivot_row [simp, row_simps]: "length (pivot_row col p M) = length (M ! p)"
  by (simp add: pivot_row_def)

lemma pivot_step_nth:
  "r < length M \<Longrightarrow> pivot_step rank col p M ! r =
     (if r = rank then pivot_row col p M
      else axpy (M ! (if r = p then rank else r) ! col) (pivot_row col p M) (M ! (if r = p then rank else r)))"
  by (simp add: pivot_step_def Let_def)

lemma rect_pivot_step:
  "rect n M \<Longrightarrow> rank < length M \<Longrightarrow> p < length M \<Longrightarrow> rect n (pivot_step rank col p M)"
  by (auto simp: in_set_conv_nth pivot_step_nth)

lemma elim_from_eq:
  assumes "rect n M" and "col < n"
  shows "elim_from i rank col pr M =
    Ok (map (\<lambda>r. if i + r = rank then M ! r else axpy (M ! r ! col) pr (M ! r)) [0..<length M])"
  using assms(1)
proof (induction M arbitrary: i)
  case (Cons row M)
  have "map (\<lambda>r. if i + r = rank then (row # M) ! r else axpy ((row # M) ! r ! col) pr ((row # M) ! r))
        [0..<length (row # M)]
    = (if i = rank then row else axpy (row ! col) pr row) #
      map (\<lambda>r. if Suc i + r = rank then M ! r else axpy (M ! r ! col) pr (M ! r)) [0..<length M]"
    by (simp add: upt_conv_Cons map_Suc_upt [symmetric] del: upt_Suc)
  with Cons assms(2) show ?case by simp
qed simp

lemma find_nz_eq_None:
  "rect n M \<Longrightarrow> col < n \<Longrightarrow> find_nz col M = Ok None \<longleftrightarrow> (\<forall>row \<in> set M. row ! col = 0)"
proof (induction M)
  case (Cons row M)
  then show ?case by (cases "find_nz col M :: ('a, nat option) outcome") auto
qed simp

lemma find_nz_eq_Some:
  "rect n M \<Longrightarrow> col < n \<Longrightarrow> find_nz col M = Ok (Some d) \<Longrightarrow> d < length M \<and> M ! d ! col \<noteq> 0"
  by (induction M arbitrary: d) (auto split: if_splits)

lemma find_nz_total:
  "rect n M \<Longrightarrow> col < n \<Longrightarrow> \<exists>pivot. find_nz col M = Ok pivot"
  by (induction M) auto

lemma reduce_col_None:
  fixes z :: "elim_state \<Rightarrow> ('e, elim_state) outcome"
  assumes "rect n M" and "col < n" and "\<forall>r < length M. rank \<le> r \<longrightarrow> M ! r ! col = 0"
  shows "reduce_col z col (M, rank, piv) = Ok (M, rank, piv)"
proof -
  have "rect n (drop rank M)" using assms(1) by (auto dest: in_set_dropD)
  moreover have "\<forall>row \<in> set (drop rank M). row ! col = 0"
    using assms(3) by (auto simp: in_set_conv_nth)
  ultimately have "find_nz col (drop rank M) = (Ok None :: ('e, nat option) outcome)"
    using assms(2) find_nz_eq_None by blast
  then show ?thesis by (simp add: reduce_col_def)
qed

lemma reduce_col_Some:
  fixes z :: "elim_state \<Rightarrow> ('e, elim_state) outcome"
  assumes "rect n M" and "col < n" and "\<not> (\<forall>r < length M. rank \<le> r \<longrightarrow> M ! r ! col = 0)"
  obtains p where "rank \<le> p" and "p < length M" and "M ! p ! col \<noteq> 0"
    and "reduce_col z col (M, rank, piv) = Ok (pivot_step rank col p M, rank + 1, piv @ [col])"
proof -
  have rd: "rect n (drop rank M)" using assms(1) by (auto dest: in_set_dropD)
  have nz: "\<not> (\<forall>row \<in> set (drop rank M). row ! col = 0)"
  proof
    assume all: "\<forall>row \<in> set (drop rank M). row ! col = 0"
    have "M ! r ! col = 0" if "r < length M" "rank \<le> r" for r
      using all that nth_drop [of rank M "r - rank"] nth_mem [of "r - rank" "drop rank M"] by force
    with assms(3) show False by blast
  qed
  obtain o' where o': "find_nz col (drop rank M) = (Ok o' :: ('e, nat option) outcome)"
    using find_nz_total [OF rd assms(2)] by blast
  with nz find_nz_eq_None [OF rd assms(2)] obtain d where d: "find_nz col (drop rank M) = (Ok (Some d) :: ('e, nat option) outcome)"
    by (cases o') auto
  from find_nz_eq_Some [OF rd assms(2) this] have dl: "rank + d < length M" and v: "M ! (rank + d) ! col \<noteq> 0"
    by auto
  let ?M1 = "swap_rows rank (rank + d) M"
  have r: "rank < length M" using dl by simp
  have M1: "?M1 ! k = M ! (if k = rank then rank + d else if k = rank + d then rank else k)" if "k < length M" for k
    using that dl by (intro swap_rows_nth) simp_all
  have M1rect: "rect n ?M1"
    using assms(1) M1 dl by (auto simp: in_set_conv_nth)
  obtain iv where iv: "gf_inv (M ! (rank + d) ! col) = Some iv" using v by (rule gf_inv_Some)
  let ?M2 = "?M1[rank := scale_row iv (?M1 ! rank)]"
  have M2rect: "rect n ?M2"
    using M1rect r by (auto simp: in_set_conv_nth nth_list_update)
  have len: "length (M ! (rank + d)) = n" using assms(1) dl by simp
  have pr: "?M2 ! rank = pivot_row col (rank + d) M"
    using r by (simp add: M1 pivot_row_def iv)
  have "reduce_col z col (M, rank, piv) = obind (elim_from 0 rank col (?M2 ! rank) ?M2)
      (\<lambda>M3. Ok (M3, rank + 1, piv @ [col]))"
    using d v r len assms(2) iv by (simp add: reduce_col_def M1 Let_def)
  also have "elim_from 0 rank col (?M2 ! rank) ?M2 = Ok (pivot_step rank col (rank + d) M)"
    unfolding elim_from_eq [OF M2rect assms(2)] pr
    using r dl by (auto simp: pivot_step_def Let_def nth_list_update M1 pr [simplified] pivot_row_def iv)
  finally show thesis using dl v by (intro that [of "rank + d"]) simp_all
qed

section \<open>Properties of rows that row operations keep\<close>

lemma pivot_row_mult:
  assumes "M ! p ! col \<noteq> 0"
  shows "scale_row (M ! p ! col) (pivot_row col p M) = M ! p"
proof -
  obtain iv where iv: "gf_inv (M ! p ! col) = Some iv" "gf_mul (M ! p ! col) iv = 1"
    using assms by (rule gf_inv_Some)
  then have "gf_mul (gf_mul v iv) (M ! p ! col) = v" for v
    by (metis gf_mul_1_right gf_mul_assoc gf_mul_commute)
  then show ?thesis
    by (simp add: pivot_row_def scale_row_def iv(1) comp_def)
qed

lemma axpy_twice: "length u = length v \<Longrightarrow> axpy f u (axpy f u v) = v"
  by (rule nth_equalityI) (simp_all add: xor.assoc)

locale row_closed =
  fixes P :: "bytes \<Rightarrow> bool" and n :: nat
  assumes P_scale: "length u = n \<Longrightarrow> P u \<Longrightarrow> P (scale_row c u)"
    and P_axpy: "length u = n \<Longrightarrow> length v = n \<Longrightarrow> P u \<Longrightarrow> P v \<Longrightarrow> P (axpy c u v)"
begin

lemma pivot_row_closed: "rect n M \<Longrightarrow> p < length M \<Longrightarrow> \<forall>row \<in> set M. P row \<Longrightarrow> P (pivot_row col p M)"
  by (simp add: pivot_row_def P_scale)

lemma pivot_step_closed:
  assumes "rect n M" and "rank < length M" and "p < length M" and "\<forall>row \<in> set M. P row"
  shows "\<forall>row \<in> set (pivot_step rank col p M). P row"
proof -
  have "P (M ! r)" if "r < length M" for r
    using that assms(4) nth_mem by blast
  then have "P (pivot_step rank col p M ! r)" if "r < length M" for r
    using that assms(1-3) pivot_row_closed [OF assms(1,3,4)] by (simp add: pivot_step_nth P_axpy)
  then show ?thesis by (auto simp: in_set_conv_nth)
qed

lemma pivot_step_closed_rev:
  assumes M: "rect n M" "rank < length M" "p < length M" "M ! p ! col \<noteq> 0"
    and P: "\<forall>row \<in> set (pivot_step rank col p M). P row"
  shows "\<forall>row \<in> set M. P row"
proof -
  let ?N = "pivot_step rank col p M"
  have P_nth: "P (?N ! r)" if "r < length M" for r
    using that P by (simp add: nth_mem)
  have pr: "P (pivot_row col p M)"
    using P_nth [OF M(2)] M(2) by (simp add: pivot_step_nth)
  have "P (M ! s)" if s: "s < length M" for s
  proof (cases "s = p")
    case True
    have "P (scale_row (M ! p ! col) (pivot_row col p M))"
      using pr M by (intro P_scale) simp_all
    with True show ?thesis by (simp add: pivot_row_mult [OF M(4)])
  next
    case False
    let ?r = "if s = rank then p else s"
    have r: "?r < length M" "?r \<noteq> rank" "(if ?r = p then rank else ?r) = s"
      using s False M by auto
    have "?N ! ?r = axpy (M ! s ! col) (pivot_row col p M) (M ! s)"
      using r by (subst pivot_step_nth) simp_all
    with P_nth [OF r(1)] have "P (axpy (M ! s ! col) (pivot_row col p M) (M ! s))"
      by (simp only:)
    from P_axpy [OF _ _ pr this, of "M ! s ! col"] M s show ?thesis
      by (simp add: axpy_twice)
  qed
  then show ?thesis by (auto simp: in_set_conv_nth)
qed

end

text \<open>Vectors orthogonal to every row stay so, and no new ones appear: row operations keep the kernel.\<close>

interpretation kernel: row_closed "\<lambda>row. dot row w = 0" n for w n
  by unfold_locales (simp_all add: dot_scale_row dot_axpy)

section \<open>The invariant of the column loop\<close>

text \<open>
  After \<open>c\<close> columns: the \<open>i\<close>-th pivot column is the \<open>i\<close>-th unit vector, and the rows from
  \<open>rank\<close> on are zero in all columns below \<open>c\<close>.
\<close>

definition reduced :: "nat \<Rightarrow> nat \<Rightarrow> elim_state \<Rightarrow> bool" where
  "reduced n c st \<longleftrightarrow> (case st of (M, rank, piv) \<Rightarrow>
     rect n M \<and> length piv = rank \<and> rank \<le> length M \<and> sorted_wrt (<) piv \<and> (\<forall>j \<in> set piv. j < c) \<and>
     (\<forall>i < rank. \<forall>r < length M. M ! r ! (piv ! i) = (if r = i then 1 else 0)) \<and>
     (\<forall>r < length M. rank \<le> r \<longrightarrow> (\<forall>j < c. M ! r ! j = 0)))"

lemma reduced_init: "rect n M \<Longrightarrow> reduced n 0 (M, 0, [])"
  by (simp add: reduced_def)

lemma reduced_rank_le: "reduced n c (M, rank, piv) \<Longrightarrow> rank \<le> c"
proof -
  assume "reduced n c (M, rank, piv)"
  then have "length piv = rank" "distinct piv" "set piv \<subseteq> {..<c}"
    by (auto simp: reduced_def strict_sorted_iff)
  then show ?thesis
    by (metis card_lessThan card_mono distinct_card finite_lessThan)
qed

lemma reduced_no_pivot:
  "reduced n c (M, rank, piv) \<Longrightarrow> \<forall>r < length M. rank \<le> r \<longrightarrow> M ! r ! c = 0 \<Longrightarrow>
    reduced n (Suc c) (M, rank, piv)"
  by (auto simp: reduced_def less_Suc_eq)

lemma pivot_step_entry:
  assumes "rect n M" "rank < length M" "p < length M" "r < length M" "j < n" "M ! p ! col \<noteq> 0"
  shows "\<exists>iv. gf_mul (M ! p ! col) iv = 1 \<and> pivot_step rank col p M ! r ! j =
    (if r = rank then gf_mul (M ! p ! j) iv
     else M ! (if r = p then rank else r) ! j XOR
       gf_mul (M ! (if r = p then rank else r) ! col) (gf_mul (M ! p ! j) iv))"
proof -
  obtain iv where "gf_inv (M ! p ! col) = Some iv" "gf_mul (M ! p ! col) iv = 1"
    using assms(6) by (rule gf_inv_Some)
  then show ?thesis
    using assms by (intro exI [of _ iv]) (simp add: pivot_step_nth pivot_row_def)
qed

lemma reduced_pivot:
  assumes red: "reduced n c (M, rank, piv)" and "c < n"
    and p: "rank \<le> p" "p < length M" "M ! p ! c \<noteq> 0"
  shows "reduced n (Suc c) (pivot_step rank c p M, rank + 1, piv @ [c])"
proof -
  let ?N = "pivot_step rank c p M"
  have rc: "rect n M" and rank: "rank < length M" and len: "length piv = rank"
    and srt: "sorted_wrt (<) piv" and below: "\<forall>j \<in> set piv. j < c"
    and unit: "\<And>i r. i < rank \<Longrightarrow> r < length M \<Longrightarrow> M ! r ! (piv ! i) = (if r = i then 1 else 0)"
    and zero: "\<And>r j. r < length M \<Longrightarrow> rank \<le> r \<Longrightarrow> j < c \<Longrightarrow> M ! r ! j = 0"
    using red p by (auto simp: reduced_def)
  have unit_old: "?N ! r ! (piv ! i) = (if r = i then 1 else 0)" if "i < rank" "r < length M" for i r
  proof -
    have j: "piv ! i < c" using that below len by auto
    then have "M ! p ! (piv ! i) = 0" using zero p by simp
    moreover have "M ! (if r = p then rank else r) ! (piv ! i) = (if r = i then 1 else 0)" if "r \<noteq> rank"
      using unit [OF \<open>i < rank\<close>, of rank] unit [OF \<open>i < rank\<close>, of r] \<open>i < rank\<close> \<open>r < length M\<close> rank p(1) by auto
    ultimately show ?thesis
      using pivot_step_entry [OF rc rank p(2) \<open>r < length M\<close>, of "piv ! i" c] j p that assms(2) by auto
  qed
  have unit_new: "?N ! r ! c = (if r = rank then 1 else 0)" if "r < length M" for r
    using pivot_step_entry [OF rc rank p(2) that assms(2) p(3)] by auto
  have zero': "?N ! r ! j = 0" if "r < length M" "Suc rank \<le> r" "j < c" for r j
  proof -
    have "M ! p ! j = 0" "M ! (if r = p then rank else r) ! j = 0"
      using zero that p rank by auto
    then show ?thesis
      using pivot_step_entry [OF rc rank p(2) that(1), of j c] that p assms(2) by auto
  qed
  show ?thesis
    unfolding reduced_def
    using rank len srt below unit_old unit_new zero' rect_pivot_step [OF rc rank p(2)]
    by (auto simp: sorted_wrt_append nth_append less_Suc_eq)
qed

text \<open>One column keeps the invariant, and keeps every row property in both directions.\<close>

lemma reduce_col_reduced:
  assumes "reduced n c (M, rank, piv)" and "c < n"
  obtains M' rank' piv' where "reduce_col z c (M, rank, piv) = Ok (M', rank', piv')"
    and "reduced n (Suc c) (M', rank', piv')" and "length M' = length M"
    and "\<forall>P. row_closed P n \<longrightarrow> (\<forall>row \<in> set M'. P row) \<longleftrightarrow> (\<forall>row \<in> set M. P row)"
proof (cases "\<forall>r < length M. rank \<le> r \<longrightarrow> M ! r ! c = 0")
  case True
  then show ?thesis
    using assms reduced_no_pivot [OF assms(1) True]
    by (intro that [OF reduce_col_None [where n = n]]) (simp_all add: reduced_def)
next
  case False
  have rc: "rect n M" using assms by (simp add: reduced_def)
  obtain p where p: "rank \<le> p" "p < length M" "M ! p ! c \<noteq> 0"
    and eq: "reduce_col z c (M, rank, piv) = Ok (pivot_step rank c p M, rank + 1, piv @ [c])"
    using reduce_col_Some [OF rc assms(2) False] by metis
  from p have rank: "rank < length M" by simp
  show ?thesis
  proof (rule that [OF eq])
    show "reduced n (Suc c) (pivot_step rank c p M, rank + 1, piv @ [c])"
      using assms p by (rule reduced_pivot)
    show "\<forall>P. row_closed P n \<longrightarrow>
        (\<forall>row \<in> set (pivot_step rank c p M). P row) \<longleftrightarrow> (\<forall>row \<in> set M. P row)"
      using row_closed.pivot_step_closed [OF _ rc rank p(2)]
        row_closed.pivot_step_closed_rev [OF _ rc rank p(2,3)] by blast
  qed simp
qed

lemma reduced_full_rank:
  "reduced n c (M, rank, piv) \<Longrightarrow> rank = length M \<Longrightarrow> c \<le> m \<Longrightarrow> reduced n m (M, rank, piv)"
  by (auto simp: reduced_def)

text \<open>
  The whole loop over the columns \<open>c, \<dots>, m - 1\<close>: it never panics, never meets a zero pivot, and
  leaving it early at full rank is the same as finishing it.
\<close>

lemma reduce_cols_reduced:
  assumes "reduced n c (M, rank, piv)" and "c \<le> m" and "m \<le> n" and "stop = length M \<or> m \<le> stop"
  shows "\<exists>M' rank' piv'. reduce_cols z stop [c..<m] (M, rank, piv) = Ok (M', rank', piv') \<and>
    reduced n m (M', rank', piv') \<and> length M' = length M \<and>
    (\<forall>P. row_closed P n \<longrightarrow> (\<forall>row \<in> set M'. P row) \<longleftrightarrow> (\<forall>row \<in> set M. P row))"
  using assms
proof (induction "m - c" arbitrary: c M rank piv)
  case 0
  then show ?case by auto
next
  case (Suc k)
  then have c: "c < n" "[c..<m] = c # [Suc c..<m]" "Suc c \<le> m" "k = m - Suc c"
    by (simp_all add: upt_conv_Cons)
  obtain M' rank' piv' where step: "reduce_col z c (M, rank, piv) = Ok (M', rank', piv')"
    and red: "reduced n (Suc c) (M', rank', piv')" and len: "length M' = length M"
    and P: "\<forall>P. row_closed P n \<longrightarrow> (\<forall>row \<in> set M'. P row) \<longleftrightarrow> (\<forall>row \<in> set M. P row)"
    by (rule reduce_col_reduced [OF Suc.prems(1) c(1), where z = z])
  show ?case
  proof (cases "rank' \<noteq> rank \<and> rank' = stop")
    case True
    have "reduced n m (M', rank', piv')"
    proof (cases "stop = length M")
      case True
      with \<open>rank' \<noteq> rank \<and> rank' = stop\<close> len c(3) red show ?thesis
        by (intro reduced_full_rank [OF red]) simp_all
    next
      case False
      with Suc.prems(4) reduced_rank_le [OF red] True c(3) have "Suc c = m" by simp
      with red show ?thesis by simp
    qed
    with True step len P c(2) show ?thesis by simp
  next
    case False
    have "stop = length M' \<or> m \<le> stop" using Suc.prems(4) len by simp
    with Suc.hyps(1) [OF c(4) red c(3) Suc.prems(3)] obtain M2 rank2 piv2 where
      run: "reduce_cols z stop [Suc c..<m] (M', rank', piv') = Ok (M2, rank2, piv2)"
      and red2: "reduced n m (M2, rank2, piv2)" and len2: "length M2 = length M'"
      and P2: "\<forall>P. row_closed P n \<longrightarrow> (\<forall>row \<in> set M2. P row) \<longleftrightarrow> (\<forall>row \<in> set M'. P row)"
      by blast
    have "reduce_cols z stop [c..<m] (M, rank, piv) = Ok (M2, rank2, piv2)"
      unfolding c(2) using False step run by (simp only: reduce_cols.simps obind.simps fst_conv snd_conv if_False)
    moreover have "\<forall>P. row_closed P n \<longrightarrow> (\<forall>row \<in> set M2. P row) \<longleftrightarrow> (\<forall>row \<in> set M. P row)"
      using P P2 by simp
    ultimately show ?thesis using red2 len2 len by auto
  qed
qed

end
