(* ===== verification/Rlnc.thy ===== *)
theory Rlnc
  imports Rows
begin

text \<open>
  \<open>crates/erasure/src/lib.rs\<close>, the encoding side: \<open>ErasureConfig\<close>, \<open>ErasureError\<close>, \<open>CodedPiece\<close>,
  \<open>RlncEncoder\<close> and \<open>create_piece_from_existing\<close>. A random number generator is the sequence of the
  bytes it draws (\<open>rng\<close>); the redraw loop of \<open>create_piece_from_existing\<close> may not end, so it is a
  \<open>partial_function (option)\<close>. The predicate \<open>piece_of\<close> says what a coded piece promises: its data
  is the combination of the source pieces its coefficients name.
\<close>

section \<open>Configuration and errors\<close>

definition DEFAULT_PIECE_SIZE :: nat where "DEFAULT_PIECE_SIZE = 262144"
definition DEFAULT_SEGMENT_SIZE :: nat where "DEFAULT_SEGMENT_SIZE = 10485760"
definition DEFAULT_INITIAL_PARITY :: nat where "DEFAULT_INITIAL_PARITY = 20"

record erasure_config =
  cfg_piece_size :: nat
  cfg_segment_size :: nat
  cfg_initial_parity :: nat

definition default_config :: erasure_config where
  "default_config = \<lparr>cfg_piece_size = DEFAULT_PIECE_SIZE, cfg_segment_size = DEFAULT_SEGMENT_SIZE,
     cfg_initial_parity = DEFAULT_INITIAL_PARITY\<rparr>"

datatype erasure_error =
    EmptyData
  | EncodingFailed string
  | DecodingFailed string
  | InsufficientPieces (have_pieces: nat) (need_pieces: nat)
  | LinearlyDependent
  | InvalidConfig string

type_synonym 'a er = "(erasure_error, 'a) outcome"

text \<open>Division by a zero \<open>piece_size\<close> panics.\<close>

definition config_k :: "erasure_config \<Rightarrow> nat er" where
  "config_k cfg = (if cfg_piece_size cfg = 0 then Panic
     else Ok (cfg_segment_size cfg div cfg_piece_size cfg))"

definition k_for_segment :: "erasure_config \<Rightarrow> nat \<Rightarrow> nat er" where
  "k_for_segment cfg segment_bytes = (if cfg_piece_size cfg = 0 then Panic
     else Ok (max (div_ceil segment_bytes (cfg_piece_size cfg)) 1))"

definition parity_count :: "erasure_config \<Rightarrow> nat \<Rightarrow> nat" where
  "parity_count cfg k = k * cfg_initial_parity cfg div 100"

section \<open>Pieces and the encoder\<close>

record coded_piece =
  piece_data :: bytes
  coefficients :: bytes

record rlnc_encoder =
  enc_pieces :: "bytes list"
  enc_piece_size :: nat

definition slice :: "nat \<Rightarrow> nat \<Rightarrow> 'a list \<Rightarrow> 'a list" where
  "slice a b xs = take (b - a) (drop a xs)"

text \<open>\<open>vec![0u8; piece_size]\<close> with the segment bytes from \<open>i * piece_size\<close> on copied over its front.\<close>

definition source_piece :: "bytes \<Rightarrow> nat \<Rightarrow> nat \<Rightarrow> bytes" where
  "source_piece segment_data piece_size i =
     (let start = i * piece_size; end' = min (start + piece_size) (length segment_data)
      in if start < length segment_data
         then slice start end' segment_data @ replicate (piece_size - (end' - start)) 0
         else replicate piece_size 0)"

definition encoder_new :: "bytes \<Rightarrow> nat \<Rightarrow> rlnc_encoder er" where
  "encoder_new segment_data piece_size =
     (if segment_data = [] then Err EmptyData
      else if piece_size = 0 then Err (InvalidConfig ''piece_size must be > 0'')
      else let k = max (div_ceil (length segment_data) piece_size) 1
           in Ok \<lparr>enc_pieces = map (source_piece segment_data piece_size) [0..<k],
                  enc_piece_size = piece_size\<rparr>)"

definition encoder_k :: "rlnc_encoder \<Rightarrow> nat" where
  "encoder_k e = length (enc_pieces e)"

definition source_pieces :: "rlnc_encoder \<Rightarrow> coded_piece list" where
  "source_pieces e =
     (let k = encoder_k e
      in map (\<lambda>i. \<lparr>piece_data = enc_pieces e ! i, coefficients = (replicate k 0)[i := 1]\<rparr>) [0..<k])"

definition linear_combine :: "bytes list \<Rightarrow> bytes \<Rightarrow> nat \<Rightarrow> bytes" where
  "linear_combine pieces coeffs piece_size =
     fold (\<lambda>(piece, coeff) result.
             if coeff = 0 then result else axpy_table (mul_table coeff) piece result)
       (zip pieces coeffs) (replicate piece_size 0)"

type_synonym rng = "nat \<Rightarrow> u8"

text \<open>\<open>generate_one_piece\<close> draws \<open>k\<close> bytes, here those from position \<open>pos\<close> of the sequence on.\<close>

definition generate_one_piece :: "rlnc_encoder \<Rightarrow> rng \<Rightarrow> nat \<Rightarrow> coded_piece" where
  "generate_one_piece e rng pos =
     (let coeffs = map (\<lambda>i. rng (pos + i)) [0..<encoder_k e]
      in \<lparr>piece_data = linear_combine (enc_pieces e) coeffs (enc_piece_size e), coefficients = coeffs\<rparr>)"

definition generate_coded_pieces :: "rlnc_encoder \<Rightarrow> rng \<Rightarrow> nat \<Rightarrow> coded_piece list" where
  "generate_coded_pieces e rng n = map (\<lambda>j. generate_one_piece e rng (j * encoder_k e)) [0..<n]"

definition encode :: "rlnc_encoder \<Rightarrow> rng \<Rightarrow> nat \<Rightarrow> coded_piece list" where
  "encode e rng initial_parity_count = source_pieces e @ generate_coded_pieces e rng initial_parity_count"

section \<open>Recombination\<close>

partial_function (option) draw_nonzero :: "rng \<Rightarrow> nat \<Rightarrow> (u8 \<times> nat) option" where
  "draw_nonzero rng pos = (if rng pos \<noteq> 0 then Some (rng pos, Suc pos) else draw_nonzero rng (Suc pos))"

fun draw_alphas :: "rng \<Rightarrow> nat \<Rightarrow> nat \<Rightarrow> bytes option" where
  "draw_alphas rng 0 pos = Some []"
| "draw_alphas rng (Suc n) pos =
     (case draw_nonzero rng pos of None \<Rightarrow> None
      | Some (v, pos') \<Rightarrow> map_option (\<lambda>vs. v # vs) (draw_alphas rng n pos'))"

definition combine_pieces :: "(coded_piece \<times> u8) list \<Rightarrow> bytes \<times> bytes \<Rightarrow> bytes \<times> bytes" where
  "combine_pieces = fold (\<lambda>(piece, alpha) (new_data, new_coeffs).
     (axpy alpha (piece_data piece) new_data, axpy alpha (coefficients piece) new_coeffs))"

text \<open>\<open>None\<close>: the redraw loop never ends.\<close>

definition create_piece_from_existing :: "rng \<Rightarrow> coded_piece list \<Rightarrow> coded_piece er option" where
  "create_piece_from_existing rng pieces =
     (if length pieces < 2 then Some (Err (EncodingFailed ''need at least 2 pieces to combine''))
      else case draw_alphas rng (length pieces) 0 of None \<Rightarrow> None
      | Some alphas \<Rightarrow>
          let k = length (coefficients (pieces ! 0)); piece_size = length (piece_data (pieces ! 0));
              (new_data, new_coeffs) =
                combine_pieces (zip pieces alphas) (replicate piece_size 0, replicate k 0)
          in Some (Ok \<lparr>piece_data = new_data, coefficients = new_coeffs\<rparr>))"

section \<open>What a piece promises\<close>

definition piece_of :: "nat \<Rightarrow> bytes list \<Rightarrow> coded_piece \<Rightarrow> bool" where
  "piece_of m S piece \<longleftrightarrow> length (coefficients piece) = length S \<and>
     piece_data piece = lincomb m (coefficients piece) S"

lemma piece_of_lengths: "piece_of m S p \<Longrightarrow> length (piece_data p) = m \<and> length (coefficients p) = length S"
  by (simp add: piece_of_def)

lemma linear_combine_acc:
  "rect m pieces \<Longrightarrow> length acc = m \<Longrightarrow>
    fold (\<lambda>(piece, coeff) result. if coeff = 0 then result else axpy_table (mul_table coeff) piece result)
      (zip pieces coeffs) acc = map2 (XOR) acc (lincomb m coeffs pieces)"
proof (induction pieces arbitrary: coeffs acc)
  case Nil
  then show ?case by (cases coeffs) (auto intro!: nth_equalityI)
next
  case (Cons p ps)
  show ?case
  proof (cases coeffs)
    case Nil
    with Cons.prems show ?thesis by (auto intro!: nth_equalityI)
  next
    case (Cons c cs)
    with Cons.prems Cons.IH [of "if c = 0 then acc else axpy c p acc" cs] show ?thesis
      by (auto intro!: nth_equalityI simp: xor.assoc xor.left_commute xor.commute)
  qed
qed

lemma linear_combine_eq: "rect m pieces \<Longrightarrow> linear_combine pieces coeffs m = lincomb m coeffs pieces"
  unfolding linear_combine_def by (subst linear_combine_acc) (auto intro!: nth_equalityI)

lemma lincomb_unit:
  "rect m S \<Longrightarrow> i < length S \<Longrightarrow> lincomb m ((replicate (length S) 0)[i := 1]) S = S ! i"
  by (rule nth_equalityI) (simp_all add: lincomb_nth dot_unit)

lemma lincomb_axpy:
  assumes "rect m S" and "length u = length v"
  shows "lincomb m (axpy c u v) S = axpy c (lincomb m u S) (lincomb m v S)"
  using assms by (intro nth_equalityI) (simp_all add: lincomb_nth dot_axpy)

lemma lincomb_zero: "lincomb m (replicate n 0) S = replicate m 0"
proof (induction n arbitrary: S)
  case (Suc n)
  then show ?case by (cases S) simp_all
qed simp

section \<open>The encoder\<close>

lemma concat_chunks: "concat (map (\<lambda>i. take m (drop (i * m) xs)) [0..<k]) = take (k * m) xs"
  by (induction k) (simp_all add: add.commute flip: take_add)

lemma source_piece_eq:
  assumes "Suc i * m \<le> k * m"
  shows "source_piece xs m i = take m (drop (i * m) (xs @ replicate (k * m - length xs) 0))"
proof -
  have i: "i * m + m \<le> k * m" using assms by simp
  show ?thesis
  proof (cases "i * m < length xs")
    case True
    have "min (i * m + m) (length xs) - i * m = min m (length xs - i * m)"
      using True by simp
    moreover have "min (m - (length xs - i * m)) (k * m - length xs) = m - min m (length xs - i * m)"
      using i True by linarith
    moreover have "take (min m (length xs - i * m)) (drop (i * m) xs) = take m (drop (i * m) xs)"
      by (simp add: min_def)
    ultimately show ?thesis
      using True by (simp add: source_piece_def slice_def Let_def)
  next
    case False
    then have "min m (k * m - i * m) = m" using i by simp
    with False show ?thesis by (simp add: source_piece_def Let_def)
  qed
qed

lemma source_pieces_padded:
  assumes "length xs \<le> k * m"
  shows "concat (map (source_piece xs m) [0..<k]) = xs @ replicate (k * m - length xs) 0"
    and "rect m (map (source_piece xs m) [0..<k])"
proof -
  obtain ys where ys: "ys = xs @ replicate (k * m - length xs) 0" by blast
  have len: "length ys = k * m" using assms by (simp add: ys)
  have piece: "source_piece xs m i = take m (drop (i * m) ys)" if "i < k" for i
    unfolding ys using that by (intro source_piece_eq mult_le_mono) simp_all
  then have eq: "map (source_piece xs m) [0..<k] = map (\<lambda>i. take m (drop (i * m) ys)) [0..<k]"
    by simp
  show "concat (map (source_piece xs m) [0..<k]) = xs @ replicate (k * m - length xs) 0"
    unfolding eq concat_chunks using len by (simp flip: ys)
  have "i * m + m \<le> length ys" if "i < k" for i
  proof -
    have "Suc i * m \<le> k * m" using that by (intro mult_le_mono) simp_all
    then show ?thesis by (simp add: len)
  qed
  then show "rect m (map (source_piece xs m) [0..<k])"
    unfolding eq by (fastforce simp: min_def)
qed

lemma encoder_new_Ok:
  assumes "encoder_new xs m = Ok e"
  shows "xs \<noteq> []" and "0 < m" and "enc_piece_size e = m" and "rect m (enc_pieces e)"
    and "length (enc_pieces e) = div_ceil (length xs) m" and "0 < length (enc_pieces e)"
    and "concat (enc_pieces e) = xs @ replicate (div_ceil (length xs) m * m - length xs) 0"
proof -
  let ?k = "div_ceil (length xs) m"
  have xs: "xs \<noteq> []" and m: "0 < m"
    using assms by (auto simp: encoder_new_def split: if_splits)
  then have k: "0 < ?k" by (simp add: div_ceil_pos)
  then have "max ?k 1 = ?k" by simp
  then have e: "enc_pieces e = map (source_piece xs m) [0..<?k]" "enc_piece_size e = m"
    using assms xs m by (auto simp: encoder_new_def Let_def)
  show "xs \<noteq> []" "0 < m" "enc_piece_size e = m" "length (enc_pieces e) = ?k" "0 < length (enc_pieces e)"
    using xs m k e by simp_all
  show "rect m (enc_pieces e)" "concat (enc_pieces e) = xs @ replicate (?k * m - length xs) 0"
    unfolding e using source_pieces_padded [OF div_ceil_bounds(1) [OF m]] by blast+
qed

lemma source_pieces_piece_of:
  "rect m (enc_pieces e) \<Longrightarrow> p \<in> set (source_pieces e) \<Longrightarrow> piece_of m (enc_pieces e) p"
  by (auto simp: source_pieces_def piece_of_def encoder_k_def lincomb_unit Let_def)

lemma generate_one_piece_of:
  "rect m (enc_pieces e) \<Longrightarrow> enc_piece_size e = m \<Longrightarrow> piece_of m (enc_pieces e) (generate_one_piece e rng pos)"
  by (simp add: generate_one_piece_def piece_of_def encoder_k_def linear_combine_eq Let_def)

lemma encode_piece_of:
  "rect m (enc_pieces e) \<Longrightarrow> enc_piece_size e = m \<Longrightarrow> p \<in> set (encode e rng n) \<Longrightarrow>
    piece_of m (enc_pieces e) p"
  by (auto simp: encode_def generate_coded_pieces_def source_pieces_piece_of generate_one_piece_of)

lemma length_encode: "length (encode e rng n) = encoder_k e + n"
  by (simp add: encode_def source_pieces_def generate_coded_pieces_def Let_def)

section \<open>Recombination\<close>

lemma draw_nonzero_returns:
  "rng q \<noteq> 0 \<Longrightarrow> pos \<le> q \<Longrightarrow> \<exists>v pos'. draw_nonzero rng pos = Some (v, pos') \<and> v \<noteq> 0"
proof (induction "q - pos" arbitrary: pos)
  case 0
  then show ?case by (simp add: draw_nonzero.simps)
next
  case (Suc n)
  show ?case
  proof (cases "rng pos = 0")
    case True
    with Suc.hyps(1) [of "Suc pos"] Suc.hyps(2) Suc.prems(1) show ?thesis
      by (simp add: draw_nonzero.simps [of rng pos])
  qed (simp add: draw_nonzero.simps)
qed

lemma draw_alphas_returns:
  assumes "\<And>p. \<exists>q \<ge> p. rng q \<noteq> 0"
  shows "\<exists>alphas. draw_alphas rng n pos = Some alphas \<and> length alphas = n \<and> 0 \<notin> set alphas"
proof (induction n arbitrary: pos)
  case (Suc n)
  obtain q where "pos \<le> q" "rng q \<noteq> 0" using assms by blast
  then obtain v pos' where "draw_nonzero rng pos = Some (v, pos')" "v \<noteq> 0"
    using draw_nonzero_returns by blast
  moreover obtain alphas where "draw_alphas rng n pos' = Some alphas" "length alphas = n" "0 \<notin> set alphas"
    using Suc by blast
  ultimately show ?case by simp
qed simp

text \<open>How many usable bytes the generator offers between two positions.\<close>

definition nonzero_draws :: "rng \<Rightarrow> nat \<Rightarrow> nat \<Rightarrow> nat" where
  "nonzero_draws rng pos N = length (filter (\<lambda>i. rng i \<noteq> 0) [pos..<N])"

lemma nonzero_draws_split: "pos \<le> p \<Longrightarrow> p \<le> N \<Longrightarrow> nonzero_draws rng pos N = nonzero_draws rng pos p + nonzero_draws rng p N"
  unfolding nonzero_draws_def by (metis filter_append le_add_diff_inverse length_append upt_add_eq_append)

lemma nonzero_draws_mono: "N \<le> M \<Longrightarrow> nonzero_draws rng pos N \<le> nonzero_draws rng pos M"
  by (cases "pos \<le> N") (simp_all add: nonzero_draws_split [of pos N M], simp add: nonzero_draws_def)

lemma draw_nonzero_Some: "draw_nonzero rng pos = Some r \<Longrightarrow> pos < snd r \<and> nonzero_draws rng pos (snd r) = 1"
proof (induction rule: draw_nonzero.raw_induct [rotated, consumes 1])
  case (1 draw rng pos r)
  show ?case
  proof (cases "rng pos = 0")
    case True
    with 1 have "draw rng (Suc pos) = Some r" by simp
    from 1(1) [OF this] True show ?thesis
      using upt_conv_Cons [of pos "snd r"] by (simp add: nonzero_draws_def)
  qed (use 1(2) in \<open>auto simp: nonzero_draws_def\<close>)
qed

lemma draw_alphas_Some: "draw_alphas rng n pos = Some alphas \<Longrightarrow> \<exists>N. n \<le> nonzero_draws rng pos N"
proof (induction n arbitrary: pos alphas)
  case (Suc n)
  then obtain v p' alphas' where d: "draw_nonzero rng pos = Some (v, p')" and "draw_alphas rng n p' = Some alphas'"
    by (auto split: option.splits)
  with Suc.IH obtain N where "n \<le> nonzero_draws rng p' N" by blast
  then have "n \<le> nonzero_draws rng p' (max N p')"
    using nonzero_draws_mono [of N "max N p'" rng p'] by simp
  moreover have "pos < p'" and "nonzero_draws rng pos p' = 1"
    using draw_nonzero_Some [OF d] by simp_all
  ultimately have "Suc n \<le> nonzero_draws rng pos (max N p')"
    using nonzero_draws_split [of pos p' "max N p'" rng] by simp
  then show ?case by blast
qed simp

lemma draw_alphas_enough: "n \<le> nonzero_draws rng pos N \<Longrightarrow> draw_alphas rng n pos \<noteq> None"
proof (induction n arbitrary: pos)
  case (Suc n)
  then have "filter (\<lambda>i. rng i \<noteq> 0) [pos..<N] \<noteq> []"
    by (auto simp: nonzero_draws_def)
  then obtain q where "rng q \<noteq> 0" "pos \<le> q"
    by (auto simp: filter_empty_conv)
  then obtain v p' where d: "draw_nonzero rng pos = Some (v, p')"
    using draw_nonzero_returns by blast
  then have p': "pos < p'" "nonzero_draws rng pos p' = 1"
    using draw_nonzero_Some [OF d] by simp_all
  have "n \<le> nonzero_draws rng p' N"
  proof (cases "p' \<le> N")
    case True
    with p' Suc.prems show ?thesis using nonzero_draws_split [of pos p' N rng] by simp
  next
    case False
    with p' Suc.prems show ?thesis using nonzero_draws_mono [of N p' rng pos] by simp
  qed
  with Suc.IH show ?case by (simp add: d)
qed simp

lemma combine_pieces_piece_of:
  assumes "rect m S" and "\<forall>(p, alpha) \<in> set pas. piece_of m S p"
    and "length nc = length S" and "nd = lincomb m nc S"
  shows "case combine_pieces pas (nd, nc) of (nd', nc') \<Rightarrow> length nc' = length S \<and> nd' = lincomb m nc' S"
  using assms(2-)
proof (induction pas arbitrary: nd nc)
  case (Cons pa pas)
  obtain p alpha where pa: "pa = (p, alpha)" by (cases pa)
  with Cons.prems have p: "length (coefficients p) = length S" "piece_data p = lincomb m (coefficients p) S"
    by (simp_all add: piece_of_def)
  have "axpy alpha (piece_data p) nd = lincomb m (axpy alpha (coefficients p) nc) S"
    using p Cons.prems(2,3) assms(1) by (simp add: lincomb_axpy)
  with Cons.IH [of "axpy alpha (coefficients p) nc" "axpy alpha (piece_data p) nd"] Cons.prems
  show ?case by (simp add: combine_pieces_def pa)
qed (simp add: combine_pieces_def)

lemma create_piece_returns:
  assumes "\<And>p. \<exists>q \<ge> p. rng q \<noteq> 0" and "rect m S"
    and "\<forall>p \<in> set pieces. piece_of m S p" and "2 \<le> length pieces"
  shows "\<exists>piece. create_piece_from_existing rng pieces = Some (Ok piece) \<and> piece_of m S piece"
proof -
  obtain alphas where al: "draw_alphas rng (length pieces) 0 = Some alphas"
    using draw_alphas_returns [OF assms(1)] by blast
  have "pieces ! 0 \<in> set pieces" using assms(4) by (cases pieces) simp_all
  with assms(3) have p0: "length (coefficients (pieces ! 0)) = length S" "length (piece_data (pieces ! 0)) = m"
    by (auto dest: piece_of_lengths)
  have "\<forall>(p, alpha) \<in> set (zip pieces alphas). piece_of m S p"
    using assms(3) by (auto dest: set_zip_leftD)
  from combine_pieces_piece_of [OF assms(2) this, of "replicate (length S) 0" "replicate m 0"]
  show ?thesis
    using assms(4) al p0 by (auto simp: create_piece_from_existing_def lincomb_zero piece_of_def split: prod.splits)
qed

section \<open>Properties\<close>

text \<open>
  a segment of \<open>n\<close> bytes is cut into \<open>ceil (n / piece_size)\<close> pieces of exactly \<open>piece_size\<close>
  bytes, whose concatenation starts with the segment and is zero beyond it; an empty segment and a
  zero piece size are refused, and nothing else is.
\<close>

theorem encoder_new_spec:
  "(encoder_new xs m = Err EmptyData \<longleftrightarrow> xs = []) \<and>
   (xs = [] \<or> (m = 0 \<longleftrightarrow> encoder_new xs m = Err (InvalidConfig ''piece_size must be > 0''))) \<and>
   (xs = [] \<or> m = 0 \<or>
     (\<exists>e. encoder_new xs m = Ok e \<and> enc_piece_size e = m \<and> encoder_k e = div_ceil (length xs) m \<and>
       list_all (\<lambda>piece. length piece = m) (enc_pieces e) \<and>
       concat (enc_pieces e) = xs @ replicate (encoder_k e * m - length xs) 0))"
proof -
  have "\<exists>e. encoder_new xs m = Ok e \<and> enc_piece_size e = m \<and> encoder_k e = div_ceil (length xs) m \<and>
       list_all (\<lambda>piece. length piece = m) (enc_pieces e) \<and>
       concat (enc_pieces e) = xs @ replicate (encoder_k e * m - length xs) 0"
    if ne: "xs \<noteq> []" "m \<noteq> 0"
  proof -
    obtain e where e: "encoder_new xs m = Ok e"
      using ne by (simp add: encoder_new_def Let_def)
    from e encoder_new_Ok [OF e] show ?thesis by (simp add: encoder_k_def list_all_iff)
  qed
  then show ?thesis
    by (auto simp: encoder_new_def Let_def)
qed

text \<open>
  C32: what \<open>encode\<close> returns, whatever the generator drew. First come the \<open>k\<close> source pieces, one for
  each \<open>piece_size\<close> bytes of the segment: the coefficients of piece \<open>i\<close> are the \<open>i\<close>-th unit vector,
  and the data of all \<open>k\<close> in their order is the segment followed by zeros. Then come exactly as many
  parity pieces as were asked for; the coefficients of each are the next \<open>k\<close> bytes the generator draws.
  Every piece, source and parity alike, has \<open>piece_size\<close> bytes of data and \<open>k\<close> coefficients, and its data
  is the linear combination of the source pieces that its coefficients name.
\<close>

theorem encode_pieces_consistent:
  assumes "encoder_new xs m = Ok e"
  shows "encoder_k e = div_ceil (length xs) m \<and>
    length (encode e rng parity) = encoder_k e + parity \<and>
    map coefficients (take (encoder_k e) (encode e rng parity)) =
      map (\<lambda>i. map (\<lambda>j. if j = i then 1 else 0) [0..<encoder_k e]) [0..<encoder_k e] \<and>
    concat (map piece_data (take (encoder_k e) (encode e rng parity))) = xs @ replicate (encoder_k e * m - length xs) 0 \<and>
    map coefficients (drop (encoder_k e) (encode e rng parity)) =
      map (\<lambda>j. map (\<lambda>i. rng (j * encoder_k e + i)) [0..<encoder_k e]) [0..<parity] \<and>
    list_all (\<lambda>p. length (piece_data p) = m \<and> piece_of m (enc_pieces e) p) (encode e rng parity)"
proof -
  note new = encoder_new_Ok [OF assms]
  have take: "take (encoder_k e) (encode e rng parity) = source_pieces e"
    by (simp add: encode_def source_pieces_def Let_def)
  have drop: "drop (encoder_k e) (encode e rng parity) = generate_coded_pieces e rng parity"
    by (simp add: encode_def source_pieces_def Let_def)
  have unit: "(replicate k 0)[i := 1] = map (\<lambda>j. if j = i then 1 else 0) [0..<k]" for k i
    by (rule nth_equalityI) (auto simp: nth_list_update)
  have "map coefficients (source_pieces e) =
      map (\<lambda>i. map (\<lambda>j. if j = i then 1 else 0) [0..<encoder_k e]) [0..<encoder_k e]"
    by (simp add: source_pieces_def Let_def unit)
  moreover have "map piece_data (source_pieces e) = enc_pieces e"
    by (simp add: source_pieces_def encoder_k_def Let_def comp_def map_nth)
  moreover have "map coefficients (generate_coded_pieces e rng parity) =
      map (\<lambda>j. map (\<lambda>i. rng (j * encoder_k e + i)) [0..<encoder_k e]) [0..<parity]"
    by (simp add: generate_coded_pieces_def generate_one_piece_def Let_def)
  moreover have "list_all (\<lambda>p. length (piece_data p) = m \<and> piece_of m (enc_pieces e) p) (encode e rng parity)"
    using encode_piece_of [OF new(4,3)] by (auto simp: list_all_iff dest: piece_of_lengths)
  ultimately show ?thesis
    using new(5,7) unfolding take drop by (simp add: length_encode encoder_k_def)
qed

theorem encode_pieces_consistent_witness:
  "map coefficients (encode \<lparr>enc_pieces = [[7, 9], [4, 0]], enc_piece_size = 2\<rparr> (\<lambda>_. 3) 1) = [[1, 0], [0, 1], [3, 3]] \<and>
    concat (map piece_data (take 2 (encode \<lparr>enc_pieces = [[7, 9], [4, 0]], enc_piece_size = 2\<rparr> (\<lambda>_. 3) 1))) = [7, 9, 4, 0]"
proof -
  let ?e = "\<lparr>enc_pieces = [[7, 9], [4, 0]], enc_piece_size = 2\<rparr>"
  have "encoder_new [7, 9, 4] 2 = Ok ?e"
    by code_simp
  note enc = encode_pieces_consistent [OF this, of "\<lambda>_. 3" 1]
  have k: "encoder_k ?e = 2" by (simp add: encoder_k_def)
  have "map coefficients (encode ?e (\<lambda>_. 3) 1) =
      map coefficients (take 2 (encode ?e (\<lambda>_. 3) 1)) @ map coefficients (drop 2 (encode ?e (\<lambda>_. 3) 1))"
    by (simp flip: map_append)
  with enc show ?thesis unfolding k by (simp add: upt_rec)
qed

text \<open>
  recombining two or more pieces of the same segment returns, for every generator that keeps
  drawing nonzero bytes now and then, a piece that again promises the same combination of the same
  source pieces, so that recombined pieces can be recombined and decoded like any other.
\<close>

theorem recombined_piece_consistent:
  assumes "\<forall>p. \<exists>q \<ge> p. rng q \<noteq> 0" and "list_all (\<lambda>row. length row = m) S"
    and "list_all (piece_of m S) pieces" and "2 \<le> length pieces"
  shows "\<exists>piece. create_piece_from_existing rng pieces = Some (Ok piece) \<and> piece_of m S piece"
  using create_piece_returns [of rng S m pieces] assms by (simp add: list_all_iff)

theorem recombined_piece_consistent_witness:
  "\<exists>piece. create_piece_from_existing (\<lambda>n. of_nat n)
      [\<lparr>piece_data = [7, 9], coefficients = [1, 0]\<rparr>, \<lparr>piece_data = [4, 0], coefficients = [0, 1]\<rparr>]
      = Some (Ok piece) \<and> piece_of 2 [[7, 9], [4, 0]] piece"
proof (rule recombined_piece_consistent)
  show "\<forall>p. \<exists>q \<ge> p. (of_nat q :: u8) \<noteq> 0"
  proof
    fix p :: nat
    have "unat (of_nat (256 * p + 1) :: u8) = (256 * p + 1) mod 256"
      by (simp only: unsigned_of_nat take_bit_eq_mod) simp
    then have "(of_nat (256 * p + 1) :: u8) \<noteq> 0" by (intro notI) simp
    then show "\<exists>q \<ge> p. (of_nat q :: u8) \<noteq> 0" by (intro exI [of _ "256 * p + 1"]) simp
  qed
  show "list_all (piece_of 2 [[7, 9], [4, 0]])
    [\<lparr>piece_data = [7, 9], coefficients = [1, 0]\<rparr>, \<lparr>piece_data = [4, 0], coefficients = [0, 1]\<rparr>]"
    unfolding piece_of_def by code_simp
qed simp_all

text \<open>
  C30: the redraw loop of a recombination. The call returns exactly if it refuses fewer than two pieces
  or the generator offers, sooner or later, one byte other than zero for every piece; no further
  draw is needed.
\<close>

theorem recombination_returns:
  "create_piece_from_existing rng pieces \<noteq> None \<longleftrightarrow>
    length pieces < 2 \<or> (\<exists>N. length pieces \<le> nonzero_draws rng 0 N)"
proof (cases "length pieces < 2")
  case False
  then have "create_piece_from_existing rng pieces \<noteq> None \<longleftrightarrow> draw_alphas rng (length pieces) 0 \<noteq> None"
    by (simp add: create_piece_from_existing_def Let_def case_prod_unfold split: option.split)
  with False show ?thesis
    using draw_alphas_Some draw_alphas_enough by (metis not_None_eq)
qed (simp add: create_piece_from_existing_def)

end
