(* ===== verification/Decoder.thy ===== *)
theory Decoder
  imports Rlnc
begin

text \<open>
  \<open>crates/erasure/src/lib.rs\<close>, \<open>RlncDecoder\<close>: Gauss-Jordan elimination of the coefficient matrix
  of the first \<open>k\<close> pieces, with the same operations applied to their data. The code keeps two
  vectors of rows, \<open>coeffs\<close> and \<open>data\<close>; so does the model. \<open>decode_characterisation\<close> is the contract:
  on pieces of one segment the decoder returns the segment, or reports linear dependence exactly
  when some nonzero vector is orthogonal to all \<open>k\<close> coefficient vectors.
\<close>

section \<open>The code\<close>

record rlnc_decoder =
  dec_k :: nat
  dec_piece_size :: nat
  dec_original_size :: nat

definition decoder_new :: "nat \<Rightarrow> nat \<Rightarrow> nat \<Rightarrow> rlnc_decoder" where
  "decoder_new k piece_size original_segment_size =
     \<lparr>dec_k = k, dec_piece_size = piece_size, dec_original_size = original_segment_size\<rparr>"

text \<open>\<open>for row in 0..k\<close>: eliminate the pivot column, in the coefficients and in the data.\<close>

fun decode_elim :: "nat \<Rightarrow> nat \<Rightarrow> bytes \<Rightarrow> bytes \<Rightarrow> bytes list \<Rightarrow> bytes list \<Rightarrow> (bytes list \<times> bytes list) er" where
  "decode_elim row col pivot_coeffs pivot_data (c # coeffs) (d # data) =
     obind (if row = col then Ok (c, d)
            else obind (oidx c col) (\<lambda>factor.
              if factor = 0 then Ok (c, d)
              else let factor_table = mul_table factor
                   in Ok (axpy_table factor_table pivot_coeffs c, axpy_table factor_table pivot_data d)))
       (\<lambda>(c', d'). obind (decode_elim (Suc row) col pivot_coeffs pivot_data coeffs data)
          (\<lambda>(coeffs', data'). Ok (c' # coeffs', d' # data')))"
| "decode_elim row col pivot_coeffs pivot_data coeffs data = Ok ([], [])"

definition decode_col :: "nat \<Rightarrow> bytes list \<times> bytes list \<Rightarrow> (bytes list \<times> bytes list) er" where
  "decode_col col st = (case st of (coeffs, data) \<Rightarrow>
     obind (find_nz col (drop col coeffs)) (\<lambda>pivot. case pivot of
         None \<Rightarrow> Err LinearlyDependent
       | Some d \<Rightarrow>
           let pivot_row = col + d;
               (coeffs, data) = (if pivot_row \<noteq> col
                 then (swap_rows col pivot_row coeffs, swap_rows col pivot_row data) else (coeffs, data)) in
           obind (oidx (coeffs ! col) col) (\<lambda>v. case gf_inv v of
               None \<Rightarrow> Err (DecodingFailed ''zero pivot'')
             | Some iv \<Rightarrow>
                 let inv_table = mul_table iv;
                     coeffs = coeffs[col := scale_table inv_table (coeffs ! col)];
                     data = data[col := scale_table inv_table (data ! col)]
                 in decode_elim 0 col (coeffs ! col) (data ! col) coeffs data)))"

fun decode_cols :: "nat list \<Rightarrow> bytes list \<times> bytes list \<Rightarrow> (bytes list \<times> bytes list) er" where
  "decode_cols [] st = Ok st"
| "decode_cols (col # cols) st = obind (decode_col col st) (decode_cols cols)"

definition decode :: "rlnc_decoder \<Rightarrow> coded_piece list \<Rightarrow> bytes er" where
  "decode self pieces =
     (if length pieces < dec_k self
      then Err (InsufficientPieces (length pieces) (dec_k self))
      else let k = dec_k self;
               coeffs = map coefficients (take k pieces);
               data = map piece_data (take k pieces)
           in obind (decode_cols [0..<k] (coeffs, data)) (\<lambda>(coeffs, data).
                Ok (take (dec_original_size self) (concat data))))"

section \<open>The augmented matrix\<close>

text \<open>One row per piece, coefficients and data side by side, as the comment in the code says.\<close>

abbreviation augment :: "bytes list \<Rightarrow> bytes list \<Rightarrow> bytes list" where
  "augment \<equiv> map2 (@)"

lemma axpy_append:
  "length p = length r \<Longrightarrow> axpy f (p @ q) (r @ s) = axpy f p r @ axpy f q s"
  by (induction p r rule: list_induct2) simp_all

lemma scale_row_append: "scale_row c (r @ s) = scale_row c r @ scale_row c s"
  by (simp add: scale_row_def)

lemma decode_elim_eq:
  assumes "rect k C" and "length C = length D" and "col < k"
  shows "decode_elim row col pc pd C D = Ok
    (map (\<lambda>r. if row + r = col then C ! r else axpy (C ! r ! col) pc (C ! r)) [0..<length C],
     map (\<lambda>r. if row + r = col then D ! r else axpy (C ! r ! col) pd (D ! r)) [0..<length C])"
  using assms(2,1)
proof (induction C D arbitrary: row rule: list_induct2)
  case (Cons c C d D)
  have shift: "map f [0..<length (c # C)] = f 0 # map (\<lambda>r. f (Suc r)) [0..<length C]" for f :: "nat \<Rightarrow> bytes"
    by (simp add: upt_conv_Cons map_Suc_upt [symmetric] del: upt_Suc)
  show ?case
    unfolding shift using Cons assms(3) by (auto simp: Let_def)
qed simp

text \<open>
  One column of the decoder is the shared \<open>pivot_step\<close> on the augmented matrix, or fails when the
  column has no pivot.
\<close>

lemma decode_col_cases:
  assumes C: "rect k C" "length C = k" and D: "rect m D" "length D = k" and "col < k"
  obtains (dependent) "\<forall>r < k. col \<le> r \<longrightarrow> C ! r ! col = 0" and "decode_col col (C, D) = Err LinearlyDependent"
  | (pivot) p C' D' where "col \<le> p" "p < k" "C ! p ! col \<noteq> 0"
      "decode_col col (C, D) = Ok (C', D')" "rect k C'" "length C' = k" "rect m D'" "length D' = k"
      "augment C' D' = pivot_step col col p (augment C D)"
proof (cases "\<forall>r < k. col \<le> r \<longrightarrow> C ! r ! col = 0")
  case True
  have "rect k (drop col C)" using C(1) by (auto dest: in_set_dropD)
  moreover have "\<forall>row \<in> set (drop col C). row ! col = 0"
    using True C(2) by (auto simp: in_set_conv_nth)
  ultimately have "find_nz col (drop col C) = (Ok None :: nat option er)"
    using assms(5) find_nz_eq_None by blast
  with True show thesis by (intro dependent) (simp_all add: decode_col_def)
next
  case False
  have rd: "rect k (drop col C)" using C(1) by (auto dest: in_set_dropD)
  have nz: "\<not> (\<forall>row \<in> set (drop col C). row ! col = 0)"
  proof
    assume all: "\<forall>row \<in> set (drop col C). row ! col = 0"
    have "C ! r ! col = 0" if "r < k" "col \<le> r" for r
      using all that C(2) nth_drop [of col C "r - col"] nth_mem [of "r - col" "drop col C"] by force
    with False show False by blast
  qed
  obtain pivot' where "find_nz col (drop col C) = (Ok pivot' :: nat option er)"
    using find_nz_total [OF rd assms(5)] by blast
  with nz find_nz_eq_None [OF rd assms(5)] obtain d where d: "find_nz col (drop col C) = (Ok (Some d) :: nat option er)"
    by (cases pivot') auto
  from find_nz_eq_Some [OF rd assms(5) this] C(2) have p: "col + d < k" "C ! (col + d) ! col \<noteq> 0"
    by auto
  let ?p = "col + d"
  obtain iv where iv: "gf_inv (C ! ?p ! col) = Some iv" using p(2) by (rule gf_inv_Some)
  let ?s = "\<lambda>r. if r = col then ?p else if r = ?p then col else r"
  have swap: "swap_rows col ?p xs ! r = xs ! ?s r" if "length xs = k" "r < k" for xs :: "bytes list" and r
    using that p(1) by (intro swap_rows_nth) simp_all
  let ?C1 = "swap_rows col ?p C" and ?D1 = "swap_rows col ?p D"
  let ?C2 = "?C1[col := scale_row iv (?C1 ! col)]" and ?D2 = "?D1[col := scale_row iv (?D1 ! col)]"
  have C2: "?C2 ! r = (if r = col then scale_row iv (C ! ?p) else C ! ?s r)" if "r < k" for r
    using that C p(1) by (simp add: swap nth_list_update)
  have D2: "?D2 ! r = (if r = col then scale_row iv (D ! ?p) else D ! ?s r)" if "r < k" for r
    using that D p(1) by (simp add: swap nth_list_update)
  have rC2: "rect k ?C2" "length ?C2 = length ?D2"
    using C D p(1) by (auto simp: in_set_conv_nth C2 simp del: length_list_update) (auto simp: C2)
  let ?C' = "map (\<lambda>r. if r = col then ?C2 ! r else axpy (?C2 ! r ! col) (?C2 ! col) (?C2 ! r)) [0..<k]"
  let ?D' = "map (\<lambda>r. if r = col then ?D2 ! r else axpy (?C2 ! r ! col) (?D2 ! col) (?D2 ! r)) [0..<k]"
  have run: "decode_col col (C, D) = Ok (?C', ?D')"
  proof -
    have "length (?C1 ! col) = k" using C p(1) assms(5) by (simp add: swap)
    moreover have "(if ?p \<noteq> col then (swap_rows col ?p C, swap_rows col ?p D) else (C, D)) = (?C1, ?D1)"
      by (simp add: swap_rows_def)
    ultimately have "decode_col col (C, D) = decode_elim 0 col (?C2 ! col) (?D2 ! col) ?C2 ?D2"
      using d iv assms(5) C(2) D(2) swap [OF C(2) assms(5)]
      unfolding decode_col_def by (simp add: Let_def)
    then show ?thesis
      unfolding decode_elim_eq [OF rC2 assms(5)] using C(2) by simp
  qed
  show thesis
  proof (rule pivot [OF _ _ p(2) run])
    show "augment ?C' ?D' = pivot_step col col ?p (augment C D)"
    proof (rule nth_equalityI)
      fix r assume "r < length (augment ?C' ?D')"
      then have r: "r < k" by simp
      have s: "?s r < k" using r p(1) assms(5) by simp
      have len: "length (C ! i) = k" "length (D ! i) = m" if "i < k" for i
        using that C D by simp_all
      show "augment ?C' ?D' ! r = pivot_step col col ?p (augment C D) ! r"
        using r s p(1) C(2) D(2) assms(5) len
        by (simp add: pivot_step_nth pivot_row_def iv swap nth_append scale_row_append axpy_append)
    qed (use C D in simp)
  qed (use p C D assms(5) in \<open>auto simp: swap\<close>)
qed

section \<open>The invariant of the decoder\<close>

text \<open>
  After \<open>c\<close> columns the augmented matrix is reduced with the pivot columns \<open>0, \<dots>, c - 1\<close>, and it
  has the same kernel as at the start.
\<close>

lemma rect_augment: "rect k C \<Longrightarrow> rect m D \<Longrightarrow> rect (k + m) (augment C D)"
  by (auto simp: set_zip)

lemma augment_kernel:
  assumes "rect k C" "rect m D" "length C = length D" "length x = k"
  shows "(\<forall>row \<in> set (augment C D). dot row (x @ replicate m 0) = 0) \<longleftrightarrow> (\<forall>row \<in> set C. dot row x = 0)"
proof -
  have "dot (augment C D ! r) (x @ replicate m 0) = dot (C ! r) x" if "r < length C" for r
    using that assms by (simp add: dot_append dot_commute [of "D ! r"])
  moreover have "length (augment C D) = length C"
    using assms(3) by simp
  ultimately show ?thesis
    unfolding all_set_conv_all_nth by simp
qed

lemma decode_cols_spec:
  assumes "rect k C" "length C = k" "rect m D" "length D = k" and "c \<le> k"
    and "reduced (k + m) c (augment C D, c, [0..<c])"
  shows "(\<exists>x. length x = k \<and> x \<noteq> replicate k 0 \<and> (\<forall>row \<in> set C. dot row x = 0) \<and>
            decode_cols [c..<k] (C, D) = Err LinearlyDependent)
    \<or> (\<exists>C' D'. decode_cols [c..<k] (C, D) = Ok (C', D') \<and>
            rect k C' \<and> length C' = k \<and> rect m D' \<and> length D' = k \<and>
            reduced (k + m) k (augment C' D', k, [0..<k]) \<and>
            (\<forall>w. (\<forall>row \<in> set (augment C' D'). dot row w = 0) \<longleftrightarrow> (\<forall>row \<in> set (augment C D). dot row w = 0)))"
  using assms
proof (induction "k - c" arbitrary: c C D)
  case 0
  then show ?case by auto
next
  case (Suc n)
  then have c: "c < k" "[c..<k] = c # [Suc c..<k]" "n = k - Suc c" "Suc c \<le> k"
    by (simp_all add: upt_conv_Cons)
  note C = Suc.prems(1,2) and D = Suc.prems(3,4) and red = Suc.prems(6)
  have len: "length (C ! i) = k" "length (D ! i) = m" if "i < k" for i
    using that C D by simp_all
  have aug: "augment C D ! r ! j = C ! r ! j" if "r < k" "j < k" for r j
    using that C D len by (simp add: nth_append)
  show ?case
  proof (cases rule: decode_col_cases [OF C D c(1), case_names dependent pivot])
    case dependent
    let ?x = "map (\<lambda>j. C ! j ! c) [0..<c] @ [1] @ replicate (k - Suc c) 0"
    have unit: "C ! r ! j = (if r = j then 1 else 0)" if "r < k" "j < c" for r j
      using red that c(1) C(2) D(2) aug [of r j] unfolding reduced_def by force
    have "dot (C ! r) ?x = 0" if r: "r < k" for r
    proof -
      have "dot (take c (C ! r)) (map (\<lambda>j. C ! j ! c) [0..<c]) = (if r < c then C ! r ! c else 0)"
      proof (cases "r < c")
        case True
        have "take c (C ! r) = (replicate c 0)[r := 1]"
          using r True c(1) len unit by (intro nth_equalityI) (auto simp: nth_list_update)
        then show ?thesis using True by (simp add: dot_unit)
      next
        case False
        have "take c (C ! r) = replicate c 0"
          using r False c(1) len unit by (intro nth_equalityI) auto
        then show ?thesis using False by simp
      qed
      moreover have "dot (take c (C ! r) @ [C ! r ! c] @ drop (Suc c) (C ! r)) ?x =
          dot (take c (C ! r)) (map (\<lambda>j. C ! j ! c) [0..<c]) XOR (C ! r ! c XOR
            dot (drop (Suc c) (C ! r)) (replicate (k - Suc c) 0))"
        using r c(1) len by (subst dot_append) simp_all
      moreover have "take c (C ! r) @ [C ! r ! c] @ drop (Suc c) (C ! r) = C ! r"
        using r c(1) len by (simp add: Cons_nth_drop_Suc)
      ultimately have "dot (C ! r) ?x = (if r < c then C ! r ! c else 0) XOR (C ! r ! c XOR
          dot (drop (Suc c) (C ! r)) (replicate (k - Suc c) 0))"
        by (simp only:)
      then show ?thesis
        using dependent(1) r by (auto simp: dot_commute [of _ "replicate _ _"])
    qed
    moreover have "?x \<noteq> replicate k 0"
    proof
      assume "?x = replicate k 0"
      then have "?x ! c = replicate k 0 ! c" by simp
      with c(1) show False by (simp add: nth_append)
    qed
    ultimately show ?thesis
      using dependent(2) c C by (intro disjI1 exI [of _ ?x]) (auto simp: in_set_conv_nth)
  next
    case (pivot p C' D')
    have rectA: "rect (k + m) (augment C D)" and lenA: "length (augment C D) = k"
      using rect_augment C D by simp_all
    have pv: "augment C D ! p ! c \<noteq> 0" using pivot c(1) aug by simp
    have "reduced (k + m) (Suc c) (augment C' D', Suc c, [0..<Suc c])"
      using reduced_pivot [OF red _ pivot(1) _ pv] pivot(2,9) c(1) C(2) D(2) by simp
    note IH = Suc.hyps(1) [OF c(3) pivot(5-8) c(4) this]
    have ker: "(\<forall>row \<in> set (augment C' D'). dot row w = 0) \<longleftrightarrow> (\<forall>row \<in> set (augment C D). dot row w = 0)" for w
      unfolding pivot(9)
      using kernel.pivot_step_closed [where n = "k + m" and M = "augment C D" and rank = c and p = p and w = w and col = c]
        kernel.pivot_step_closed_rev [where n = "k + m" and M = "augment C D" and rank = c and p = p and w = w and col = c]
        rectA lenA pivot(2) c(1) pv by blast
    have kerC: "(\<forall>row \<in> set C'. dot row x = 0) \<longleftrightarrow> (\<forall>row \<in> set C. dot row x = 0)" if x: "length x = k" for x
    proof -
      have "length C' = length D'" "length C = length D" using C D pivot(6,8) by simp_all
      from ker [of "x @ replicate m 0"] augment_kernel [OF pivot(5,7) this(1) x] augment_kernel [OF C(1) D(1) this(2) x]
      show ?thesis by (simp only:)
    qed
    have run: "decode_cols [c..<k] (C, D) = decode_cols [Suc c..<k] (C', D')"
      using pivot(4) c(2) by simp
    from IH show ?thesis
    proof (elim disjE exE conjE)
      fix x assume "length x = k" "x \<noteq> replicate k 0" "\<forall>row \<in> set C'. dot row x = 0"
        "decode_cols [Suc c..<k] (C', D') = Err LinearlyDependent"
      then show ?thesis using kerC [of x] unfolding run by (intro disjI1 exI [of _ x]) blast
    next
      fix C'' D'' assume "decode_cols [Suc c..<k] (C', D') = Ok (C'', D'')"
        "rect k C''" "length C'' = k" "rect m D''" "length D'' = k" "reduced (k + m) k (augment C'' D'', k, [0..<k])"
        and ker'': "\<forall>w. (\<forall>row \<in> set (augment C'' D''). dot row w = 0) \<longleftrightarrow> (\<forall>row \<in> set (augment C' D'). dot row w = 0)"
      then show ?thesis
        unfolding run by (intro disjI2 exI [of _ C''] exI [of _ D'']) (simp only: ker'' ker simp_thms)
    qed
  qed
qed

section \<open>What the decoder returns\<close>

definition orthogonal_to_all :: "nat \<Rightarrow> bytes list \<Rightarrow> bytes \<Rightarrow> bool" where
  "orthogonal_to_all k C x \<longleftrightarrow> length x = k \<and> x \<noteq> replicate k 0 \<and> list_all (\<lambda>row. dot row x = 0) C"

lemma augment_source_kernel:
  assumes "length c = length S" "rect m S" "length d = m" "j < m"
  shows "dot (c @ d) (map (\<lambda>p. p ! j) S @ (replicate m 0)[j := 1]) = lincomb m c S ! j XOR d ! j"
  using assms by (simp add: dot_append lincomb_nth dot_commute [of d] dot_unit)

lemma decode_spec:
  assumes S: "rect m S" "length S = k"
    and pieces: "\<forall>p \<in> set pieces. piece_of m S p" "k \<le> length pieces"
  shows "decode (decoder_new k m n) pieces =
    (if \<exists>x. orthogonal_to_all k (map coefficients (take k pieces)) x then Err LinearlyDependent
     else Ok (take n (concat S)))"
proof -
  let ?C = "map coefficients (take k pieces)" and ?D = "map piece_data (take k pieces)"
  have p: "piece_of m S p" if "p \<in> set (take k pieces)" for p
    using that pieces(1) by (auto dest: in_set_takeD)
  have C: "rect k ?C" "length ?C = k" and D: "rect m ?D" "length ?D = k"
    using p S(2) pieces(2) by (auto dest: piece_of_lengths)
  have "reduced (k + m) 0 (augment ?C ?D, 0, [0..<0])"
    using reduced_init [OF rect_augment [OF C(1) D(1)]] by simp
  from decode_cols_spec [OF C D _ this] consider
    (dep) x where "length x = k" "x \<noteq> replicate k 0" "\<forall>row \<in> set ?C. dot row x = 0"
      "decode_cols [0..<k] (?C, ?D) = Err LinearlyDependent"
  | (ok) C' D' where "decode_cols [0..<k] (?C, ?D) = Ok (C', D')"
      "rect k C'" "length C' = k" "rect m D'" "length D' = k"
      "reduced (k + m) k (augment C' D', k, [0..<k])"
      "\<And>w. (\<forall>row \<in> set (augment C' D'). dot row w = 0) \<longleftrightarrow> (\<forall>row \<in> set (augment ?C ?D). dot row w = 0)"
    by auto
  then show ?thesis
  proof cases
    case dep
    then have "orthogonal_to_all k ?C x" by (simp add: orthogonal_to_all_def list_all_iff)
    with dep pieces(2) show ?thesis by (auto simp: decode_def decoder_new_def Let_def)
  next
    case ok
    have len: "length (C' ! i) = k" "length (D' ! i) = m" if "i < k" for i
      using that ok(2-5) by simp_all
    have unit: "C' ! r = (replicate k 0)[r := 1]" if r: "r < k" for r
    proof (rule nth_equalityI)
      fix j assume "j < length (C' ! r)"
      then have j: "j < k" using r len by simp
      then have "augment C' D' ! r ! j = (if r = j then 1 else 0)"
        using ok(3,5,6) r unfolding reduced_def by force
      then show "C' ! r ! j = (replicate k 0)[r := 1] ! j"
        using r j ok(3,5) len by (simp add: nth_append nth_list_update)
    qed (use r len in simp)
    have "\<not> orthogonal_to_all k ?C x" for x
    proof
      assume x: "orthogonal_to_all k ?C x"
      then have lx: "length x = k" and kx: "\<forall>row \<in> set ?C. dot row x = 0"
        by (simp_all add: orthogonal_to_all_def list_all_iff)
      have "length ?C = length ?D" "length C' = length D'" using ok(3,5) by simp_all
      from ok(7) [of "x @ replicate m 0"] kx augment_kernel [OF C(1) D(1) this(1) lx] augment_kernel [OF ok(2,4) this(2) lx]
      have "\<forall>row \<in> set C'. dot row x = 0" by (simp only:)
      then have "x ! r = 0" if "r < k" for r
        using that lx unit [OF that] ok(3) dot_unit [of r x k] nth_mem [of r C'] by force
      then have "x = replicate k 0"
        using x by (intro nth_equalityI) (auto simp: orthogonal_to_all_def)
      with x show False by (simp add: orthogonal_to_all_def)
    qed
    moreover have "D' = S"
    proof (intro nth_equalityI)
      fix r j assume "r < length D'" and "j < length (D' ! r)"
      then have r: "r < k" and j: "j < m" using ok(5) len by simp_all
      let ?w = "map (\<lambda>p. p ! j) S @ (replicate m 0)[j := 1]"
      have "\<forall>row \<in> set (augment ?C ?D). dot row ?w = 0"
      proof
        fix row assume "row \<in> set (augment ?C ?D)"
        then obtain q where "q \<in> set (take k pieces)" "row = coefficients q @ piece_data q"
          by (auto simp: zip_map_map zip_same_conv_map)
        with p [of q] S j show "dot row ?w = 0"
          by (simp add: augment_source_kernel piece_of_def)
      qed
      then have "\<forall>row \<in> set (augment C' D'). dot row ?w = 0"
        unfolding ok(7) .
      moreover have "augment C' D' ! r \<in> set (augment C' D')"
        using ok(3,5) r by (intro nth_mem) simp
      ultimately have "dot (augment C' D' ! r) ?w = 0" ..
      then have "lincomb m (C' ! r) S ! j = D' ! r ! j"
        using augment_source_kernel [of "C' ! r" S m "D' ! r" j] S r j ok(3,5) len by simp
      then show "D' ! r ! j = S ! r ! j"
        using lincomb_unit [of S m r] S r unit [OF r] by simp
    qed (use ok(5) S len in simp_all)
    ultimately show ?thesis
      using ok(1) pieces(2) by (auto simp: decode_def decoder_new_def Let_def)
  qed
qed

lemma source_pieces_independent: "\<not> orthogonal_to_all (encoder_k e) (map coefficients (source_pieces e)) x"
proof
  let ?k = "encoder_k e"
  assume x: "orthogonal_to_all ?k (map coefficients (source_pieces e)) x"
  then have "dot ((replicate ?k 0)[i := 1]) x = 0" if "i < ?k" for i
    using that by (simp add: orthogonal_to_all_def source_pieces_def list_all_iff Let_def)
  moreover have "length x = ?k" using x by (simp add: orthogonal_to_all_def)
  ultimately have "x = replicate ?k 0"
    by (intro nth_equalityI) (simp_all add: dot_unit)
  with x show False by (simp add: orthogonal_to_all_def)
qed

section \<open>Properties\<close>

text \<open>
  C2: the decoder on coded pieces of a segment with \<open>k\<close> source pieces, in every case: fewer than \<open>k\<close>
  pieces are refused; \<open>k\<close> pieces whose coefficient vectors some nonzero vector is orthogonal to are
  reported as linearly dependent; all others give back the source pieces, cut to the original size.
  It never panics and never returns wrong bytes.
\<close>

theorem decode_characterisation:
  assumes "list_all (\<lambda>row. length row = m) S" and "list_all (piece_of m S) pieces"
  shows "decode (decoder_new (length S) m n) pieces =
    (if length pieces < length S then Err (InsufficientPieces (length pieces) (length S))
     else if \<exists>x. orthogonal_to_all (length S) (map coefficients (take (length S) pieces)) x
       then Err LinearlyDependent
     else Ok (take n (concat S)))"
proof (cases "length pieces < length S")
  case True
  then show ?thesis by (simp add: decode_def decoder_new_def)
next
  case False
  with decode_spec [of S m "length S" pieces n] assms show ?thesis
    by (simp add: list_all_iff)
qed

theorem decode_characterisation_witness:
  "decode (decoder_new 2 2 3)
     [\<lparr>piece_data = [3, 9], coefficients = [1, 1]\<rparr>, \<lparr>piece_data = [3, 9], coefficients = [1, 1]\<rparr>]
   = Err LinearlyDependent"
proof -
  let ?S = "[[7, 9], [4, 0]] :: bytes list"
  let ?p = "\<lparr>piece_data = [3, 9], coefficients = [1, 1]\<rparr>"
  have "piece_of 2 ?S ?p" unfolding piece_of_def by code_simp
  moreover have "orthogonal_to_all 2 [[1, 1], [1, 1]] [1, 1]" by code_simp
  ultimately show ?thesis
    using decode_characterisation [of 2 ?S "[?p, ?p]" 3] by (auto simp: numeral_2_eq_2)
qed

text \<open>
  the round trip without loss: the source pieces of a segment decode to exactly that segment,
  the zero padding of the last piece removed.
\<close>

theorem decode_source_pieces:
  assumes "encoder_new xs m = Ok e"
  shows "decode (decoder_new (encoder_k e) m (length xs)) (source_pieces e) = Ok xs"
proof -
  note e = encoder_new_Ok [OF assms]
  let ?S = "enc_pieces e" and ?k = "encoder_k e"
  have len: "length (source_pieces e) = ?k" by (simp add: source_pieces_def Let_def)
  then show ?thesis
    using decode_spec [OF e(4) refl, of "source_pieces e" "length xs"] source_pieces_independent [of e] source_pieces_piece_of [OF e(4)] e(7) len
    by (simp add: encoder_k_def)
qed

theorem decode_source_pieces_witness:
  "decode (decoder_new 2 2 3)
     (source_pieces \<lparr>enc_pieces = [[7, 9], [4, 0]], enc_piece_size = 2\<rparr>) = Ok [7, 9, 4]"
proof -
  have "encoder_new [7, 9, 4] 2 = Ok \<lparr>enc_pieces = [[7, 9], [4, 0]], enc_piece_size = 2\<rparr>"
    by code_simp
  moreover have "encoder_k \<lparr>enc_pieces = [[7, 9], [4, 0]], enc_piece_size = 2\<rparr> = 2" by (simp add: encoder_k_def)
  moreover have "length [7 :: u8, 9, 4] = 3" by simp
  ultimately show ?thesis using decode_source_pieces by metis
qed

end
