(* ===== verification/Rank.thy ===== *)
theory Rank
  imports Complex_Main Rlnc
begin

text \<open>
  \<open>crates/erasure/src/lib.rs\<close>, \<open>check_independence\<close> and \<open>generate_orthogonal_vector\<close>. Their contract is
  stated in the vector space the rows live in: \<open>vec\<close>, the sequences over the field \<open>gf\<close>, an instance
  of the library's \<open>vector_space\<close>; \<open>gfv.dim\<close> and \<open>gfv.span\<close> are its dimension and span. A Rust
  \<open>Option\<close> is an outcome with the error \<open>()\<close>, so that \<open>?\<close> is \<open>obind\<close>.
\<close>

section \<open>The code\<close>

type_synonym 'a opt = "(unit, 'a) outcome"

text \<open>\<open>Ok\<close> for a zero pivot is the code's \<open>continue\<close>.\<close>

definition check_independence :: "bytes list \<Rightarrow> ('e, nat) outcome" where
  "check_independence vectors =
     (if vectors = [] then Ok 0
      else let k = length (vectors ! 0)
           in obind (reduce_cols Ok k [0..<k] (vectors, 0, [])) (\<lambda>(matrix, rank, pivot_cols). Ok rank))"

definition unit_row :: "nat \<Rightarrow> nat \<Rightarrow> bytes" where
  "unit_row k i = (replicate k 0)[i := 1]"

definition generate_orthogonal_vector :: "bytes list \<Rightarrow> nat \<Rightarrow> nat \<Rightarrow> bytes opt" where
  "generate_orthogonal_vector existing k offset =
     (if k = 0 then Err ()
      else if existing = [] then Ok (unit_row k 0)
      else obind (reduce_cols Ok k [0..<k] (existing, 0, [])) (\<lambda>(matrix, rank, pivot_cols).
        if k \<le> rank then Err ()
        else let free_cols = filter (\<lambda>c. c \<notin> set pivot_cols) [0..<k]
             in if free_cols = [] then Err ()
                else let col_index = offset mod length free_cols; free_col = free_cols ! col_index
                     in Ok (unit_row k free_col)))"

section \<open>Rows as vectors\<close>

datatype vec = Vec (vec_at: "nat \<Rightarrow> gf")

instantiation vec :: ab_group_add
begin

definition zero_vec :: vec where "zero_vec = Vec (\<lambda>_. 0)"
definition plus_vec :: "vec \<Rightarrow> vec \<Rightarrow> vec" where "plus_vec u v = Vec (\<lambda>i. vec_at u i + vec_at v i)"
definition minus_vec :: "vec \<Rightarrow> vec \<Rightarrow> vec" where "minus_vec u v = Vec (\<lambda>i. vec_at u i - vec_at v i)"
definition uminus_vec :: "vec \<Rightarrow> vec" where "uminus_vec u = Vec (\<lambda>i. - vec_at u i)"

instance
  by standard (simp_all add: zero_vec_def plus_vec_def minus_vec_def uminus_vec_def add.assoc,
      simp add: add.commute)

end

definition smult :: "gf \<Rightarrow> vec \<Rightarrow> vec" where
  "smult c v = Vec (\<lambda>i. c * vec_at v i)"

interpretation gfv: vector_space smult
  by unfold_locales (simp_all add: smult_def plus_vec_def distrib_left distrib_right mult.assoc)

definition of_row :: "bytes \<Rightarrow> vec" where
  "of_row row = Vec (\<lambda>i. if i < length row then Gf (row ! i) else 0)"

lemma vec_at_simps [simp]:
  "vec_at 0 i = 0" "vec_at (u + v) i = vec_at u i + vec_at v i" "vec_at (smult c v) i = c * vec_at v i"
  "vec_at (of_row row) i = (if i < length row then Gf (row ! i) else 0)"
  by (simp_all add: zero_vec_def plus_vec_def smult_def of_row_def)

lemma vec_eqI: "(\<And>i. vec_at u i = vec_at v i) \<Longrightarrow> u = v"
  by (cases u; cases v) (auto simp: fun_eq_iff)

lemma vec_at_sum: "vec_at (sum f A) i = (\<Sum>a \<in> A. vec_at (f a) i)"
  by (induction A rule: infinite_finite_induct) simp_all

lemma of_row_axpy: "length u = length v \<Longrightarrow> of_row (axpy c u v) = of_row v + smult (Gf c) (of_row u)"
  by (rule vec_eqI) (simp add: gf_simps)

lemma of_row_scale: "of_row (scale_row c u) = smult (Gf c) (of_row u)"
  by (rule vec_eqI) (simp add: gf_simps gf_mul_commute)

lemma of_row_zero: "of_row (replicate n 0) = 0"
  by (rule vec_eqI) (simp add: gf_simps)

text \<open>Every subspace is closed under row operations, so elimination keeps the span.\<close>

interpretation spanned: row_closed "\<lambda>row. of_row row \<in> gfv.span X" n for X n
  by unfold_locales (simp_all add: of_row_axpy of_row_scale gfv.span_add gfv.span_scale)

abbreviation row_space :: "bytes list \<Rightarrow> vec set" where
  "row_space M \<equiv> gfv.span (of_row ` set M)"

lemma lincomb_in_span:
  assumes "rect n M"
  shows "of_row (lincomb n cs M) \<in> row_space M"
  using assms
proof (induction n cs M rule: lincomb.induct)
  case (1 n c cs p ps)
  have "row_space ps \<subseteq> row_space (p # ps)" by (intro gfv.span_mono) auto
  with 1 have "of_row (lincomb n cs ps) \<in> row_space (p # ps)" by auto
  with 1 show ?case by (simp add: of_row_axpy gfv.span_add gfv.span_scale gfv.span_base)
qed (simp_all add: of_row_zero gfv.span_zero)

lemma row_space_eqI:
  assumes "\<forall>P. row_closed P n \<longrightarrow> (\<forall>row \<in> set M'. P row) \<longleftrightarrow> (\<forall>row \<in> set M. P row)"
  shows "row_space M' = row_space M"
proof -
  have "(\<forall>row \<in> set M'. of_row row \<in> gfv.span X) \<longleftrightarrow> (\<forall>row \<in> set M. of_row row \<in> gfv.span X)" for X
    using assms spanned.row_closed_axioms by blast
  from this [of "of_row ` set M"] this [of "of_row ` set M'"]
  have "of_row ` set M' \<subseteq> row_space M" "of_row ` set M \<subseteq> row_space M'"
    by (auto intro: gfv.span_base)
  then show ?thesis by (simp add: gfv.span_eq)
qed

section \<open>The rows of a reduced matrix\<close>

definition pivot_part :: "elim_state \<Rightarrow> vec set" where
  "pivot_part st = (case st of (M, rank, piv) \<Rightarrow> of_row ` set (take rank M))"

text \<open>
  The functional of a free column \<open>f\<close>: it vanishes on the pivot rows and on the unit vectors of the
  other free columns, and is \<open>1\<close> on the unit vector of \<open>f\<close>.
\<close>

definition free_functional :: "elim_state \<Rightarrow> nat \<Rightarrow> vec \<Rightarrow> gf" where
  "free_functional st f v = (case st of (M, rank, piv) \<Rightarrow>
     vec_at v f + (\<Sum>i < rank. vec_at (of_row (M ! i)) f * vec_at v (piv ! i)))"

lemma free_functional_linear: "gfv.subspace {v. free_functional st f v = 0}"
proof -
  have add: "free_functional st f (u + v) = free_functional st f u + free_functional st f v" for u v
    by (cases st) (simp add: free_functional_def distrib_left sum.distrib algebra_simps)
  have scale: "free_functional st f (smult c v) = c * free_functional st f v" for c v
    by (cases st) (simp add: free_functional_def distrib_left sum_distrib_left mult.left_commute)
  show ?thesis
    by (simp add: gfv.subspace_def add scale) (cases st, simp add: free_functional_def)
qed

lemma coordinate_linear: "gfv.subspace {v. vec_at v j = 0}"
  by (simp add: gfv.subspace_def)

lemma dual_family:
  assumes "\<And>i. i \<in> I \<Longrightarrow> gfv.subspace (K i)" and "\<And>i. i \<in> I \<Longrightarrow> g i \<notin> K i"
    and "\<And>i j. i \<in> I \<Longrightarrow> j \<in> I \<Longrightarrow> j \<noteq> i \<Longrightarrow> g j \<in> K i"
  shows "gfv.independent (g ` I)" and "inj_on g I"
proof -
  show inj: "inj_on g I"
    using assms(2,3) by (metis inj_onI)
  show "gfv.independent (g ` I)"
    unfolding gfv.dependent_def
  proof
    assume "\<exists>a \<in> g ` I. a \<in> gfv.span (g ` I - {a})"
    then obtain i where i: "i \<in> I" "g i \<in> gfv.span (g ` I - {g i})" by auto
    have "g ` I - {g i} \<subseteq> K i" using assms(3) i(1) by auto
    from gfv.span_minimal [OF this assms(1) [OF i(1)]] i(2) assms(2) [OF i(1)] show False by blast
  qed
qed

text \<open>The pivot rows together with the unit vectors of free columns.\<close>

definition basis_vec :: "nat \<Rightarrow> elim_state \<Rightarrow> nat + nat \<Rightarrow> vec" where
  "basis_vec n st i = (case i of Inl r \<Rightarrow> of_row (fst st ! r) | Inr f \<Rightarrow> of_row (unit_row n f))"

lemma length_unit_row [simp]: "length (unit_row k i) = k"
  by (simp add: unit_row_def)

lemma unit_row_nth [simp]: "j < k \<Longrightarrow> unit_row k i ! j = (if j = i then 1 else 0)"
  by (auto simp: unit_row_def nth_list_update)

lemma reduced_basis:
  assumes "reduced n n (M, rank, piv)" and "F \<subseteq> {..<n} - set piv"
  defines "I \<equiv> Inl ` {..<rank} \<union> Inr ` F"
  shows "gfv.independent (basis_vec n (M, rank, piv) ` I)" and "inj_on (basis_vec n (M, rank, piv)) I"
proof -
  let ?b = "basis_vec n (M, rank, piv)"
  let ?K = "\<lambda>i. case i of Inl r \<Rightarrow> {v. vec_at v (piv ! r) = 0}
                     | Inr f \<Rightarrow> {v. free_functional (M, rank, piv) f v = 0}"
  have M: "rect n M" "length piv = rank" "rank \<le> length M"
    and unit: "\<And>i r. i < rank \<Longrightarrow> r < length M \<Longrightarrow> M ! r ! (piv ! i) = (if r = i then 1 else 0)"
    and below: "\<And>i. i < rank \<Longrightarrow> piv ! i < n"
    using assms(1) by (auto simp: reduced_def)
  have F: "f < n" "\<And>i. i < rank \<Longrightarrow> f \<noteq> piv ! i" "\<And>i. i < rank \<Longrightarrow> piv ! i \<noteq> f" if "f \<in> F" for f
    using assms(2) M(2) that by force+
  have lin: "gfv.subspace (?K i)" if "i \<in> I" for i
    using free_functional_linear coordinate_linear by (cases i) auto
  have self: "?b i \<notin> ?K i" if "i \<in> I" for i
    using that M unit below F by (auto simp: I_def basis_vec_def free_functional_def gf_simps)
  have row: "free_functional (M, rank, piv) f (of_row (M ! r)) = 0" if "r < rank" "f \<in> F" for r f
  proof -
    have "(\<Sum>i < rank. vec_at (of_row (M ! i)) f * vec_at (of_row (M ! r)) (piv ! i)) =
        (\<Sum>i < rank. if i = r then Gf (M ! i ! f) else 0)"
      using that M unit below F by (intro sum.cong) (auto simp: gf_simps)
    also have "\<dots> = Gf (M ! r ! f)" using that by simp
    finally show ?thesis
      using that M F by (simp add: free_functional_def gf_simps)
  qed
  have other: "?b j \<in> ?K i" if "i \<in> I" "j \<in> I" "j \<noteq> i" for i j
    using that M unit below F row by (auto simp: I_def basis_vec_def free_functional_def gf_simps split: if_splits)
  from dual_family [where g = ?b and K = ?K and I = I, OF lin self other]
  show "gfv.independent (?b ` I)" "inj_on ?b I" by blast+
qed

lemma reduced_row_space:
  assumes "reduced n n (M, rank, piv)"
  shows "row_space M = gfv.span (basis_vec n (M, rank, piv) ` Inl ` {..<rank})"
proof -
  have M: "rect n M" "rank \<le> length M"
    and zero: "\<And>r j. r < length M \<Longrightarrow> rank \<le> r \<Longrightarrow> j < n \<Longrightarrow> M ! r ! j = 0"
    using assms by (auto simp: reduced_def)
  let ?B = "basis_vec n (M, rank, piv) ` Inl ` {..<rank}"
  have "of_row (M ! r) \<in> gfv.span ?B" if "r < length M" for r
  proof (cases "r < rank")
    case True
    then have "of_row (M ! r) \<in> ?B" by (force simp: basis_vec_def)
    then show ?thesis by (rule gfv.span_base)
  next
    case False
    then have "of_row (M ! r) = 0"
      using that M zero by (intro vec_eqI) simp
    then show ?thesis by (simp add: gfv.span_zero)
  qed
  then have "of_row ` set M \<subseteq> gfv.span ?B" by (auto simp: in_set_conv_nth)
  moreover have "?B \<subseteq> of_row ` set M" using M by (auto simp: basis_vec_def)
  then have "?B \<subseteq> row_space M" by (meson gfv.span_superset order_trans)
  ultimately show ?thesis by (simp add: gfv.span_eq)
qed

lemma reduced_dim:
  assumes red: "reduced n n (M, rank, piv)" and F: "F \<subseteq> {..<n} - set piv"
    and eq: "row_space M = gfv.span X"
  shows "gfv.dim (X \<union> (\<lambda>f. of_row (unit_row n f)) ` F) = rank + card F"
proof -
  let ?b = "basis_vec n (M, rank, piv)" and ?I = "Inl ` {..<rank} \<union> Inr ` F :: (nat + nat) set"
  let ?U = "(\<lambda>f. of_row (unit_row n f)) ` F"
  have fin: "finite F" using F finite_subset by blast
  have U: "?b ` Inr ` F = ?U" by (auto simp: basis_vec_def image_iff)
  have "gfv.span (X \<union> ?U) = gfv.span (?b ` Inl ` {..<rank} \<union> ?U)"
    using eq reduced_row_space [OF red] by (simp add: gfv.span_Un)
  also have "\<dots> = gfv.span (?b ` ?I)" by (simp add: image_Un U)
  finally have "gfv.dim (X \<union> ?U) = gfv.dim (?b ` ?I)" by (metis gfv.dim_span)
  also have "\<dots> = card ?I"
    using reduced_basis [OF red F] by (simp add: gfv.dim_eq_card_independent card_image)
  also have "\<dots> = rank + card F"
    using fin by (subst card_Un_disjoint) (auto simp: card_image)
  finally show ?thesis .
qed

lemma reduce_all:
  assumes "rect n M" and "stop = length M \<or> n \<le> stop"
  obtains M' rank piv where "reduce_cols z stop [0..<n] (M, 0, []) = Ok (M', rank, piv)"
    and "reduced n n (M', rank, piv)" and "length M' = length M" and "row_space M' = row_space M"
  using reduce_cols_reduced [OF reduced_init [OF assms(1)] le0 order_refl assms(2), of z]
  by (elim exE conjE) (rule that, assumption+, erule row_space_eqI)

section \<open>The rank\<close>

lemma check_independence_dim:
  assumes "rect n vs"
  shows "check_independence vs = Ok (gfv.dim (of_row ` set vs))"
proof (cases "vs = []")
  case False
  then have n: "length (vs ! 0) = n" using assms by simp
  obtain M' rank piv where run: "reduce_cols Ok n [0..<n] (vs, 0, []) = (Ok (M', rank, piv) :: ('a, elim_state) outcome)"
    and red: "reduced n n (M', rank, piv)" and "row_space M' = row_space vs"
    by (rule reduce_all [OF assms, where z = Ok and stop = n]) simp_all
  with reduced_dim [OF red, of "{}" "of_row ` set vs"] False n show ?thesis
    by (simp add: check_independence_def)
qed (use gfv.dim_eq_card_independent [OF gfv.independent_empty] in \<open>simp add: check_independence_def\<close>)

section \<open>New vectors\<close>

lemma free_cols_length:
  "distinct piv \<Longrightarrow> \<forall>j \<in> set piv. j < k \<Longrightarrow> length (filter (\<lambda>c. c \<notin> set piv) [0..<k]) = k - length piv"
proof -
  assume piv: "distinct piv" "\<forall>j \<in> set piv. j < k"
  have "length (filter (\<lambda>c. c \<notin> set piv) [0..<k]) = card ({..<k} - set piv)"
    by (subst distinct_card [symmetric]) (auto intro!: arg_cong [where f = card])
  then show ?thesis
    using piv by (simp add: card_Diff_subset subset_eq distinct_card)
qed

text \<open>The free columns, in order; each offset targets one of them, and they raise the rank together.\<close>

lemma generate_spec:
  assumes "rect k existing" and "existing \<noteq> []" and "0 < k"
  obtains fs where "distinct fs" and "length fs = k - gfv.dim (of_row ` set existing)"
    and "gfv.dim (of_row ` set existing) \<le> k"
    and "\<forall>offset. generate_orthogonal_vector existing k offset =
      (if fs = [] then Err () else Ok (unit_row k (fs ! (offset mod length fs))))"
    and "\<forall>F. F \<subseteq> set fs \<longrightarrow> gfv.dim (of_row ` set existing \<union> (\<lambda>f. of_row (unit_row k f)) ` F) =
      gfv.dim (of_row ` set existing) + card F"
    and "\<forall>f \<in> set fs. f < k"
proof -
  obtain M rank piv where run: "reduce_cols Ok k [0..<k] (existing, 0, []) = (Ok (M, rank, piv) :: elim_state opt)"
    and red: "reduced k k (M, rank, piv)" and sp: "row_space M = row_space existing"
    by (rule reduce_all [OF assms(1), where z = Ok and stop = k]) simp_all
  have piv: "distinct piv" "\<forall>j \<in> set piv. j < k" "length piv = rank" "rank \<le> k"
    using red reduced_rank_le [OF red] by (auto simp: reduced_def strict_sorted_iff)
  let ?fs = "filter (\<lambda>c. c \<notin> set piv) [0..<k]"
  have len: "length ?fs = k - rank" using free_cols_length [OF piv(1,2)] piv(3) by simp
  have rank: "gfv.dim (of_row ` set existing) = rank"
    using reduced_dim [OF red _ sp, of "{}"] by simp
  show thesis
  proof (rule that [of ?fs])
    have empty: "?fs = [] \<longleftrightarrow> k \<le> rank"
      unfolding length_0_conv [symmetric] len by simp
    show "\<forall>offset. generate_orthogonal_vector existing k offset =
      (if ?fs = [] then Err () else Ok (unit_row k (?fs ! (offset mod length ?fs))))"
      using assms run empty by (simp add: generate_orthogonal_vector_def Let_def del: filter_empty_conv)
    show "\<forall>F. F \<subseteq> set ?fs \<longrightarrow> gfv.dim (of_row ` set existing \<union> (\<lambda>f. of_row (unit_row k f)) ` F) =
      gfv.dim (of_row ` set existing) + card F"
      unfolding rank by (intro allI impI reduced_dim [OF red _ sp]) auto
  qed (use len rank piv in simp_all)
qed

section \<open>Properties\<close>

text \<open>
  C31: on coefficient vectors of equal length \<open>check_independence\<close> never panics and returns the
  dimension of the vector space they span over GF(2^8).
\<close>

theorem check_independence_is_dimension:
  assumes "list_all (\<lambda>row. length row = n) vs"
  shows "check_independence vs = Ok (gfv.dim (of_row ` set vs))"
  using check_independence_dim assms by (simp add: list_all_iff)

theorem check_independence_is_dimension_witness:
  "gfv.dim (of_row ` {[1, 2], [3, 6], [0, 5]}) = 2"
proof -
  have eq: "check_independence [[1, 2], [3, 6], [0, 5]] = (Ok 2 :: nat opt)"
    by code_simp
  have "check_independence [[1, 2], [3, 6], [0, 5]] = (Ok (gfv.dim (of_row ` set [[1, 2], [3, 6], [0, 5]])) :: nat opt)"
    by (rule check_independence_is_dimension [where n = 2]) simp
  then show ?thesis unfolding eq by simp
qed

text \<open>
  C22: simultaneous repair. Given the coefficient vectors the network holds (at least one), of rank
  \<open>r\<close>, \<open>generate_orthogonal_vector\<close> fails exactly when \<open>r = k\<close>; otherwise nodes with different
  offsets \<open>0, \<dots>, n - 1\<close>, \<open>n \<le> k - r\<close>, compute vectors that all add to the rank at once, and an
  offset beyond that wraps around.
\<close>

theorem parallel_repair_raises_rank:
  assumes "list_all (\<lambda>row. length row = k) existing" and "existing \<noteq> []" and "0 < k"
  shows "\<exists>r \<le> k. check_independence existing = (Ok r :: nat opt) \<and>
    (generate_orthogonal_vector existing k offset = Err () \<longleftrightarrow> r = k) \<and>
    (r < k \<longrightarrow> generate_orthogonal_vector existing k offset = generate_orthogonal_vector existing k (offset mod (k - r))) \<and>
    (n \<le> k - r \<longrightarrow> (\<exists>vs. otraverse (generate_orthogonal_vector existing k) [0..<n] = Ok vs \<and>
       check_independence (existing @ vs) = (Ok (r + n) :: nat opt)))"
proof -
  have rect: "rect k existing" using assms by (simp add: list_all_iff)
  from rect assms(2,3) obtain fs where fs: "distinct fs" "length fs = k - gfv.dim (of_row ` set existing)"
    "gfv.dim (of_row ` set existing) \<le> k"
    and gen: "\<forall>offset. generate_orthogonal_vector existing k offset =
      (if fs = [] then Err () else Ok (unit_row k (fs ! (offset mod length fs))))"
    and dim: "\<forall>F. F \<subseteq> set fs \<longrightarrow> gfv.dim (of_row ` set existing \<union> (\<lambda>f. of_row (unit_row k f)) ` F) =
      gfv.dim (of_row ` set existing) + card F"
    and "\<forall>f \<in> set fs. f < k"
    by (rule generate_spec)
  let ?r = "gfv.dim (of_row ` set existing)"
  have many: "\<exists>vs. otraverse (generate_orthogonal_vector existing k) [0..<n] = Ok vs \<and>
       check_independence (existing @ vs) = (Ok (?r + n) :: nat opt)" if n: "n \<le> k - ?r"
  proof (intro exI conjI)
    let ?vs = "map (\<lambda>i. unit_row k (fs ! i)) [0..<n]"
    show "otraverse (generate_orthogonal_vector existing k) [0..<n] = Ok ?vs"
      using n fs by (intro otraverse_all_Ok) (auto simp: gen)
    have "set ?vs = unit_row k ` set (take n fs)"
      using n fs(2) nth_image [of n fs] by (simp flip: image_image)
    then have "of_row ` set (existing @ ?vs) = of_row ` set existing \<union> (\<lambda>f. of_row (unit_row k f)) ` set (take n fs)"
      by (simp add: image_Un image_image)
    moreover have "card (set (take n fs)) = n"
      using n fs by (simp add: distinct_card)
    ultimately have "gfv.dim (of_row ` set (existing @ ?vs)) = ?r + n"
      using dim by (simp add: set_take_subset)
    moreover have "rect k (existing @ ?vs)" using rect by auto
    ultimately show "check_independence (existing @ ?vs) = (Ok (?r + n) :: nat opt)"
      by (metis check_independence_dim)
  qed
  have "fs = [] \<longleftrightarrow> ?r = k" using fs by (metis diff_is_0_eq le_antisym length_0_conv order_refl)
  with many fs(2,3) show ?thesis
    by (intro exI [of _ ?r]) (auto simp: check_independence_dim [OF rect] gen)
qed

theorem parallel_repair_raises_rank_witness:
  "\<exists>vs. otraverse (generate_orthogonal_vector [[1, 1, 0], [0, 1, 1]] 3) [0..<1] = Ok vs \<and>
     check_independence ([[1, 1, 0], [0, 1, 1]] @ vs) = (Ok 3 :: nat opt)"
proof -
  have "check_independence [[1, 1, 0], [0, 1, 1]] = (Ok 2 :: nat opt)" by code_simp
  with parallel_repair_raises_rank [of 3 "[[1, 1, 0], [0, 1, 1]]" 0 1] show ?thesis by auto
qed

text \<open>
  when no coefficient vector is known yet, the offset is ignored: every node computes the same
  first unit vector, whatever its rank position.
\<close>

theorem empty_repair_ignores_offset:
  "generate_orthogonal_vector [] (Suc k) offset = Ok (unit_row (Suc k) 0) \<and>
   generate_orthogonal_vector [] (Suc k) offset = generate_orthogonal_vector [] (Suc k) offset'"
  by (simp add: generate_orthogonal_vector_def)

text \<open>One repair adds exactly one to the rank, until it is full.\<close>

lemma repair_step:
  assumes rect: "rect k existing" and "existing \<noteq> []" and "0 < k" and r: "check_independence existing = (Ok r :: nat opt)"
  shows "if r = k then generate_orthogonal_vector existing k offset = Err ()
    else r < k \<and> (\<exists>v. generate_orthogonal_vector existing k offset = Ok v \<and> rect k (existing @ [v]) \<and>
      check_independence (existing @ [v]) = (Ok (Suc r) :: nat opt))"
proof -
  from rect assms(2,3) obtain fs where fs: "distinct fs" "length fs = k - gfv.dim (of_row ` set existing)"
    "gfv.dim (of_row ` set existing) \<le> k"
    and gen: "\<forall>offset. generate_orthogonal_vector existing k offset =
      (if fs = [] then Err () else Ok (unit_row k (fs ! (offset mod length fs))))"
    and dim: "\<forall>F. F \<subseteq> set fs \<longrightarrow> gfv.dim (of_row ` set existing \<union> (\<lambda>f. of_row (unit_row k f)) ` F) =
      gfv.dim (of_row ` set existing) + card F"
    and "\<forall>f \<in> set fs. f < k"
    by (rule generate_spec)
  have d: "gfv.dim (of_row ` set existing) = r"
    using r by (metis check_independence_dim [OF rect] outcome.inject(1))
  show ?thesis
  proof (cases "r = k")
    case True
    with fs(2) d gen show ?thesis by simp
  next
    case False
    then have ne: "fs \<noteq> []" using fs(2,3) d by auto
    let ?v = "unit_row k (fs ! (offset mod length fs))"
    have "fs ! (offset mod length fs) \<in> set fs" using ne by (intro nth_mem) simp
    then have "gfv.dim (of_row ` set (existing @ [?v])) = Suc r"
      using dim [rule_format, of "{fs ! (offset mod length fs)}"] d by simp
    moreover have "rect k (existing @ [?v])" using rect by auto
    ultimately show ?thesis
      using False fs(3) d gen ne by (metis check_independence_dim le_neq_implies_less)
  qed
qed

end
