(* ===== verification/Repair.thy ===== *)
theory Repair
  imports Rank
begin

text \<open>
  \<open>crates/erasure/src/lib.rs\<close>, \<open>create_orthogonal_piece\<close>: express the vector of
  \<open>generate_orthogonal_vector\<close> as a combination of the local pieces (a linear system solved by the
  shared elimination) and combine the pieces accordingly. That row operations keep the solution set
  of the system is the interpretation \<open>kernel\<close> of \<open>row_closed\<close>.
\<close>

section \<open>The code\<close>

text \<open>One equation per coefficient position, one unknown per local piece, the target last.\<close>

definition system_rows :: "coded_piece list \<Rightarrow> bytes \<Rightarrow> nat \<Rightarrow> bytes list opt" where
  "system_rows local_pieces target k = otraverse (\<lambda>j.
     obind (otraverse (\<lambda>piece. oidx (coefficients piece) j) local_pieces) (\<lambda>row.
     obind (oidx target j) (\<lambda>t. Ok (row @ [t])))) [0..<k]"

definition extract_alphas :: "nat \<Rightarrow> bytes list \<Rightarrow> nat list \<Rightarrow> bytes" where
  "extract_alphas n aug pivot_cols =
     fold (\<lambda>(idx, col) alphas. alphas[col := aug ! idx ! n]) (enumerate 0 pivot_cols) (replicate n 0)"

definition combine_nonzero :: "(coded_piece \<times> u8) list \<Rightarrow> bytes \<times> bytes \<Rightarrow> bytes \<times> bytes" where
  "combine_nonzero = fold (\<lambda>(piece, alpha) (new_data, new_coeffs).
     if alpha = 0 then (new_data, new_coeffs)
     else (axpy alpha (piece_data piece) new_data, axpy alpha (coefficients piece) new_coeffs))"

definition create_orthogonal_piece ::
  "coded_piece list \<Rightarrow> bytes list \<Rightarrow> nat \<Rightarrow> nat \<Rightarrow> coded_piece opt" where
  "create_orthogonal_piece local_pieces all_existing_coefficients k offset =
     (if local_pieces = [] \<or> k = 0 then Err ()
      else obind (generate_orthogonal_vector all_existing_coefficients k offset) (\<lambda>target.
        let n = length local_pieces in
        obind (system_rows local_pieces target k) (\<lambda>aug.
        obind (reduce_cols (\<lambda>_. Err ()) k [0..<n] (aug, 0, [])) (\<lambda>(aug, rank, pivot_cols).
          if list_ex (\<lambda>aug_row. aug_row ! n \<noteq> 0) (drop rank (take k aug)) then Err ()
          else let alphas = extract_alphas n aug pivot_cols;
                   piece_size = length (piece_data (local_pieces ! 0));
                   (new_data, new_coeffs) =
                     combine_nonzero (zip local_pieces alphas) (replicate piece_size 0, replicate k 0)
               in Ok \<lparr>piece_data = new_data, coefficients = new_coeffs\<rparr>))))"

section \<open>The linear system\<close>

text \<open>The right-hand side of the system, and the equations as rows.\<close>

lemma system_rows_eq:
  assumes "\<forall>p \<in> set L. length (coefficients p) = k" and "length t = k"
  shows "system_rows L t k = Ok (map (\<lambda>j. map (\<lambda>p. coefficients p ! j) L @ [t ! j]) [0..<k])"
proof -
  have "otraverse (\<lambda>p. oidx (coefficients p) j) L = (Ok (map (\<lambda>p. coefficients p ! j) L) :: bytes opt)"
    if "j < k" for j
    using assms that by (intro otraverse_all_Ok) simp
  then show ?thesis
    unfolding system_rows_def using assms by (intro otraverse_all_Ok) simp
qed

lemma dot_snoc: "length u = length v \<Longrightarrow> dot (u @ [x]) (v @ [y]) = dot u v XOR gf_mul x y"
  by (simp add: dot_append)

text \<open>A solution of the equations combines the pieces' vectors to the target.\<close>

lemma system_solution_iff:
  assumes "\<forall>p \<in> set L. length (coefficients p) = k" and "length t = k" and "length alphas = length L"
  shows "(\<forall>row \<in> set (map (\<lambda>j. map (\<lambda>p. coefficients p ! j) L @ [t ! j]) [0..<k]). dot row (alphas @ [1]) = 0)
    \<longleftrightarrow> lincomb k alphas (map coefficients L) = t"
proof -
  have "lincomb k alphas (map coefficients L) ! j = dot (map (\<lambda>p. coefficients p ! j) L) alphas" if "j < k" for j
    using assms that by (simp add: lincomb_nth dot_commute comp_def)
  moreover have "x XOR y = 0 \<longleftrightarrow> x = y" for x y :: u8
    by (metis xor_self_eq xor.right_neutral xor.assoc)
  ultimately have "(\<forall>j < k. dot (map (\<lambda>p. coefficients p ! j) L @ [t ! j]) (alphas @ [1]) = 0) \<longleftrightarrow>
      (\<forall>j < k. lincomb k alphas (map coefficients L) ! j = t ! j)"
    using assms(3) by (simp add: dot_snoc)
  also have "\<dots> \<longleftrightarrow> lincomb k alphas (map coefficients L) = t"
    using assms(2) by (simp add: list_eq_iff_nth_eq)
  finally show ?thesis by (simp del: length_lincomb) auto
qed

lemma extract_alphas_nth:
  assumes "distinct piv" "\<forall>j \<in> set piv. j < n"
  shows "length (extract_alphas n aug piv) = n \<and>
    (\<forall>i < length piv. extract_alphas n aug piv ! (piv ! i) = aug ! i ! n) \<and>
    (\<forall>j < n. j \<notin> set piv \<longrightarrow> extract_alphas n aug piv ! j = 0)"
  using assms
proof (induction piv rule: rev_induct)
  case (snoc c piv)
  have "extract_alphas n aug (piv @ [c]) = (extract_alphas n aug piv)[c := aug ! length piv ! n]"
    by (simp add: extract_alphas_def enumerate_append_eq)
  moreover have "piv ! i \<noteq> c" if "i < length piv" for i
    using that snoc.prems(1) by auto
  moreover have "c \<noteq> piv ! i" if "i < length piv" for i
    using that snoc.prems(1) by auto
  ultimately show ?case
    using snoc by (auto simp: nth_append less_Suc_eq)
qed (simp add: extract_alphas_def)

text \<open>
  The solver is sound and complete: a reduced system with a nonzero right-hand side in a zero row
  has no solution, and otherwise the extracted alphas are one.
\<close>

lemma reduced_system_unsolvable:
  assumes "reduced (Suc n) n (A, rank, piv)" and "r < length A" "rank \<le> r" "A ! r ! n \<noteq> 0" and "length x = n"
  shows "dot (A ! r) (x @ [1]) \<noteq> 0"
proof -
  have len: "length (A ! r) = Suc n" and zero: "\<forall>j < n. A ! r ! j = 0"
    using assms by (auto simp: reduced_def)
  have "A ! r = replicate n 0 @ [A ! r ! n]"
    using len zero by (intro nth_equalityI) (auto simp: nth_append less_Suc_eq)
  then have "dot (A ! r) (x @ [1]) = A ! r ! n"
    using assms(5) by (metis dot_snoc dot_replicate_0 gf_mul_1_right length_replicate xor.left_neutral)
  with assms(4) show ?thesis by simp
qed

lemma dot_zero_terms:
  "length u = length v \<Longrightarrow> (\<And>j. j < length u \<Longrightarrow> gf_mul (u ! j) (v ! j) = 0) \<Longrightarrow> dot u v = 0"
proof (induction u v rule: list_induct2)
  case (Cons x xs y ys)
  from Cons.prems [of 0] Cons.prems [of "Suc j" for j] Cons.IH show ?case by simp
qed simp

lemma dot_sparse:
  assumes "length u = n" "length v = n" "c < n" and "\<forall>j < n. j \<noteq> c \<longrightarrow> gf_mul (u ! j) (v ! j) = 0"
  shows "dot u v = gf_mul (u ! c) (v ! c)"
  using assms
proof (induction n arbitrary: u v c)
  case (Suc n)
  obtain a us b vs where uv: "u = a # us" "v = b # vs" using Suc.prems by (cases u; cases v) auto
  show ?case
  proof (cases c)
    case 0
    have "gf_mul (us ! j) (vs ! j) = 0" if "j < n" for j
      using Suc.prems(4) [rule_format, of "Suc j"] that uv 0 by simp
    then have "dot us vs = 0"
      using Suc.prems(1,2) uv by (intro dot_zero_terms) simp_all
    with 0 uv show ?thesis by simp
  next
    case (Suc c')
    have "gf_mul a b = 0" using Suc.prems(4) Suc uv by force
    moreover have "\<forall>j < n. j \<noteq> c' \<longrightarrow> gf_mul (us ! j) (vs ! j) = 0"
    proof (intro allI impI)
      fix j assume "j < n" "j \<noteq> c'"
      with Suc.prems(4) [rule_format, of "Suc j"] Suc uv show "gf_mul (us ! j) (vs ! j) = 0" by simp
    qed
    ultimately show ?thesis
      using Suc.IH [of us vs c'] Suc.prems(1-3) Suc uv by (auto simp del: gf_mul_eq_0)
  qed
qed simp

lemma reduced_system_solved:
  assumes "reduced (Suc n) n (A, rank, piv)" and "\<forall>r < length A. rank \<le> r \<longrightarrow> A ! r ! n = 0"
  shows "\<forall>row \<in> set A. dot row (extract_alphas n A piv @ [1]) = 0"
proof -
  let ?x = "extract_alphas n A piv"
  have A: "rect (Suc n) A" "length piv = rank" "rank \<le> length A" "distinct piv" "\<forall>j \<in> set piv. j < n"
    and unit: "\<And>i r. i < rank \<Longrightarrow> r < length A \<Longrightarrow> A ! r ! (piv ! i) = (if r = i then 1 else 0)"
    and zero: "\<And>r j. r < length A \<Longrightarrow> rank \<le> r \<Longrightarrow> j < n \<Longrightarrow> A ! r ! j = 0"
    using assms(1) by (auto simp: reduced_def strict_sorted_iff)
  note x = extract_alphas_nth [OF A(4,5), of A]
  have split: "A ! r = take n (A ! r) @ [A ! r ! n]" if "r < length A" for r
    using that A(1) by (intro nth_equalityI) (auto simp: nth_append less_Suc_eq)
  have "dot (A ! r) (?x @ [1]) = 0" if r: "r < length A" for r
  proof -
    have "dot (take n (A ! r)) ?x = A ! r ! n"
    proof (cases "r < rank")
      case True
      have "gf_mul (take n (A ! r) ! j) (?x ! j) = 0" if "j < n" "j \<noteq> piv ! r" for j
        using that x True r A(2) unit by (cases "j \<in> set piv") (auto simp: in_set_conv_nth)
      then have "dot (take n (A ! r)) ?x = gf_mul (take n (A ! r) ! (piv ! r)) (?x ! (piv ! r))"
        using A r True x by (intro dot_sparse [where n = n]) auto
      then show ?thesis using True A x r unit by simp
    next
      case False
      then have "take n (A ! r) = replicate n 0"
        using r A(1) zero by (intro nth_equalityI) auto
      then show ?thesis using False r assms(2) by simp
    qed
    moreover have "dot (take n (A ! r) @ [A ! r ! n]) (?x @ [1]) = dot (take n (A ! r)) ?x XOR A ! r ! n"
      using r A(1) x by (simp add: dot_snoc)
    ultimately show ?thesis
      using split [OF r] by (metis xor_self_eq)
  qed
  then show ?thesis by (auto simp: in_set_conv_nth)
qed

section \<open>Combination\<close>

lemma combine_nonzero_eq: "combine_nonzero = combine_pieces"
proof -
  have "(\<lambda>(piece, alpha) (new_data, new_coeffs). if alpha = 0 then (new_data, new_coeffs)
      else (axpy alpha (piece_data piece) new_data, axpy alpha (coefficients piece) new_coeffs)) =
    (\<lambda>(piece :: coded_piece, alpha) (new_data, new_coeffs).
      (axpy alpha (piece_data piece) new_data, axpy alpha (coefficients piece) new_coeffs))"
    by (auto simp: fun_eq_iff)
  then show ?thesis by (simp only: combine_nonzero_def combine_pieces_def)
qed

lemma combine_nonzero_coeffs:
  assumes "\<forall>p \<in> set L. length (coefficients p) = k"
  shows "snd (combine_nonzero (zip L alphas) (nd, replicate k 0)) = lincomb k alphas (map coefficients L)"
proof -
  have "snd (combine_nonzero (zip L alphas) (nd, nc)) =
    fold (\<lambda>(piece, coeff) result. if coeff = 0 then result else axpy_table (mul_table coeff) piece result)
      (zip (map coefficients L) alphas) nc" for nc
  proof (induction L arbitrary: alphas nd nc)
    case (Cons p L)
    then show ?case by (cases alphas) (simp_all add: combine_nonzero_def)
  qed (simp add: combine_nonzero_def)
  with linear_combine_eq [of "map coefficients L" k alphas] assms show ?thesis
    by (simp add: linear_combine_def)
qed

section \<open>What the repair returns\<close>

definition expressible :: "nat \<Rightarrow> coded_piece list \<Rightarrow> bytes \<Rightarrow> bool" where
  "expressible k L target \<longleftrightarrow>
     (\<exists>alphas. length alphas = length L \<and> lincomb k alphas (map coefficients L) = target)"

lemma generate_length: "generate_orthogonal_vector existing k offset = Ok t \<Longrightarrow> length t = k"
  by (auto simp: generate_orthogonal_vector_def Let_def split: if_splits prod.splits)

lemma create_orthogonal_spec:
  assumes L: "\<forall>p \<in> set L. length (coefficients p) = k" "L \<noteq> []" and "0 < k"
    and gen: "generate_orthogonal_vector existing k offset = Ok target"
  shows "if expressible k L target
    then \<exists>alphas piece. create_orthogonal_piece L existing k offset = Ok piece \<and> coefficients piece = target \<and>
      (piece_data piece, target) =
        combine_nonzero (zip L alphas) (replicate (length (piece_data (L ! 0))) 0, replicate k 0)
    else create_orthogonal_piece L existing k offset = Err ()"
proof -
  let ?n = "length L"
  let ?E = "map (\<lambda>j. map (\<lambda>p. coefficients p ! j) L @ [target ! j]) [0..<k]"
  have t: "length target = k" by (rule generate_length [OF gen])
  have "reduced (Suc ?n) 0 (?E, 0, [])" by (intro reduced_init) auto
  from reduce_cols_reduced [OF this le0, of ?n k "\<lambda>_. Err ()"] obtain A rank piv where
    run: "reduce_cols (\<lambda>_. Err ()) k [0..<?n] (?E, 0, []) = Ok (A, rank, piv)"
    and red: "reduced (Suc ?n) ?n (A, rank, piv)" and len: "length A = k"
    and kept: "\<forall>P. row_closed P (Suc ?n) \<longrightarrow> (\<forall>row \<in> set A. P row) \<longleftrightarrow> (\<forall>row \<in> set ?E. P row)"
    by auto
  have sol: "(\<forall>row \<in> set A. dot row (alphas @ [1]) = 0) \<longleftrightarrow> lincomb k alphas (map coefficients L) = target"
    if "length alphas = ?n" for alphas
    using kept kernel.row_closed_axioms system_solution_iff [OF L(1) t that] by blast
  let ?x = "extract_alphas ?n A piv"
  have x: "length ?x = ?n"
    using extract_alphas_nth [of piv ?n A] red by (auto simp: reduced_def strict_sorted_iff)
  show ?thesis
  proof (cases "\<exists>r < length A. rank \<le> r \<and> A ! r ! ?n \<noteq> 0")
    case True
    then obtain r where r: "r < length A" "rank \<le> r" "A ! r ! ?n \<noteq> 0" by blast
    then have "\<not> expressible k L target"
      using reduced_system_unsolvable [OF red r] sol nth_mem [OF r(1)] unfolding expressible_def by blast
    moreover have "list_ex (\<lambda>row. row ! ?n \<noteq> 0) (drop rank (take k A))"
      using r len by (auto simp: list_ex_iff in_set_conv_nth intro!: bexI [of _ "A ! r"] exI [of _ "r - rank"])
    ultimately show ?thesis
      using assms run system_rows_eq [OF L(1) t] by (simp add: create_orthogonal_piece_def Let_def)
  next
    case False
    then have zero: "\<forall>r < length A. rank \<le> r \<longrightarrow> A ! r ! ?n = 0" by blast
    then have "\<not> list_ex (\<lambda>row. row ! ?n \<noteq> 0) (drop rank (take k A))"
      using len by (auto simp: list_ex_iff in_set_conv_nth)
    moreover have lin: "lincomb k ?x (map coefficients L) = target"
      using sol [OF x] reduced_system_solved [OF red zero] by blast
    moreover have "expressible k L target"
      using x lin unfolding expressible_def by blast
    moreover obtain nd nc where comb:
      "combine_nonzero (zip L ?x) (replicate (length (piece_data (L ! 0))) 0, replicate k 0) = (nd, nc)"
      by fastforce
    moreover have "nc = target"
      using combine_nonzero_coeffs [OF L(1), of ?x "replicate (length (piece_data (L ! 0))) 0"] comb lin by simp
    ultimately show ?thesis
      using assms run system_rows_eq [OF L(1) t]
      by (auto simp: create_orthogonal_piece_def Let_def intro!: exI [of _ ?x])
  qed
qed

lemma create_orthogonal_piece_of:
  assumes "create_orthogonal_piece L existing (length S) offset = Ok piece" and "rect m S"
    and "\<forall>p \<in> set L. piece_of m S p"
  shows "piece_of m S piece"
proof -
  have L: "L \<noteq> []" "0 < length S" and "\<exists>t. generate_orthogonal_vector existing (length S) offset = Ok t"
    using assms(1) by (auto simp: create_orthogonal_piece_def Let_def split: if_splits)
  then obtain t where gen: "generate_orthogonal_vector existing (length S) offset = Ok t" by blast
  have len: "\<forall>p \<in> set L. length (coefficients p) = length S"
    using assms(3) by (auto dest: piece_of_lengths)
  from create_orthogonal_spec [OF len L gen] assms(1) obtain alphas where p:
    "coefficients piece = t" "(piece_data piece, t) =
      combine_nonzero (zip L alphas) (replicate (length (piece_data (L ! 0))) 0, replicate (length S) 0)"
    by (auto split: if_splits)
  have "length (piece_data (L ! 0)) = m" using assms(3) L(1) by (auto dest: piece_of_lengths)
  moreover have "\<forall>(p, alpha) \<in> set (zip L alphas). piece_of m S p"
    using assms(3) by (auto dest: set_zip_leftD)
  note combine_pieces_piece_of [OF assms(2) this, of "replicate (length S) 0" "replicate m 0"]
  ultimately have "case (piece_data piece, t) of (nd, nc) \<Rightarrow> length nc = length S \<and> nd = lincomb m nc S"
    using p(2) by (simp add: combine_nonzero_eq lincomb_zero del: split_conv)
  then show ?thesis
    using p(1) by (simp add: piece_of_def)
qed

text \<open>The target is outside the space the known vectors span.\<close>

lemma generated_outside_span:
  assumes "rect k existing" and gen: "generate_orthogonal_vector existing k offset = Ok t" and "0 < k"
  shows "of_row t \<notin> row_space existing"
proof (cases "existing = []")
  case True
  then have t: "t = unit_row k 0" using gen assms(3) by (simp add: generate_orthogonal_vector_def)
  have "vec_at (of_row t) 0 \<noteq> vec_at 0 0" using assms(3) by (simp add: t gf_simps)
  then have "of_row t \<noteq> 0" by (metis)
  with True show ?thesis by simp
next
  case False
  from assms(1) False assms(3) obtain fs where "\<forall>offset. generate_orthogonal_vector existing k offset =
      (if fs = [] then Err () else Ok (unit_row k (fs ! (offset mod length fs))))"
    and dim: "\<forall>F. F \<subseteq> set fs \<longrightarrow> gfv.dim (of_row ` set existing \<union> (\<lambda>f. of_row (unit_row k f)) ` F) =
      gfv.dim (of_row ` set existing) + card F"
    by (rule generate_spec)
  then have t: "t = unit_row k (fs ! (offset mod length fs))" "fs \<noteq> []"
    using gen by (auto split: if_splits)
  let ?f = "fs ! (offset mod length fs)"
  have "{?f} \<subseteq> set fs" using t(2) by simp
  from dim [rule_format, OF this]
  have "gfv.dim (insert (of_row t) (of_row ` set existing)) = gfv.dim (of_row ` set existing) + 1"
    by (simp add: t(1))
  moreover have "gfv.dim (insert (of_row t) (of_row ` set existing)) = gfv.dim (of_row ` set existing)"
    if "of_row t \<in> row_space existing"
    using gfv.span_redundant [OF that] by (metis gfv.dim_span)
  ultimately show ?thesis by auto
qed

section \<open>Properties\<close>

text \<open>
  C11: repair on pieces of one segment, complete and sound: when a new vector exists, the repair
  succeeds exactly if the local pieces can express it, and the piece it returns has that coefficient
  vector and again promises the combination of source pieces its coefficients name.
\<close>

theorem repair_sound_and_complete:
  assumes "list_all (\<lambda>row. length row = m) S" and "list_all (piece_of m S) L" and "L \<noteq> []" and "S \<noteq> []"
    and "generate_orthogonal_vector existing (length S) offset = Ok target"
  shows "case create_orthogonal_piece L existing (length S) offset of
      Ok piece \<Rightarrow> expressible (length S) L target \<and> coefficients piece = target \<and> piece_of m S piece
    | Err _ \<Rightarrow> \<not> expressible (length S) L target
    | Panic \<Rightarrow> False"
proof -
  have "\<forall>p \<in> set L. length (coefficients p) = length S"
    using assms(2) by (auto simp: list_all_iff dest: piece_of_lengths)
  from create_orthogonal_spec [OF this assms(3) _ assms(5)] assms(4)
    create_orthogonal_piece_of [of L existing S offset _ m] assms(1,2)
  show ?thesis by (auto simp: list_all_iff split: if_splits outcome.splits)
qed

theorem repair_sound_and_complete_witness:
  "create_orthogonal_piece
     [\<lparr>piece_data = [7, 9], coefficients = [1, 0]\<rparr>, \<lparr>piece_data = [4, 0], coefficients = [0, 1]\<rparr>]
     [[1, 0]] 2 5 = Ok \<lparr>piece_data = [4, 0], coefficients = [0, 1]\<rparr>
   \<and> piece_of 2 [[7, 9], [4, 0]] \<lparr>piece_data = [4, 0], coefficients = [0, 1]\<rparr>"
proof -
  let ?L = "[\<lparr>piece_data = [7, 9], coefficients = [1, 0]\<rparr>, \<lparr>piece_data = [4, 0], coefficients = [0, 1]\<rparr>]"
  let ?S = "[[7, 9], [4, 0]] :: bytes list"
  have run: "create_orthogonal_piece ?L [[1, 0]] 2 5 = Ok \<lparr>piece_data = [4, 0], coefficients = [0, 1]\<rparr>"
    by code_simp
  have "list_all (\<lambda>row. length row = 2) ?S" by simp
  moreover have "list_all (piece_of 2 ?S) ?L" unfolding piece_of_def by code_simp
  moreover have "generate_orthogonal_vector [[1, 0]] (length ?S) 5 = Ok [0, 1]" by code_simp
  ultimately have "case create_orthogonal_piece ?L [[1, 0]] (length ?S) 5 of
      Ok piece \<Rightarrow> expressible (length ?S) ?L [0, 1] \<and> coefficients piece = [0, 1] \<and> piece_of 2 ?S piece
    | Err _ \<Rightarrow> \<not> expressible (length ?S) ?L [0, 1] | Panic \<Rightarrow> False"
    by (intro repair_sound_and_complete) simp_all
  moreover have "length ?S = 2" by simp
  ultimately show ?thesis by (simp only: run outcome.case simp_thms)
qed

text \<open>
  C38: a node whose own pieces are all among the coefficient vectors the network already knows can
  never repair: \<open>create_orthogonal_piece\<close> then returns \<open>None\<close> for every offset, since the vector it
  must express lies outside the span of everything known.
\<close>

theorem repair_from_known_pieces_fails:
  assumes "list_all (\<lambda>row. length row = k) existing"
    and "list_all (\<lambda>piece. coefficients piece \<in> set existing) L"
  shows "create_orthogonal_piece L existing k offset = Err ()"
proof (cases "L = [] \<or> k = 0 \<or> (\<forall>t. generate_orthogonal_vector existing k offset \<noteq> Ok t)")
  case True
  then show ?thesis
  proof (elim disjE)
    assume none: "\<forall>t. generate_orthogonal_vector existing k offset \<noteq> Ok t"
    have "generate_orthogonal_vector existing k offset \<noteq> Panic"
    proof (cases "existing = [] \<or> k = 0")
      case False
      have "rect k existing" using assms(1) by (simp add: list_all_iff)
      with False obtain fs where "\<forall>offset. generate_orthogonal_vector existing k offset =
        (if fs = [] then Err () else Ok (unit_row k (fs ! (offset mod length fs))))"
        by (metis generate_spec neq0_conv)
      then show ?thesis by simp
    qed (auto simp: generate_orthogonal_vector_def)
    with none have "generate_orthogonal_vector existing k offset = Err ()"
      by (cases "generate_orthogonal_vector existing k offset") auto
    then show ?thesis by (simp add: create_orthogonal_piece_def)
  qed (simp_all add: create_orthogonal_piece_def)
next
  case False
  then obtain t where t: "generate_orthogonal_vector existing k offset = Ok t" and L: "L \<noteq> []" and k: "0 < k"
    by auto
  have rect: "rect k existing" "\<forall>p \<in> set L. length (coefficients p) = k"
    using assms by (auto simp: list_all_iff)
  have "row_space (map coefficients L) \<subseteq> row_space existing"
    using assms(2) by (intro gfv.span_mono) (auto simp: list_all_iff)
  moreover have "rect k (map coefficients L)" using rect by simp
  ultimately have "of_row (lincomb k alphas (map coefficients L)) \<in> row_space existing" for alphas
    using lincomb_in_span by blast
  then have "\<not> expressible k L t"
    using generated_outside_span [OF rect(1) t k] by (auto simp: expressible_def)
  with create_orthogonal_spec [OF rect(2) L k t] show ?thesis by simp
qed

theorem repair_from_known_pieces_fails_witness:
  "create_orthogonal_piece [\<lparr>piece_data = [7, 9], coefficients = [1, 0]\<rparr>] [[1, 0], [1, 0]] 2 0 = Err ()"
  by (rule repair_from_known_pieces_fails) simp_all

end
