(* ===== verification/Homomorphic.thy ===== *)
theory Homomorphic
  imports Repair
begin

text \<open>
  \<open>crates/erasure/src/homomorphic.rs\<close>: sixteen random projections of every source piece, and the
  check of a coded piece against them. \<open>blake3\<close> is a parameter, any function from byte strings to
  32 bytes. \<open>verify_piece_exact\<close> says which pieces pass: those whose difference from what their
  coefficients promise is orthogonal to all sixteen projections.
\<close>

section \<open>The code\<close>

definition HASH_PROJECTIONS :: nat where "HASH_PROJECTIONS = 16"

record segment_hashes =
  hash_seed :: key32
  piece_hashes :: "bytes list"

text \<open>The \<open>for chunk_index in 0..num_chunks\<close> loop with its early \<open>break\<close>.\<close>

fun projection_loop :: "(bytes \<Rightarrow> key32) \<Rightarrow> key32 \<Rightarrow> u8 \<Rightarrow> nat \<Rightarrow> nat list \<Rightarrow> bytes \<Rightarrow> bytes" where
  "projection_loop blake3 seed projection_index piece_size [] projection = projection"
| "projection_loop blake3 seed projection_index piece_size (chunk_index # chunks) projection =
     (let input = key_bytes seed @ [projection_index] @ le_bytes 4 (of_nat chunk_index :: u32);
          hash_bytes = key_bytes (blake3 input);
          bytes_needed = min (piece_size - length projection) 32;
          projection = projection @ take bytes_needed hash_bytes
      in if piece_size \<le> length projection then projection
         else projection_loop blake3 seed projection_index piece_size chunks projection)"

definition generate_projection :: "(bytes \<Rightarrow> key32) \<Rightarrow> key32 \<Rightarrow> u8 \<Rightarrow> nat \<Rightarrow> bytes" where
  "generate_projection blake3 seed projection_index piece_size =
     take piece_size (projection_loop blake3 seed projection_index piece_size [0..<div_ceil piece_size 32] [])"

definition gf256_dot :: "bytes \<Rightarrow> bytes \<Rightarrow> u8 er" where
  "gf256_dot a b =
     (if length a \<noteq> length b then Panic
      else Ok (fold (\<lambda>(a_byte, b_byte) result. gf_add result (gf_mul a_byte b_byte)) (zip a b) 0))"

definition generate_segment_hashes ::
  "(bytes \<Rightarrow> key32) \<Rightarrow> key32 \<Rightarrow> coded_piece list \<Rightarrow> segment_hashes er" where
  "generate_segment_hashes blake3 seed original_pieces =
     (if original_pieces = [] then Ok \<lparr>hash_seed = seed, piece_hashes = []\<rparr>
      else let piece_size = length (piece_data (original_pieces ! 0)) in
        omap (\<lambda>hs. \<lparr>hash_seed = seed, piece_hashes = hs\<rparr>)
          (otraverse (\<lambda>piece. otraverse (\<lambda>projection_index.
             gf256_dot (piece_data piece) (generate_projection blake3 seed (of_nat projection_index) piece_size))
             [0..<HASH_PROJECTIONS]) original_pieces))"

text \<open>The inner loop: \<open>expected\<close>, for one projection.\<close>

definition expected_hash :: "bytes \<Rightarrow> bytes list \<Rightarrow> nat \<Rightarrow> u8" where
  "expected_hash coeffs hashes projection_index =
     fold (\<lambda>(i, coeff) expected.
             if coeff \<noteq> 0 \<and> i < length hashes
             then gf_add expected (gf_mul coeff (hashes ! i ! projection_index)) else expected)
       (enumerate 0 coeffs) 0"

fun verify_from :: "(bytes \<Rightarrow> key32) \<Rightarrow> coded_piece \<Rightarrow> segment_hashes \<Rightarrow> nat list \<Rightarrow> bool er" where
  "verify_from blake3 piece hashes [] = Ok True"
| "verify_from blake3 piece hashes (projection_index # rest) =
     obind (gf256_dot (piece_data piece)
             (generate_projection blake3 (hash_seed hashes) (of_nat projection_index) (length (piece_data piece))))
       (\<lambda>actual. if actual \<noteq> expected_hash (coefficients piece) (piece_hashes hashes) projection_index then Ok False
                 else verify_from blake3 piece hashes rest)"

definition verify_piece :: "(bytes \<Rightarrow> key32) \<Rightarrow> coded_piece \<Rightarrow> segment_hashes \<Rightarrow> bool er" where
  "verify_piece blake3 piece hashes =
     (let k = length (piece_hashes hashes)
      in if length (coefficients piece) \<noteq> k then Ok False
         else if k = 0 then Ok (piece_data piece = [] \<and> coefficients piece = [])
         else verify_from blake3 piece hashes [0..<HASH_PROJECTIONS])"

section \<open>Projections\<close>

text \<open>The stream of blake3 blocks a projection is a prefix of.\<close>

definition blocks :: "(bytes \<Rightarrow> key32) \<Rightarrow> key32 \<Rightarrow> u8 \<Rightarrow> nat list \<Rightarrow> bytes" where
  "blocks blake3 seed i cs =
     concat (map (\<lambda>c. key_bytes (blake3 (key_bytes seed @ [i] @ le_bytes 4 (of_nat c :: u32)))) cs)"

lemma projection_loop_eq:
  "length p \<le> n \<Longrightarrow> projection_loop blake3 seed i n cs p = take n (p @ blocks blake3 seed i cs)"
proof (induction cs arbitrary: p)
  case (Cons c cs)
  let ?h = "key_bytes (blake3 (key_bytes seed @ [i] @ le_bytes 4 (of_nat c :: u32)))"
  show ?case
  proof (cases "n \<le> length p + 32")
    case True
    then have "min (n - length p) 32 = n - length p" by simp
    moreover have "length (p @ take (n - length p) ?h) = n" using True Cons.prems by simp
    ultimately show ?thesis
      using True Cons.prems by (simp add: blocks_def Let_def)
  next
    case False
    then have "take (min (n - length p) 32) ?h = ?h" by simp
    with False Cons.IH [of "p @ ?h"] show ?thesis
      by (simp add: blocks_def Let_def)
  qed
qed (simp add: blocks_def)

lemma length_blocks: "length (blocks blake3 seed i cs) = 32 * length cs"
  by (induction cs) (simp_all add: blocks_def)

lemma generate_projection_eq:
  "generate_projection blake3 seed i n = take n (blocks blake3 seed i [0..<div_ceil n 32])"
  by (simp add: generate_projection_def projection_loop_eq)

lemma length_generate_projection [simp]: "length (generate_projection blake3 seed i n) = n"
  using div_ceil_bounds(1) [of 32 n] by (simp add: generate_projection_eq length_blocks)

text \<open>A shorter projection is a prefix of a longer one.\<close>

lemma div_ceil_mono: "0 < b \<Longrightarrow> a \<le> c \<Longrightarrow> div_ceil a b \<le> div_ceil c b"
proof (rule ccontr)
  assume b: "0 < b" and ac: "a \<le> c" and "\<not> div_ceil a b \<le> div_ceil c b"
  then have "Suc (div_ceil c b) * b \<le> div_ceil a b * b" by (intro mult_le_mono1) simp
  with div_ceil_bounds [OF b, of a] div_ceil_bounds [OF b, of c] ac show False by simp
qed

lemma generate_projection_prefix:
  "n \<le> n' \<Longrightarrow> take n (generate_projection blake3 seed i n') = generate_projection blake3 seed i n"
proof -
  assume n: "n \<le> n'"
  then have "[0..<div_ceil n' 32] = [0..<div_ceil n 32] @ [div_ceil n 32..<div_ceil n' 32]"
    using upt_add_eq_append [of 0 "div_ceil n 32" "div_ceil n' 32 - div_ceil n 32"] div_ceil_mono [of 32 n n'] by simp
  then have "blocks blake3 seed i [0..<div_ceil n' 32] =
      blocks blake3 seed i [0..<div_ceil n 32] @ blocks blake3 seed i [div_ceil n 32..<div_ceil n' 32]"
    by (simp add: blocks_def)
  moreover have "n \<le> length (blocks blake3 seed i [0..<div_ceil n 32])"
    using div_ceil_bounds(1) [of 32 n] by (simp add: length_blocks mult.commute)
  ultimately show ?thesis
    using n by (simp add: generate_projection_eq min_absorb1)
qed

section \<open>Hashes\<close>

lemma gf256_dot_eq: "length a = length b \<Longrightarrow> gf256_dot a b = Ok (dot a b)"
proof -
  assume "length a = length b"
  moreover have "fold (\<lambda>(a, b) r. gf_add r (gf_mul a b)) (zip a b) r = r XOR dot a b" for r
    by (induction a b arbitrary: r rule: dot.induct) (simp_all add: gf_add_def xor.assoc)
  ultimately show ?thesis by (simp add: gf256_dot_def)
qed

lemma generate_segment_hashes_eq:
  assumes "\<forall>p \<in> set ps. length (piece_data p) = m"
  shows "generate_segment_hashes blake3 seed ps = Ok \<lparr>hash_seed = seed, piece_hashes =
    map (\<lambda>p. map (\<lambda>i. dot (piece_data p) (generate_projection blake3 seed (of_nat i) m)) [0..<16]) ps\<rparr>"
proof (cases ps)
  case (Cons p ps')
  then have "length (piece_data (ps ! 0)) = m" using assms by simp
  then show ?thesis
    using assms Cons unfolding generate_segment_hashes_def HASH_PROJECTIONS_def Let_def
    by (subst otraverse_all_Ok [where g =
          "\<lambda>p. map (\<lambda>i. dot (piece_data p) (generate_projection blake3 seed (of_nat i) m)) [0..<16]"])
      (auto simp del: upt_Suc upt_rec_numeral intro!: otraverse_all_Ok gf256_dot_eq)
qed (simp add: generate_segment_hashes_def)

lemma expected_hash_eq:
  assumes "length coeffs = length hs"
  shows "expected_hash coeffs hs j = dot coeffs (map (\<lambda>h. h ! j) hs)"
proof -
  have "fold (\<lambda>(i, c) e. if c \<noteq> 0 \<and> i < length hs then gf_add e (gf_mul c (hs ! i ! j)) else e)
      (enumerate n cs) e = e XOR dot cs (map (\<lambda>h. h ! j) (drop n hs))"
    if "n + length cs = length hs" for n cs e
    using that
  proof (induction cs arbitrary: n e)
    case (Cons c cs)
    then have "drop n hs = hs ! n # drop (Suc n) hs" by (simp add: Cons_nth_drop_Suc)
    with Cons.IH [of "Suc n" "if c \<noteq> 0 then gf_add e (gf_mul c (hs ! n ! j)) else e"] Cons.prems
    show ?case by (simp add: gf_add_def xor.assoc)
  qed simp
  from this [of 0 coeffs 0] assms show ?thesis by (simp add: expected_hash_def)
qed

lemma verify_from_eq:
  assumes "length (coefficients piece) = length (piece_hashes hashes)"
  shows "verify_from blake3 piece hashes is = Ok (\<forall>i \<in> set is.
    dot (piece_data piece) (generate_projection blake3 (hash_seed hashes) (of_nat i) (length (piece_data piece))) =
    dot (coefficients piece) (map (\<lambda>h. h ! i) (piece_hashes hashes)))"
  by (induction "is") (auto simp: gf256_dot_eq expected_hash_eq [OF assms])

definition piece_error :: "nat \<Rightarrow> bytes list \<Rightarrow> coded_piece \<Rightarrow> bytes" where
  "piece_error m S piece = map2 (XOR) (piece_data piece) (lincomb m (coefficients piece) S)"

lemma dot_xor: "length u = length v \<Longrightarrow> dot (map2 (XOR) u v) w = dot u w XOR dot v w"
proof (induction u v arbitrary: w rule: list_induct2)
  case (Cons x xs y ys)
  then show ?case
    by (cases w) (simp_all add: gf_mul_xor_left xor.assoc xor.left_commute)
qed simp

lemma verify_piece_eq:
  assumes S: "rect m S" "S \<noteq> []" and c: "length (coefficients piece) = length S" and d: "length (piece_data piece) = m"
    and gen: "generate_segment_hashes blake3 seed originals = Ok hashes" and o: "map piece_data originals = S"
  shows "verify_piece blake3 piece hashes =
    Ok (\<forall>i < 16. dot (piece_error m S piece) (generate_projection blake3 seed (of_nat i) m) = 0)"
proof -
  have len: "\<forall>p \<in> set originals. length (piece_data p) = m" using S o by auto
  let ?proj = "\<lambda>i :: nat. generate_projection blake3 seed (of_nat i) m"
  have h: "hashes = \<lparr>hash_seed = seed, piece_hashes = map (\<lambda>p. map (\<lambda>i. dot p (?proj i)) [0..<16]) S\<rparr>"
    using gen generate_segment_hashes_eq [OF len] o by (auto simp: comp_def)
  have "dot (piece_error m S piece) (?proj i) = 0 \<longleftrightarrow>
      dot (piece_data piece) (?proj i) = dot (coefficients piece) (map (\<lambda>h. h ! i) (piece_hashes hashes))"
    if "i < 16" for i
  proof -
    have "dot (lincomb m (coefficients piece) S) (?proj i) = dot (coefficients piece) (map (\<lambda>h. h ! i) (piece_hashes hashes))"
      using that S by (simp add: h dot_lincomb comp_def del: upt_Suc upt_rec_numeral)
    moreover have "x XOR y = 0 \<longleftrightarrow> x = y" for x y :: u8
      by (metis xor_self_eq xor.right_neutral xor.assoc)
    ultimately show ?thesis
      using d by (simp add: piece_error_def dot_xor)
  qed
  then show ?thesis
    using S(2) c d verify_from_eq [of piece hashes blake3 "[0..<16]"]
    by (simp add: verify_piece_def HASH_PROJECTIONS_def h Let_def del: upt_Suc upt_rec_numeral)
      (auto simp del: upt_Suc upt_rec_numeral)
qed

lemma piece_error_zero:
  "piece_of m S piece \<Longrightarrow> piece_error m S piece = replicate m 0"
  by (auto simp: piece_of_def piece_error_def intro!: nth_equalityI)

section \<open>Properties\<close>

text \<open>
  C10: the verification accepts exactly the pieces whose deviation from the combination their
  coefficients promise is orthogonal to the sixteen projections of the segment. In particular every
  honest piece, original or recombined, passes, and a piece is wrongly accepted only if sixteen dot
  products of the deviation with pseudorandom vectors all vanish.
\<close>

theorem verify_piece_exact:
  assumes "list_all (\<lambda>row. length row = m) S" and "S \<noteq> []" and "map piece_data originals = S"
    and "length (coefficients piece) = length S" and "length (piece_data piece) = m"
  shows "\<exists>hashes. generate_segment_hashes blake3 seed originals = Ok hashes \<and>
    verify_piece blake3 piece hashes = Ok (list_all (\<lambda>i.
      dot (piece_error m S piece) (generate_projection blake3 seed (of_nat i) m) = 0) [0..<16]) \<and>
    (piece_of m S piece \<longrightarrow> verify_piece blake3 piece hashes = Ok True)"
proof -
  have rect: "rect m S" using assms(1) by (simp add: list_all_iff)
  then have "\<forall>p \<in> set originals. length (piece_data p) = m" using assms(3) by auto
  then obtain hashes where gen: "generate_segment_hashes blake3 seed originals = Ok hashes"
    using generate_segment_hashes_eq by blast
  have range: "(\<forall>i < 16. P i) \<longleftrightarrow> list_all P [0..<16]" for P
    unfolding list_all_iff set_upt by auto
  from verify_piece_eq [OF rect assms(2,4,5) gen assms(3)] show ?thesis
    unfolding range by (intro exI [of _ hashes]) (simp add: gen piece_error_zero list_all_iff del: upt_Suc upt_rec_numeral)
qed

theorem verify_piece_exact_witness:
  "\<exists>hashes. generate_segment_hashes (\<lambda>_. 5) 7
      [\<lparr>piece_data = [7, 9], coefficients = [1, 0]\<rparr>, \<lparr>piece_data = [4, 0], coefficients = [0, 1]\<rparr>] = Ok hashes \<and>
    verify_piece (\<lambda>_. 5) \<lparr>piece_data = [3, 9], coefficients = [1, 1]\<rparr> hashes = Ok True"
proof -
  have "piece_of 2 [[7, 9], [4, 0]] \<lparr>piece_data = [3, 9], coefficients = [1, 1]\<rparr>"
    unfolding piece_of_def by code_simp
  with verify_piece_exact [of 2 "[[7, 9], [4, 0]]"
      "[\<lparr>piece_data = [7, 9], coefficients = [1, 0]\<rparr>, \<lparr>piece_data = [4, 0], coefficients = [0, 1]\<rparr>]"
      "\<lparr>piece_data = [3, 9], coefficients = [1, 1]\<rparr>" "\<lambda>_. 5" 7]
  show ?thesis by auto
qed

text \<open>
  the verification does not fix the length of a piece: it takes the length from the piece, so
  appending zero bytes to a piece's data, or cutting trailing zero bytes off, never changes its
  verdict.
\<close>

theorem verify_piece_ignores_trailing_zeros:
  assumes "piece_hashes hashes \<noteq> []"
  shows "verify_piece blake3 \<lparr>piece_data = d @ replicate z 0, coefficients = c\<rparr> hashes =
    verify_piece blake3 \<lparr>piece_data = d, coefficients = c\<rparr> hashes"
proof -
  have "dot (d @ replicate z 0) (generate_projection blake3 seed i (length d + z)) =
      dot d (generate_projection blake3 seed i (length d))" for seed i
  proof -
    let ?p = "generate_projection blake3 seed i (length d + z)"
    have "dot (d @ replicate z 0) (take (length d) ?p @ drop (length d) ?p) = dot d (take (length d) ?p)"
      by (subst dot_append) simp_all
    then show ?thesis
      unfolding append_take_drop_id by (simp add: generate_projection_prefix)
  qed
  then show ?thesis
    using assms by (simp add: verify_piece_def verify_from_eq Let_def)
qed

theorem verify_piece_ignores_trailing_zeros_witness:
  "verify_piece (\<lambda>_. 5) \<lparr>piece_data = [4, 0], coefficients = [1]\<rparr> \<lparr>hash_seed = 7, piece_hashes = [replicate 16 3]\<rparr> =
    verify_piece (\<lambda>_. 5) \<lparr>piece_data = [4], coefficients = [1]\<rparr> \<lparr>hash_seed = 7, piece_hashes = [replicate 16 3]\<rparr>"
  using verify_piece_ignores_trailing_zeros [of "\<lparr>hash_seed = 7, piece_hashes = [replicate 16 3]\<rparr>" "\<lambda>_. 5" "[4]" 1 "[1]"]
  by simp

end
