(* ===== verification/Segmenter.thy ===== *)
theory Segmenter
  imports Decoder Homomorphic
begin

text \<open>
  \<open>crates/erasure/src/segmenter.rs\<close>, \<open>ContentVerificationRecord\<close> of \<open>homomorphic.rs\<close>, and the pieces
  a network exchanges. \<open>circulating\<close> is the reachable set of pieces of one encoder: what \<open>encode\<close>
  returned, and what any node makes of circulating pieces with \<open>create_piece_from_existing\<close> or
  \<open>create_orthogonal_piece\<close>. The \<open>rayon\<close> parallel maps are \<open>opar\<close>; every segment draws from its own
  generator.
\<close>

section \<open>The code\<close>

definition encode_segment :: "bytes \<Rightarrow> erasure_config \<Rightarrow> (nat \<Rightarrow> rng) \<Rightarrow> nat \<Rightarrow> (u32 \<times> coded_piece list) er" where
  "encode_segment data config rngs i =
     (let start = i * cfg_segment_size config;
          end' = min (start + cfg_segment_size config) (length data);
          segment_data = slice start end' data
      in obind (encoder_new segment_data (cfg_piece_size config)) (\<lambda>encoder.
         let k = encoder_k encoder; parity = parity_count config k
         in Ok (of_nat i, encode encoder (rngs i) parity)))"

definition segment_and_encode ::
  "bytes \<Rightarrow> erasure_config \<Rightarrow> (nat \<Rightarrow> rng) \<Rightarrow> (u32 \<times> coded_piece list) list er" where
  "segment_and_encode data config rngs =
     (if data = [] then Err EmptyData
      else if cfg_segment_size config = 0 then Panic
      else opar (encode_segment data config rngs) [0..<div_ceil (length data) (cfg_segment_size config)])"

definition decode_segment ::
  "bool \<Rightarrow> (u32 \<rightharpoonup> coded_piece list) \<Rightarrow> erasure_config \<Rightarrow> nat \<Rightarrow> nat \<Rightarrow> (u32 \<times> bytes) er" where
  "decode_segment oc segments config original_len i =
     (case segments (of_nat i) of
        None \<Rightarrow> Err (DecodingFailed (''missing segment '' @ dec_string i))
      | Some pieces \<Rightarrow>
          let segment_start = i * cfg_segment_size config;
              segment_end = min ((i + 1) * cfg_segment_size config) original_len
          in obind (usize_sub oc segment_end segment_start) (\<lambda>segment_len.
             obind (k_for_segment config segment_len) (\<lambda>k.
             obind (decode (decoder_new k (cfg_piece_size config) segment_len) pieces) (\<lambda>decoded.
               Ok (of_nat i, decoded)))))"

definition decode_and_reassemble ::
  "bool \<Rightarrow> (u32 \<rightharpoonup> coded_piece list) \<Rightarrow> u32 \<Rightarrow> erasure_config \<Rightarrow> nat \<Rightarrow> bytes er" where
  "decode_and_reassemble oc segments total_segments config original_len =
     omap (\<lambda>decoded_segments. take original_len (concat (map snd decoded_segments)))
       (opar (decode_segment oc segments config original_len) [0..<unat total_segments])"

text \<open>\<open>ContentVerificationRecord\<close>, which derives the same numbers from the file size.\<close>

record content_verification_record =
  cvr_file_size :: u64
  cvr_segment_hashes :: "segment_hashes list"

definition cvr_segment_count :: "content_verification_record \<Rightarrow> nat" where
  "cvr_segment_count self =
     (if cvr_file_size self = 0 then 0 else div_ceil (unat (cvr_file_size self)) DEFAULT_SEGMENT_SIZE)"

definition cvr_k_for_segment :: "bool \<Rightarrow> content_verification_record \<Rightarrow> nat \<Rightarrow> nat er" where
  "cvr_k_for_segment oc self segment_index =
     (let seg_count = cvr_segment_count self in
      if seg_count = 0 then Ok 0
      else obind (usize_add oc segment_index 1) (\<lambda>next_index.
             if next_index < seg_count then Ok (DEFAULT_SEGMENT_SIZE div DEFAULT_PIECE_SIZE)
             else obind (usize_mul oc segment_index DEFAULT_SEGMENT_SIZE) (\<lambda>start.
                    obind (usize_sub oc (unat (cvr_file_size self)) start) (\<lambda>remaining.
                      Ok (max (div_ceil remaining DEFAULT_PIECE_SIZE) 1)))))"

section \<open>Pieces in circulation\<close>

inductive circulating :: "rlnc_encoder \<Rightarrow> coded_piece \<Rightarrow> bool" for e where
  encoded: "p \<in> set (encode e rng parity) \<Longrightarrow> circulating e p"
| recombined: "\<forall>p \<in> set pieces. circulating e p \<Longrightarrow> create_piece_from_existing rng pieces = Some (Ok p) \<Longrightarrow>
    circulating e p"
| repaired: "\<forall>p \<in> set pieces. circulating e p \<Longrightarrow>
    create_orthogonal_piece pieces existing (encoder_k e) offset = Ok p \<Longrightarrow> circulating e p"

lemma create_piece_from_existing_piece_of:
  assumes "create_piece_from_existing rng pieces = Some (Ok p)" and "rect m S"
    and "\<forall>p \<in> set pieces. piece_of m S p"
  shows "piece_of m S p"
proof -
  obtain alphas where al: "draw_alphas rng (length pieces) 0 = Some alphas" and n: "2 \<le> length pieces"
    using assms(1) by (auto simp: create_piece_from_existing_def split: if_splits option.splits)
  have "pieces ! 0 \<in> set pieces" using n by (cases pieces) simp_all
  with assms(3) have p0: "length (coefficients (pieces ! 0)) = length S" "length (piece_data (pieces ! 0)) = m"
    by (auto dest: piece_of_lengths)
  have "\<forall>(p, alpha) \<in> set (zip pieces alphas). piece_of m S p"
    using assms(3) by (auto dest: set_zip_leftD)
  from combine_pieces_piece_of [OF assms(2) this, of "replicate (length S) 0" "replicate m 0"] show ?thesis
    using assms(1) n al p0
    by (auto simp: create_piece_from_existing_def lincomb_zero piece_of_def split: prod.splits)
qed

lemma circulating_piece_of:
  assumes "circulating e p" and "rect m (enc_pieces e)" and "enc_piece_size e = m"
  shows "piece_of m (enc_pieces e) p"
  using assms(1)
proof (induction rule: circulating.induct)
  case (encoded p rng parity)
  then show ?case using encode_piece_of assms(2,3) by blast
next
  case (recombined pieces rng p)
  then show ?case using create_piece_from_existing_piece_of assms(2) by blast
next
  case (repaired pieces existing offset p)
  then show ?case using create_orthogonal_piece_of [of pieces existing "enc_pieces e" offset p m] assms(2)
    by (simp add: encoder_k_def)
qed

text \<open>Enough circulating pieces of a segment: \<open>k\<close> of them with no vector orthogonal to all.\<close>

definition decodable :: "rlnc_encoder \<Rightarrow> coded_piece list \<Rightarrow> bool" where
  "decodable e pieces \<longleftrightarrow> (\<forall>p \<in> set pieces. circulating e p) \<and> encoder_k e \<le> length pieces \<and>
     \<not> (\<exists>x. orthogonal_to_all (encoder_k e) (map coefficients (take (encoder_k e) pieces)) x)"

lemma decodable_decodes:
  assumes "encoder_new xs m = Ok e" and "decodable e pieces"
  shows "decode (decoder_new (encoder_k e) m (length xs)) pieces = Ok xs"
proof -
  note e = encoder_new_Ok [OF assms(1)]
  have "\<forall>p \<in> set pieces. piece_of m (enc_pieces e) p"
    using assms(2) circulating_piece_of [OF _ e(4,3)] by (auto simp: decodable_def)
  from decode_spec [OF e(4) refl this, of "length xs"] assms(2) e(7) show ?thesis
    by (auto simp: decodable_def encoder_k_def)
qed

section \<open>Segments\<close>

definition segment_of :: "bytes \<Rightarrow> nat \<Rightarrow> nat \<Rightarrow> bytes" where
  "segment_of data s i = take s (drop (i * s) data)"

lemma slice_segment: "slice (i * s) (min (i * s + s) (length data)) data = segment_of data s i"
  by (simp add: slice_def segment_of_def min_def)

lemma segment_bounds:
  assumes "0 < s" and "i < div_ceil (length data) s"
  shows "i * s < length data" and "segment_of data s i \<noteq> []"
    and "length (segment_of data s i) = min ((i + 1) * s) (length data) - i * s"
proof -
  have "(i + 1) * s \<le> div_ceil (length data) s * s" using assms(2) by (intro mult_le_mono1) simp
  with div_ceil_bounds(2) [OF assms(1), of "length data"] show i: "i * s < length data" by simp
  then show "segment_of data s i \<noteq> []" using assms(1) by (simp add: segment_of_def)
  show "length (segment_of data s i) = min ((i + 1) * s) (length data) - i * s"
    using i by (auto simp: segment_of_def min_def)
qed

lemma concat_segments:
  "0 < s \<Longrightarrow> concat (map (segment_of data s) [0..<div_ceil (length data) s]) = data"
proof -
  assume s: "0 < s"
  have "concat (map (segment_of data s) [0..<n]) = take (n * s) data" for n
    using concat_chunks [of s data n] by (simp add: segment_of_def [abs_def])
  with div_ceil_bounds(1) [OF s, of "length data"] show ?thesis by simp
qed

lemma encode_segment_eq:
  assumes "0 < s" "0 < cfg_piece_size config" "cfg_segment_size config = s" "i < div_ceil (length data) s"
  shows "\<exists>e. encoder_new (segment_of data s i) (cfg_piece_size config) = Ok e \<and>
    encode_segment data config rngs i = Ok (of_nat i, encode e (rngs i) (parity_count config (encoder_k e)))"
proof -
  have "\<exists>e. encoder_new (segment_of data s i) (cfg_piece_size config) = Ok e"
    using segment_bounds(2) [OF assms(1,4)] assms(2) by (simp add: encoder_new_def Let_def)
  then show ?thesis
    using assms(3) by (auto simp: encode_segment_def slice_segment Let_def)
qed

lemma decode_segment_eq:
  assumes s: "0 < s" "cfg_segment_size config = s" and i: "i < div_ceil (length data) s" "i < 2 ^ 32"
    and e: "encoder_new (segment_of data s i) (cfg_piece_size config) = Ok e"
    and pieces: "segments (of_nat i) = Some pieces" "decodable e pieces"
  shows "decode_segment oc segments config (length data) i = Ok (of_nat i, segment_of data s i)"
proof -
  note b = segment_bounds [OF s(1) i(1)]
  have le: "i * s \<le> min ((i + 1) * s) (length data)" using b(1) by simp
  have k: "encoder_k e = max (div_ceil (length (segment_of data s i)) (cfg_piece_size config)) 1"
    and m: "cfg_piece_size config \<noteq> 0"
    using e b(2) by (auto simp: encoder_new_def encoder_k_def Let_def split: if_splits)
  from decodable_decodes [OF e pieces(2)] k m le b(3) pieces(1) s(2) show ?thesis
    by (simp add: decode_segment_def k_for_segment_def usize_sub_def Let_def)
qed

lemma source_pieces_decodable: "decodable e (source_pieces e)"
proof -
  have "length (source_pieces e) = encoder_k e" by (simp add: source_pieces_def Let_def)
  moreover have "circulating e p" if "p \<in> set (source_pieces e)" for p
    using that by (intro circulating.encoded [where rng = "\<lambda>_. 0" and parity = 0]) (simp add: encode_def)
  ultimately show ?thesis
    using source_pieces_independent by (simp add: decodable_def)
qed

text \<open>The number of source pieces of segment \<open>i\<close> from the file size alone.\<close>

lemma segment_encoder_k:
  assumes "0 < s" and "i < div_ceil (length data) s" and "encoder_new (segment_of data s i) m = Ok e"
  shows "encoder_k e = max (div_ceil (if i + 1 < div_ceil (length data) s then s else length data - i * s) m) 1"
proof -
  have k: "encoder_k e = max (div_ceil (length (segment_of data s i)) m) 1"
    using assms(3) by (auto simp: encoder_new_def encoder_k_def Let_def split: if_splits)
  note len = segment_bounds(1,3) [OF assms(1,2)]
  show ?thesis
  proof (cases "i + 1 < div_ceil (length data) s")
    case True
    then have "(i + 1) * s \<le> length data" using segment_bounds(1) [OF assms(1) True] by simp
    with True len k show ?thesis by simp
  next
    case False
    then have "div_ceil (length data) s \<le> i + 1" by simp
    then have "div_ceil (length data) s * s \<le> (i + 1) * s" by (rule mult_le_mono1)
    with div_ceil_bounds(1) [OF assms(1), of "length data"] have "length data \<le> (i + 1) * s" by simp
    with False len k show ?thesis by simp
  qed
qed

text \<open>All segments of a content, from their encoders and back.\<close>

lemma reassemble_segments:
  assumes "0 < cfg_segment_size config" and "div_ceil (length data) (cfg_segment_size config) < 2 ^ 32"
    and "\<forall>i < div_ceil (length data) (cfg_segment_size config). \<exists>e pieces. segments (of_nat i) = Some pieces \<and>
      decodable e pieces \<and> encoder_new (segment_of data (cfg_segment_size config) i) (cfg_piece_size config) = Ok e"
  shows "decode_and_reassemble oc segments (of_nat (div_ceil (length data) (cfg_segment_size config))) config
      (length data) = Ok data"
proof -
  let ?s = "cfg_segment_size config" let ?n = "div_ceil (length data) ?s"
  let ?seg = "segment_of data ?s"
  have "decode_segment oc segments config (length data) i = Ok (of_nat i, ?seg i)" if "i \<in> set [0..<?n]" for i
    using that assms decode_segment_eq [of ?s config i data] by fastforce
  then have "opar (decode_segment oc segments config (length data)) [0..<?n] = Ok (map (\<lambda>i. (of_nat i, ?seg i)) [0..<?n])"
    by (rule opar_all_Ok)
  moreover have "unat (of_nat ?n :: u32) = ?n" using assms(2) by (simp add: unsigned_of_nat take_bit_nat_eq_self)
  moreover have "concat (map snd (map (\<lambda>i. (of_nat i :: u32, ?seg i)) [0..<?n])) = data"
    using concat_segments [OF assms(1), of data] by (simp add: comp_def)
  ultimately show ?thesis by (simp add: decode_and_reassemble_def)
qed

lemma segment_encoders:
  assumes "data \<noteq> []" and "0 < cfg_segment_size config" and "0 < cfg_piece_size config"
  obtains E where "\<forall>i < div_ceil (length data) (cfg_segment_size config).
      encoder_new (segment_of data (cfg_segment_size config) i) (cfg_piece_size config) = Ok (E i)"
    and "segment_and_encode data config rngs = Ok (map (\<lambda>i. (of_nat i,
      encode (E i) (rngs i) (parity_count config (encoder_k (E i))))) [0..<div_ceil (length data) (cfg_segment_size config)])"
proof -
  let ?n = "div_ceil (length data) (cfg_segment_size config)" and ?seg = "segment_of data (cfg_segment_size config)"
  have "\<forall>i. \<exists>e. i < ?n \<longrightarrow> encoder_new (?seg i) (cfg_piece_size config) = Ok e"
    using encode_segment_eq [OF assms(2,3) refl] by blast
  from choice [OF this] obtain E where e: "\<forall>i < ?n. encoder_new (?seg i) (cfg_piece_size config) = Ok (E i)" by blast
  have "encode_segment data config rngs i = Ok (of_nat i, encode (E i) (rngs i) (parity_count config (encoder_k (E i))))"
    if "i \<in> set [0..<?n]" for i
    using encode_segment_eq [OF assms(2,3) refl, of i data rngs] e that by auto
  from opar_all_Ok [where xs = "[0..<?n]" and f = "encode_segment data config rngs", OF this]
  show ?thesis using that [OF e] assms(1,2) by (simp add: segment_and_encode_def)
qed

section \<open>Properties\<close>

text \<open>
  C1: the central guarantee of the coding layer. Whatever pieces of a segment reach a node, encoded,
  recombined or repaired by any sequence of nodes, any \<open>k\<close> of them with no common orthogonal vector
  decode to exactly the segment; and every piece in circulation passes the homomorphic verification
  against the hashes published for the source pieces.
\<close>

theorem circulating_pieces_decode_and_verify:
  assumes "encoder_new xs m = Ok e"
  shows "(decodable e pieces \<longrightarrow>
      decode (decoder_new (encoder_k e) m (length xs)) pieces = Ok xs) \<and>
    (circulating e p \<longrightarrow> (\<exists>hashes. generate_segment_hashes blake3 seed (source_pieces e) = Ok hashes \<and>
      verify_piece blake3 p hashes = Ok True))"
proof (intro conjI impI)
  assume "circulating e p"
  note e = encoder_new_Ok [OF assms]
  have p: "piece_of m (enc_pieces e) p" using circulating_piece_of \<open>circulating e p\<close> e(3,4) by blast
  have map: "map piece_data (source_pieces e) = enc_pieces e"
    by (rule nth_equalityI) (simp_all add: source_pieces_def encoder_k_def Let_def)
  then have "\<forall>q \<in> set (source_pieces e). length (piece_data q) = m"
    using e(4) by (metis image_eqI list.set_map)
  then obtain hashes where h: "generate_segment_hashes blake3 seed (source_pieces e) = Ok hashes"
    using generate_segment_hashes_eq by blast
  have "verify_piece blake3 p hashes = Ok True"
    using verify_piece_eq [OF e(4) _ _ _ h map, of p] e(6) piece_of_lengths [OF p] piece_error_zero [OF p] by simp
  with h show "\<exists>hashes. generate_segment_hashes blake3 seed (source_pieces e) = Ok hashes \<and>
      verify_piece blake3 p hashes = Ok True" by blast
qed (rule decodable_decodes [OF assms])

theorem circulating_pieces_decode_and_verify_witness:
  "decode (decoder_new 2 2 3) [\<lparr>piece_data = [3, 9], coefficients = [1, 1]\<rparr>, \<lparr>piece_data = [4, 0], coefficients = [0, 1]\<rparr>]
    = Ok [7, 9, 4]"
proof -
  let ?e = "\<lparr>enc_pieces = [[7, 9], [4, 0]], enc_piece_size = 2\<rparr>"
  let ?p = "\<lparr>piece_data = [3, 9], coefficients = [1, 1]\<rparr>" and ?q = "\<lparr>piece_data = [4, 0], coefficients = [0, 1]\<rparr>"
  have e: "encoder_new [7, 9, 4] 2 = Ok ?e" by code_simp
  have "lincomb 2 [1, 1] [[7, 9], [4, 0]] = [3, 9]" by code_simp
  then have "generate_one_piece ?e (\<lambda>_. 1) 0 = ?p"
    by (simp add: generate_one_piece_def encoder_k_def linear_combine_eq)
  then have "encode ?e (\<lambda>_. 1) 1 = source_pieces ?e @ [?p]"
    by (simp add: encode_def generate_coded_pieces_def)
  moreover have "source_pieces ?e = [\<lparr>piece_data = [7, 9], coefficients = [1, 0]\<rparr>, ?q]" by code_simp
  ultimately have mem: "?q \<in> set (encode ?e (\<lambda>_. 1) 1)" "?p \<in> set (encode ?e (\<lambda>_. 1) 1)" by simp_all
  note c = circulating.encoded [OF mem(1)] circulating.encoded [OF mem(2)]
  have "\<not> orthogonal_to_all 2 [[1, 1], [0, 1]] x" for x
  proof
    assume x: "orthogonal_to_all 2 [[1, 1], [0, 1]] x"
    then obtain a b where "x = [a, b]"
      by (auto simp: orthogonal_to_all_def numeral_2_eq_2 length_Suc_conv)
    with x show False by (auto simp: orthogonal_to_all_def numeral_2_eq_2)
  qed
  with c have "decodable ?e [?p, ?q]" by (simp add: decodable_def encoder_k_def numeral_2_eq_2)
  with circulating_pieces_decode_and_verify [OF e, of "[?p, ?q]"]
  have "decode (decoder_new (encoder_k ?e) 2 (length [7 :: u8, 9, 4])) [?p, ?q] = Ok [7, 9, 4]" by blast
  moreover have "encoder_k ?e = 2" "length [7 :: u8, 9, 4] = 3" by (simp_all add: encoder_k_def)
  ultimately show ?thesis by (simp only:)
qed

text \<open>
  C9: content round trip over all segments: when every segment \<open>i\<close> of the content holds decodable
  circulating pieces of its encoder, \<open>decode_and_reassemble\<close> returns the content, with overflow checks
  and without; and \<open>segment_and_encode\<close> returns, in order, one entry per segment, made by these encoders.
\<close>

theorem segment_roundtrip:
  assumes "data \<noteq> []" and "0 < cfg_segment_size config" and "0 < cfg_piece_size config"
    and "div_ceil (length data) (cfg_segment_size config) < 2 ^ 32"
    and "list_all (\<lambda>i. \<exists>e pieces. segments (of_nat i) = Some pieces \<and> decodable e pieces \<and>
      encoder_new (segment_of data (cfg_segment_size config) i) (cfg_piece_size config) = Ok e)
      [0..<div_ceil (length data) (cfg_segment_size config)]"
  shows "decode_and_reassemble oc segments (of_nat (div_ceil (length data) (cfg_segment_size config))) config
      (length data) = Ok data \<and>
    (\<exists>es. list_all2 (\<lambda>i e. encoder_new (segment_of data (cfg_segment_size config) i) (cfg_piece_size config) = Ok e)
        [0..<div_ceil (length data) (cfg_segment_size config)] es \<and>
      segment_and_encode data config rngs = Ok (map2 (\<lambda>i e. (of_nat i,
        encode e (rngs i) (parity_count config (encoder_k e))))
          [0..<div_ceil (length data) (cfg_segment_size config)] es))"
proof
  let ?n = "div_ceil (length data) (cfg_segment_size config)"
  show "decode_and_reassemble oc segments (of_nat ?n) config (length data) = Ok data"
    using reassemble_segments [OF assms(2,4)] assms(5) by (simp add: list_all_iff)
  obtain E where e: "\<forall>i < ?n. encoder_new (segment_of data (cfg_segment_size config) i) (cfg_piece_size config) = Ok (E i)"
    and run: "segment_and_encode data config rngs =
      Ok (map (\<lambda>i. (of_nat i, encode (E i) (rngs i) (parity_count config (encoder_k (E i))))) [0..<?n])"
    by (rule segment_encoders [OF assms(1-3)])
  moreover have "map2 f [0..<?n] (map E [0..<?n]) = map (\<lambda>i. f i (E i)) [0..<?n]" for f :: "nat \<Rightarrow> rlnc_encoder \<Rightarrow> u32 \<times> coded_piece list"
    by (simp add: zip_map2 zip_same_conv_map)
  ultimately show "\<exists>es. list_all2 (\<lambda>i e. encoder_new (segment_of data (cfg_segment_size config) i) (cfg_piece_size config) = Ok e) [0..<?n] es \<and>
      segment_and_encode data config rngs = Ok (map2 (\<lambda>i e. (of_nat i,
        encode e (rngs i) (parity_count config (encoder_k e)))) [0..<?n] es)"
    by (intro exI [of _ "map E [0..<?n]"]) (simp add: list_all2_map2 list_all2_same)
qed

theorem segment_roundtrip_witness:
  "decode_and_reassemble True [0 \<mapsto> source_pieces \<lparr>enc_pieces = [[7, 9], [4, 0]], enc_piece_size = 2\<rparr>] 1
     \<lparr>cfg_piece_size = 2, cfg_segment_size = 4, cfg_initial_parity = 20\<rparr> 3 = Ok [7, 9, 4]"
proof -
  let ?e = "\<lparr>enc_pieces = [[7, 9], [4, 0]], enc_piece_size = 2\<rparr>"
  let ?c = "\<lparr>cfg_piece_size = 2, cfg_segment_size = 4, cfg_initial_parity = 20\<rparr>"
  have e: "encoder_new [7, 9, 4] 2 = Ok ?e" by code_simp
  have n: "div_ceil (length [7 :: u8, 9, 4]) (cfg_segment_size ?c) = 1" by (simp add: div_ceil_def)
  have "decode_and_reassemble True [0 \<mapsto> source_pieces ?e]
      (of_nat (div_ceil (length [7 :: u8, 9, 4]) (cfg_segment_size ?c))) ?c (length [7 :: u8, 9, 4]) = Ok [7, 9, 4]"
  proof (rule segment_roundtrip [THEN conjunct1])
    have "segment_of [7, 9, 4] (cfg_segment_size ?c) 0 = [7, 9, 4]" by (simp add: segment_of_def)
    then show "list_all (\<lambda>i. \<exists>e pieces. [0 \<mapsto> source_pieces ?e] (of_nat i) = Some pieces \<and> decodable e pieces \<and>
        encoder_new (segment_of [7, 9, 4] (cfg_segment_size ?c) i) (cfg_piece_size ?c) = Ok e)
        [0..<div_ceil (length [7 :: u8, 9, 4]) (cfg_segment_size ?c)]"
      unfolding n using e source_pieces_decodable [of ?e] by auto
    show "div_ceil (length [7 :: u8, 9, 4]) (cfg_segment_size ?c) < 2 ^ 32"
      unfolding n by simp
  qed simp_all
  moreover have "length [7 :: u8, 9, 4] = 3" by simp
  ultimately show ?thesis unfolding n by (simp only: of_nat_1)
qed

text \<open>
  the verification record agrees with the encoder: from the file size alone it derives the number
  of segments \<open>segment_and_encode\<close> makes with the default configuration and, for each of them, the
  number of source pieces of its encoder; a full segment has 40.
\<close>

theorem record_agrees_with_segmenter:
  assumes "data \<noteq> []" and "length data < 2 ^ 64"
    and "i < div_ceil (length data) (cfg_segment_size default_config)"
  shows "cvr_segment_count \<lparr>cvr_file_size = of_nat (length data), cvr_segment_hashes = hs\<rparr> =
      div_ceil (length data) (cfg_segment_size default_config) \<and>
    config_k default_config = Ok 40 \<and>
    (\<exists>e. encoder_new (segment_of data (cfg_segment_size default_config) i) (cfg_piece_size default_config) = Ok e \<and>
      cvr_k_for_segment oc \<lparr>cvr_file_size = of_nat (length data), cvr_segment_hashes = hs\<rparr> i = Ok (encoder_k e))"
proof -
  let ?cvr = "\<lparr>cvr_file_size = of_nat (length data), cvr_segment_hashes = hs\<rparr>"
  let ?s = "cfg_segment_size default_config" and ?m = "cfg_piece_size default_config"
  have s: "?s = DEFAULT_SEGMENT_SIZE" "?m = DEFAULT_PIECE_SIZE" "0 < ?s" "0 < ?m"
    by (simp_all add: default_config_def DEFAULT_SEGMENT_SIZE_def DEFAULT_PIECE_SIZE_def)
  have fs: "unat (of_nat (length data) :: u64) = length data"
    using assms(2) by (simp add: unsigned_of_nat take_bit_nat_eq_self)
  have "(of_nat (length data) :: u64) \<noteq> 0"
    using fs assms(1) by (metis length_0_conv unsigned_0)
  with fs have count: "cvr_segment_count ?cvr = div_ceil (length data) ?s"
    by (simp add: cvr_segment_count_def s)
  obtain e where e: "encoder_new (segment_of data ?s i) ?m = Ok e"
    using encode_segment_eq [OF s(3,4) refl assms(3)] by blast
  have "max (div_ceil DEFAULT_SEGMENT_SIZE DEFAULT_PIECE_SIZE) 1 = DEFAULT_SEGMENT_SIZE div DEFAULT_PIECE_SIZE"
    by (simp add: DEFAULT_SEGMENT_SIZE_def DEFAULT_PIECE_SIZE_def div_ceil_def)
  moreover have "i * ?s < 2 ^ 64" "i + 1 < 2 ^ 64"
  proof -
    show "i * ?s < 2 ^ 64" using segment_bounds(1) [OF s(3) assms(3)] assms(2) by linarith
    then show "i + 1 < 2 ^ 64" by (simp add: s DEFAULT_SEGMENT_SIZE_def)
  qed
  ultimately have "cvr_k_for_segment oc ?cvr i = Ok (encoder_k e)"
    using segment_encoder_k [OF s(3) assms(3) e] segment_bounds(1) [OF s(3) assms(3)] assms(3)
    by (simp add: cvr_k_for_segment_def count fs usize_sub_def usize_add_def usize_mul_def flip: s(1,2))
  moreover have "config_k default_config = Ok 40"
    by (simp add: config_k_def default_config_def DEFAULT_SEGMENT_SIZE_def DEFAULT_PIECE_SIZE_def)
  ultimately show ?thesis using e count by blast
qed

theorem record_agrees_with_segmenter_witness:
  "config_k default_config = Ok 40 \<and>
    cvr_segment_count \<lparr>cvr_file_size = of_nat (length [7 :: u8, 9, 4]), cvr_segment_hashes = []\<rparr> =
      div_ceil (length [7 :: u8, 9, 4]) (cfg_segment_size default_config)"
proof -
  have "0 < div_ceil (length [7 :: u8, 9, 4]) (cfg_segment_size default_config)"
    by (intro div_ceil_pos) (simp_all add: default_config_def DEFAULT_SEGMENT_SIZE_def)
  from record_agrees_with_segmenter [OF _ _ this] show ?thesis by simp
qed

end
