(* ===== verification/Selections.thy ===== *)
theory Selections
  imports Segmenter
begin

text \<open>
  Which selections of circulating pieces decode, where the coefficient vectors are known: all source
  pieces but one with a piece that involves the missing one, or all but two with two pieces whose
  minor does not vanish. A recombined piece involves each of the source pieces it was made from, so it
  can stand for any of them. The tests of \<open>crates/erasure\<close> rest on these facts.
\<close>

section \<open>Orthogonal vectors of a selection\<close>

lemma decode_circulating:
  assumes "encoder_new xs m = Ok e" and "\<forall>p \<in> set pieces. circulating e p" and "length pieces = encoder_k e"
  shows "decode (decoder_new (encoder_k e) m (length xs)) pieces =
    (if \<exists>x. orthogonal_to_all (encoder_k e) (map coefficients pieces) x then Err LinearlyDependent else Ok xs)"
proof -
  note e = encoder_new_Ok [OF assms(1)]
  have "\<forall>p \<in> set pieces. piece_of m (enc_pieces e) p"
    using assms(2) circulating_piece_of [OF _ e(4,3)] by blast
  from decode_spec [OF e(4) refl this, of "length xs"] assms(3) e(7) show ?thesis
    by (simp add: encoder_k_def)
qed

lemma circulating_coefficients:
  assumes "encoder_new xs m = Ok e" and "circulating e p"
  shows "length (coefficients p) = encoder_k e"
  using circulating_piece_of [OF assms(2) encoder_new_Ok(4,3) [OF assms(1)]]
  by (simp add: piece_of_def encoder_k_def)

lemma source_piece_simps [simp]:
  "length (source_pieces e) = encoder_k e"
  "i < encoder_k e \<Longrightarrow> coefficients (source_pieces e ! i) = unit_row (encoder_k e) i"
  "i < encoder_k e \<Longrightarrow> piece_data (source_pieces e ! i) = enc_pieces e ! i"
  by (simp_all add: source_pieces_def unit_row_def Let_def)

lemma circulating_source: "i < encoder_k e \<Longrightarrow> circulating e (source_pieces e ! i)"
  by (intro circulating.encoded [where rng = "\<lambda>_. 0" and parity = 0]) (simp add: encode_def)

lemma circulating_coded: "p \<in> set (generate_coded_pieces e rng n) \<Longrightarrow> circulating e p"
  by (intro circulating.encoded [where rng = rng and parity = n]) (simp add: encode_def)

lemma dot_unit_row: "i < length x \<Longrightarrow> i < k \<Longrightarrow> dot (unit_row k i) x = x ! i"
  by (simp add: unit_row_def dot_unit)

lemma units_orthogonal:
  assumes "set rows = unit_row k ` I \<union> C" and "I \<subseteq> {..<k}"
  shows "orthogonal_to_all k rows x \<longleftrightarrow>
    length x = k \<and> x \<noteq> replicate k 0 \<and> (\<forall>i \<in> I. x ! i = 0) \<and> (\<forall>c \<in> C. dot c x = 0)"
proof -
  have "length x = k \<Longrightarrow> dot (unit_row k i) x = x ! i" if "i \<in> I" for i
    using that assms(2) dot_unit_row by blast
  then show ?thesis
    unfolding orthogonal_to_all_def list_all_iff assms(1) by auto
qed

lemma dot_at:
  assumes "length c = k" "length x = k" "j < k" and "\<forall>i < k. i \<noteq> j \<longrightarrow> x ! i = 0"
  shows "dot c x = gf_mul (c ! j) (x ! j)"
  using assms(1-3) by (rule dot_sparse) (simp add: assms(4))

text \<open>
  With all unit vectors but the \<open>j\<close>-th among the rows, and one more row \<open>c\<close>, what decides is \<open>c ! j\<close>.
\<close>

lemma one_missing:
  assumes "set rows = insert c (unit_row k ` ({..<k} - {j}))" and "j < k" and "length c = k"
  shows "(\<exists>x. orthogonal_to_all k rows x) \<longleftrightarrow> c ! j = 0"
proof -
  have iff: "orthogonal_to_all k rows x \<longleftrightarrow>
      length x = k \<and> x \<noteq> replicate k 0 \<and> (\<forall>i \<in> {..<k} - {j}. x ! i = 0) \<and> (\<forall>d \<in> {c}. dot d x = 0)" for x
    by (rule units_orthogonal) (auto simp: assms(1))
  show ?thesis
  proof
    assume "c ! j = 0"
    moreover have "unit_row k j \<noteq> replicate k 0"
      using assms(2) by (metis nth_replicate one_neq_zero unit_row_nth)
    ultimately have "orthogonal_to_all k rows (unit_row k j)"
      unfolding iff using assms(2,3) dot_commute [of c] by (simp add: dot_unit_row)
    then show "\<exists>x. orthogonal_to_all k rows x" by blast
  next
    assume "\<exists>x. orthogonal_to_all k rows x"
    then obtain x where x: "length x = k" "x \<noteq> replicate k 0" "\<forall>i < k. i \<noteq> j \<longrightarrow> x ! i = 0" "dot c x = 0"
      unfolding iff by auto
    then have "x ! j \<noteq> 0" by (metis nth_equalityI length_replicate nth_replicate)
    with x dot_at [OF assms(3) x(1) assms(2) x(3)] show "c ! j = 0" by simp
  qed
qed

text \<open>With two unit vectors missing and two more rows, their minor in the missing columns decides.\<close>

lemma dot_two:
  assumes "length c = k" "length x = k" "i < k" "j < k" "i \<noteq> j" and "\<forall>l < k. l \<noteq> i \<longrightarrow> l \<noteq> j \<longrightarrow> x ! l = 0"
  shows "dot c x = gf_mul (c ! i) (x ! i) XOR gf_mul (c ! j) (x ! j)"
proof -
  let ?y = "x[j := 0]" and ?z = "(replicate k 0)[j := x ! j]"
  have "x = map2 (XOR) ?y ?z"
    using assms(2,4) by (intro nth_equalityI) (auto simp: nth_list_update)
  then have "dot c x = dot ?y c XOR dot ?z c"
    using dot_xor [of ?y ?z c] assms(2) by (metis dot_commute length_list_update length_replicate)
  moreover have "dot c ?y = gf_mul (c ! i) (?y ! i)"
    by (rule dot_at [where k = k]) (use assms in \<open>auto simp: nth_list_update\<close>)
  moreover have "dot c ?z = gf_mul (c ! j) (?z ! j)"
    by (rule dot_at [where k = k]) (use assms in auto)
  ultimately show ?thesis using assms by (simp add: dot_commute)
qed

lemma two_missing:
  assumes "set rows = insert c (insert d (unit_row k ` ({..<k} - {i, j})))" and "i < k" "j < k" "i \<noteq> j"
    and "length c = k" "length d = k"
  shows "(\<exists>x. orthogonal_to_all k rows x) \<longleftrightarrow> gf_mul (c ! i) (d ! j) = gf_mul (c ! j) (d ! i)"
proof -
  have "set rows = unit_row k ` ({..<k} - {i, j}) \<union> {c, d}" using assms(1) by auto
  from units_orthogonal [OF this]
  have iff: "orthogonal_to_all k rows x \<longleftrightarrow> length x = k \<and> x \<noteq> replicate k 0 \<and>
      (\<forall>l < k. l \<noteq> i \<longrightarrow> l \<noteq> j \<longrightarrow> x ! l = 0) \<and> dot c x = 0 \<and> dot d x = 0" for x
    by auto
  let ?v = "\<lambda>a b. (replicate k 0)[i := a, j := b] :: bytes"
  have v: "orthogonal_to_all k rows (?v a b) \<longleftrightarrow> (a \<noteq> 0 \<or> b \<noteq> 0) \<and>
      gf_mul (c ! i) a = gf_mul (c ! j) b \<and> gf_mul (d ! i) a = gf_mul (d ! j) b" for a b
  proof -
    have "?v a b \<noteq> replicate k 0 \<longleftrightarrow> a \<noteq> 0 \<or> b \<noteq> 0"
      using assms(2-4) by (auto simp: list_eq_iff_nth_eq nth_list_update)
    moreover have "dot e (?v a b) = gf_mul (e ! i) a XOR gf_mul (e ! j) b" if "length e = k" for e
      using dot_two [OF that, of "?v a b" i j] assms(2-4) by (simp add: nth_list_update)
    ultimately show ?thesis
      unfolding iff using assms by (auto simp: nth_list_update)
  qed
  have "(\<exists>x. orthogonal_to_all k rows x) \<longleftrightarrow> (\<exists>a b. orthogonal_to_all k rows (?v a b))"
  proof
    assume "\<exists>x. orthogonal_to_all k rows x"
    then obtain x where x: "orthogonal_to_all k rows x" by blast
    then have "x = ?v (x ! i) (x ! j)"
      unfolding iff using assms(2-4) by (intro nth_equalityI) (auto simp: nth_list_update)
    with x show "\<exists>a b. orthogonal_to_all k rows (?v a b)" by metis
  qed blast
  also have "\<dots> \<longleftrightarrow> gf_mul (c ! i) (d ! j) = gf_mul (c ! j) (d ! i)"
    unfolding v
  proof
    assume "\<exists>a b. (a \<noteq> 0 \<or> b \<noteq> 0) \<and> gf_mul (c ! i) a = gf_mul (c ! j) b \<and> gf_mul (d ! i) a = gf_mul (d ! j) b"
    then obtain a b where ab: "a \<noteq> 0 \<or> b \<noteq> 0" "gf_mul (c ! i) a = gf_mul (c ! j) b" "gf_mul (d ! i) a = gf_mul (d ! j) b"
      by blast
    let ?D = "gf_mul (c ! i) (d ! j) XOR gf_mul (c ! j) (d ! i)"
    have swap: "gf_mul x (gf_mul y z) = gf_mul (gf_mul y x) z" "gf_mul x (gf_mul y z) = gf_mul y (gf_mul z x)" for x y z
      by (metis gf_mul_assoc gf_mul_commute)+
    have "gf_mul a ?D = gf_mul (gf_mul (c ! i) a) (d ! j) XOR gf_mul (c ! j) (gf_mul (d ! i) a)"
      by (simp only: gf_mul_xor swap(1) [of a "c ! i"] swap(2) [of a "c ! j"])
    then have a: "gf_mul a ?D = 0"
      unfolding ab(2,3) using gf_mul_assoc [of "c ! j" b "d ! j"] by (simp add: gf_mul_commute [of b])
    have "gf_mul b ?D = gf_mul (c ! i) (gf_mul (d ! j) b) XOR gf_mul (gf_mul (c ! j) b) (d ! i)"
      by (simp only: gf_mul_xor swap(2) [of b "c ! i"] swap(1) [of b "c ! j"])
    then have b: "gf_mul b ?D = 0"
      unfolding ab(2,3) [symmetric] using gf_mul_assoc [of "c ! i" a "d ! i"] by (simp add: gf_mul_commute [of a])
    with ab(1) show "gf_mul (c ! i) (d ! j) = gf_mul (c ! j) (d ! i)"
      using a b unfolding gf_mul_eq_0 xor_eq_0 by blast
  next
    assume eq: "gf_mul (c ! i) (d ! j) = gf_mul (c ! j) (d ! i)"
    consider "c ! i \<noteq> 0 \<or> c ! j \<noteq> 0" | "d ! i \<noteq> 0 \<or> d ! j \<noteq> 0" | "c ! i = 0" "c ! j = 0" "d ! i = 0" "d ! j = 0"
      by blast
    then show "\<exists>a b. (a \<noteq> 0 \<or> b \<noteq> 0) \<and> gf_mul (c ! i) a = gf_mul (c ! j) b \<and> gf_mul (d ! i) a = gf_mul (d ! j) b"
    proof cases
      case 1
      with eq show ?thesis
        using gf_mul_commute [of "d ! i" "c ! j"] gf_mul_commute [of "d ! j" "c ! i"]
          gf_mul_commute [of "c ! i" "c ! j"]
        by (intro exI [of _ "c ! j"] exI [of _ "c ! i"]) auto
    next
      case 2
      with eq show ?thesis
        using gf_mul_commute [of "c ! i" "d ! j"] gf_mul_commute [of "c ! j" "d ! i"]
          gf_mul_commute [of "d ! i" "d ! j"]
        by (intro exI [of _ "d ! j"] exI [of _ "d ! i"]) auto
    next
      case 3
      then show ?thesis by (intro exI [of _ 1]) simp
    qed
  qed
  finally show ?thesis .
qed

section \<open>Recombined source pieces\<close>

lemma draw_nonzero_nonzero: "draw_nonzero rng pos = Some r \<Longrightarrow> fst r \<noteq> 0"
proof (induction rule: draw_nonzero.raw_induct [rotated, consumes 1])
  case (1 draw rng pos r)
  then show ?case by (auto split: if_splits)
qed

lemma draw_alphas_nonzero:
  "draw_alphas rng n pos = Some alphas \<Longrightarrow> length alphas = n \<and> 0 \<notin> set alphas"
proof (induction n arbitrary: pos alphas)
  case (Suc n)
  then obtain v p' alphas' where "draw_nonzero rng pos = Some (v, p')" and "draw_alphas rng n p' = Some alphas'"
    and "alphas = v # alphas'"
    by (auto split: option.splits)
  with Suc.IH [of p' alphas'] draw_nonzero_nonzero [of rng pos "(v, p')"] show ?case by auto
qed simp

lemma dot_indicator:
  "length alphas = length ks \<Longrightarrow> distinct ks \<Longrightarrow>
    dot alphas (map (\<lambda>i. if i = j then 1 else 0) ks) \<in> (if j \<in> set ks then set alphas else {0})"
  by (induction alphas ks rule: list_induct2) (auto split: if_splits)

lemma recombined_coefficient:
  assumes "create_piece_from_existing rng (map (\<lambda>i. source_pieces e ! i) ks) = Some (Ok p)"
    and "distinct ks" and "\<forall>i \<in> set ks. i < encoder_k e" and "j < encoder_k e"
  shows "coefficients p ! j = 0 \<longleftrightarrow> j \<notin> set ks"
proof -
  let ?k = "encoder_k e" and ?ps = "map (\<lambda>i. source_pieces e ! i) ks"
  obtain alphas where al: "draw_alphas rng (length ks) 0 = Some alphas" and two: "2 \<le> length ks"
    using assms(1) by (auto simp: create_piece_from_existing_def split: if_splits option.splits)
  have first: "length (coefficients (?ps ! 0)) = ?k"
    using two assms(3) by (cases ks) simp_all
  have "coefficients p = snd (combine_pieces (zip ?ps alphas) (replicate (length (piece_data (?ps ! 0))) 0, replicate ?k 0))"
    using assms(1) two al first
    by (auto simp: create_piece_from_existing_def Let_def split: prod.splits simp del: nth_map)
  also have "\<dots> = lincomb ?k alphas (map coefficients ?ps)"
    unfolding combine_nonzero_eq [symmetric] by (rule combine_nonzero_coeffs) (use assms(3) in auto)
  finally have "coefficients p ! j = dot alphas (map (\<lambda>c. c ! j) (map coefficients ?ps))"
    using assms(3,4) by (simp only:) (rule lincomb_nth, auto)
  also have "map (\<lambda>c. c ! j) (map coefficients ?ps) = map (\<lambda>i. if i = j then 1 else 0) ks"
    using assms(3,4) by auto
  finally show ?thesis
    using dot_indicator [of alphas ks j] draw_alphas_nonzero [OF al] assms(2) by (auto split: if_splits)
qed

lemma replaced_source_decodes:
  assumes e: "encoder_new xs m = Ok e" and "circulating e p" and "\<forall>q \<in> set sel. circulating e q"
    and "length sel = encoder_k e" and "j < encoder_k e"
    and "coefficients ` set sel = insert (coefficients p) (unit_row (encoder_k e) ` ({..<encoder_k e} - {j}))"
  shows "decode (decoder_new (encoder_k e) m (length xs)) sel =
    (if coefficients p ! j = 0 then Err LinearlyDependent else Ok xs)"
proof -
  have "(\<exists>x. orthogonal_to_all (encoder_k e) (map coefficients sel) x) \<longleftrightarrow> coefficients p ! j = 0"
    by (rule one_missing) (use assms circulating_coefficients [OF e] in auto)
  then show ?thesis using decode_circulating [OF e assms(3,4)] by simp
qed

lemma source_rows_without:
  "j < encoder_k e \<Longrightarrow>
    coefficients ` set ((source_pieces e)[j := p]) = insert (coefficients p) (unit_row (encoder_k e) ` ({..<encoder_k e} - {j}))"
  unfolding set_conv_nth by (auto simp: nth_list_update image_iff) (metis source_piece_simps(2) nth_list_update_neq)+

text \<open>
  C28: a piece recombined from source pieces \<open>ks\<close> can stand for each of them and for no other: with source
  piece \<open>j\<close> replaced by it the segment decodes if \<open>j\<close> is among the parents, whatever the generator drew,
  and otherwise decoding reports dependent pieces.
\<close>

theorem recombination_replaces_parents:
  assumes "encoder_new xs m = Ok e"
    and "create_piece_from_existing rng (map (\<lambda>i. source_pieces e ! i) ks) = Some (Ok p)"
    and "distinct ks" and "list_all (\<lambda>i. i < encoder_k e) ks" and "j < encoder_k e"
  shows "decode (decoder_new (encoder_k e) m (length xs)) ((source_pieces e)[j := p]) =
    (if j \<in> set ks then Ok xs else Err LinearlyDependent)"
proof -
  have ks: "\<forall>i \<in> set ks. i < encoder_k e" using assms(4) by (simp add: list_all_iff)
  have p: "circulating e p"
    by (rule circulating.recombined [OF _ assms(2)]) (use ks circulating_source in auto)
  then have "\<forall>q \<in> set ((source_pieces e)[j := p]). circulating e q"
    using circulating_source set_update_subset_insert [of "source_pieces e" j p]
    by (fastforce simp: in_set_conv_nth)
  from replaced_source_decodes [OF assms(1) p this _ assms(5) source_rows_without [OF assms(5)]]
  show ?thesis using recombined_coefficient [OF assms(2,3) ks assms(5)] by simp
qed

theorem recombination_replaces_parents_witness:
  "decode (decoder_new 2 2 3) ((source_pieces \<lparr>enc_pieces = [[7, 9], [4, 0]], enc_piece_size = 2\<rparr>)
     [0 := \<lparr>piece_data = [3, 9], coefficients = [1, 1]\<rparr>]) = Ok [7, 9, 4]"
proof -
  let ?e = "\<lparr>enc_pieces = [[7, 9], [4, 0]], enc_piece_size = 2\<rparr>"
  have "encoder_new [7, 9, 4] 2 = Ok ?e" by code_simp
  moreover have "create_piece_from_existing (\<lambda>_. 1) (map (\<lambda>i. source_pieces ?e ! i) [0, 1]) =
      Some (Ok \<lparr>piece_data = [3, 9], coefficients = [1, 1]\<rparr>)"
  proof -
    have "draw_alphas (\<lambda>_. 1) 2 0 = Some [1, 1]"
      by (simp add: numeral_2_eq_2 draw_nonzero.simps)
    moreover have "map (\<lambda>i. source_pieces ?e ! i) [0, 1] =
        [\<lparr>piece_data = [7, 9], coefficients = [1, 0]\<rparr>, \<lparr>piece_data = [4, 0], coefficients = [0, 1]\<rparr>]"
      by code_simp
    moreover have "combine_pieces (zip [\<lparr>piece_data = [7, 9], coefficients = [1, 0]\<rparr>,
        \<lparr>piece_data = [4, 0], coefficients = [0, 1]\<rparr>] [1, 1]) ([0, 0], [0, 0]) = ([3, 9], [1, 1])"
      by code_simp
    ultimately show ?thesis
      by (simp add: create_piece_from_existing_def Let_def numeral_2_eq_2)
  qed
  ultimately have "decode (decoder_new (encoder_k ?e) 2 (length [7 :: u8, 9, 4]))
      ((source_pieces ?e)[0 := \<lparr>piece_data = [3, 9], coefficients = [1, 1]\<rparr>]) = Ok [7, 9, 4]"
    by (subst recombination_replaces_parents [where ks = "[0, 1]" and rng = "\<lambda>_. 1"]) (simp_all add: encoder_k_def)
  moreover have "encoder_k ?e = 2" "length [7 :: u8, 9, 4] = 3" by (simp_all add: encoder_k_def)
  ultimately show ?thesis by (simp only:)
qed

end
