(* ===== verification/Restore.thy ===== *)
theory Restore
  imports Selections
begin

text \<open>
  Restoring a segment by repair: nodes take turns in calling \<open>create_orthogonal_piece\<close> with the pieces
  they hold, against the coefficient vectors of what the network counts, and every piece they make is
  added to it. Which vectors the pieces of a node express is their span, the vector space of \<open>Rank\<close>.
\<close>

section \<open>Rows that express every vector\<close>

lemma lincomb_of_span:
  assumes "rect k M" and "length t = k" and "of_row t \<in> row_space M"
  shows "\<exists>alphas. length alphas = length M \<and> lincomb k alphas M = t"
  using assms
proof (induction M arbitrary: t)
  case Nil
  then have zero: "of_row t = 0" by simp
  have "t ! i = 0" if "i < k" for i
    using arg_cong [OF zero, of "\<lambda>v. vec_at v i"] that Nil(2) by (simp add: gf_simps)
  then have "t = replicate k 0" using Nil(2) by (intro nth_equalityI) simp_all
  then show ?case by simp
next
  case (Cons r M)
  from Cons.prems(3) obtain c where c: "of_row t - smult c (of_row r) \<in> row_space M"
    by (auto simp: gfv.span_breakdown_eq)
  obtain b where b: "c = Gf b" by (cases c)
  have minus: "x - y = x + y" for x y :: gf
    by (cases x; cases y) (simp add: gf_simps)
  have "of_row t - smult c (of_row r) = of_row (axpy b r t)"
  proof (rule vec_eqI)
    fix i
    have "vec_at (of_row t - smult c (of_row r)) i = vec_at (of_row t) i + vec_at (smult c (of_row r)) i"
      unfolding minus_vec_def vec.sel by (rule minus)
    then show "vec_at (of_row t - smult c (of_row r)) i = vec_at (of_row (axpy b r t)) i"
      using Cons.prems by (simp only: of_row_axpy b vec_at_simps(2)) (simp add: gf_simps)
  qed
  with c Cons.IH [of "axpy b r t"] Cons.prems obtain alphas where
    "length alphas = length M" "lincomb k alphas M = axpy b r t" by auto
  then have "length (b # alphas) = length (r # M)" "lincomb k (b # alphas) (r # M) = t"
    using Cons.prems by (simp_all add: axpy_twice)
  then show ?case by blast
qed

lemma dim_outside:
  assumes "finite S" and "x \<notin> gfv.span S"
  shows "gfv.dim (insert x S) = gfv.dim S + 1"
proof -
  obtain B where B: "B \<subseteq> S" "gfv.independent B" "S \<subseteq> gfv.span B" "card B = gfv.dim S"
    using gfv.basis_exists by blast
  have span: "gfv.span B = gfv.span S"
    using B by (metis gfv.span_eq gfv.span_superset order_trans)
  with assms have x: "x \<notin> gfv.span B" "x \<notin> B" using gfv.span_base by blast+
  have "gfv.span (insert x S) = gfv.span (insert x B)"
    by (simp add: gfv.span_insert span)
  then have "gfv.dim (insert x S) = gfv.dim (insert x B)" by (metis gfv.dim_span)
  also have "\<dots> = card (insert x B)"
    using B(2) x by (intro gfv.dim_eq_card_independent gfv.independent_insertI) simp_all
  also have "\<dots> = gfv.dim S + 1"
    using B(1,4) assms(1) x(2) finite_subset by fastforce
  finally show ?thesis .
qed

lemma full_rank_lincomb:
  assumes rect: "rect k M" and "0 < k" and "check_independence M = (Ok k :: nat opt)" and "length t = k"
  shows "\<exists>alphas. length alphas = length M \<and> lincomb k alphas M = t"
proof -
  have dim: "gfv.dim (of_row ` set M) = k"
    using assms(3) by (metis check_independence_dim [OF rect] outcome.inject(1))
  have "rect k (M @ [t])" "M @ [t] \<noteq> []" using rect assms(4) by auto
  from generate_spec [OF this assms(2)] have "gfv.dim (of_row ` set (M @ [t])) \<le> k" by metis
  then have "gfv.dim (insert (of_row t) (of_row ` set M)) \<le> k" by simp
  with dim dim_outside [of "of_row ` set M" "of_row t"] have "of_row t \<in> row_space M"
    by fastforce
  with lincomb_of_span [OF rect assms(4)] show ?thesis by blast
qed

lemma full_rank_not_orthogonal:
  assumes rect: "rect k M" and "0 < k" and "check_independence M = (Ok k :: nat opt)"
  shows "\<not> orthogonal_to_all k M x"
proof
  assume x: "orthogonal_to_all k M x"
  then have len: "length x = k" and dots: "\<forall>row \<in> set M. dot row x = 0"
    by (simp_all add: orthogonal_to_all_def list_all_iff)
  have zero: "dot cs (map (\<lambda>p. dot p x) M) = 0" for cs
  proof -
    have "map (\<lambda>p. dot p x) M = replicate (length M) 0" using dots by (simp add: map_replicate_const [symmetric])
    then show ?thesis by (simp add: dot_commute [of cs])
  qed
  have "x ! i = 0" if "i < k" for i
  proof -
    obtain alphas where "lincomb k alphas M = unit_row k i"
      using full_rank_lincomb [OF assms, of "unit_row k i"] by auto
    then have "dot (unit_row k i) x = 0" using dot_lincomb [OF rect, of alphas x] zero by simp
    then show ?thesis using that len by (simp add: dot_unit_row)
  qed
  then have "x = replicate k 0" using len by (intro nth_equalityI) simp_all
  with x show False by (simp add: orthogonal_to_all_def)
qed

section \<open>Nodes that repair one after the other\<close>

text \<open>
  One attempt is the call of a node with the pieces it holds and its offset; \<open>pieces\<close> is what the network
  counts. A call that fails leaves it as it is.
\<close>

fun repair_session :: "nat \<Rightarrow> (coded_piece list \<times> nat) list \<Rightarrow> coded_piece list \<Rightarrow> coded_piece list" where
  "repair_session k [] pieces = pieces"
| "repair_session k ((local_pieces, offset) # attempts) pieces =
     (case create_orthogonal_piece local_pieces (map coefficients pieces) k offset of
        Ok piece \<Rightarrow> repair_session k attempts (pieces @ [piece])
      | _ \<Rightarrow> repair_session k attempts pieces)"

text \<open>What an attempt adds: nothing, or a circulating piece that raises the rank by one.\<close>

lemma new_vector:
  assumes rect: "rect k existing" and "0 < k" and r: "check_independence existing = (Ok r :: nat opt)"
  shows "if r = k then generate_orthogonal_vector existing k offset = Err ()
    else r < k \<and> (\<exists>v. generate_orthogonal_vector existing k offset = Ok v \<and> length v = k \<and>
      check_independence (existing @ [v]) = (Ok (Suc r) :: nat opt))"
proof (cases "existing = []")
  case False
  with repair_step [where offset = offset, OF rect _ assms(2) r] show ?thesis by auto
next
  case True
  with r have "r = 0" by (simp add: check_independence_def)
  moreover have "check_independence [unit_row k 0] = (Ok (Suc 0) :: nat opt)"
  proof -
    have "of_row (unit_row k 0) \<notin> gfv.span {}"
      using generated_outside_span [where existing = "[]" and k = k and offset = 0 and t = "unit_row k 0"] assms(2) by (simp add: generate_orthogonal_vector_def)
    from dim_outside [OF _ this] have "gfv.dim (of_row ` set [unit_row k 0]) = Suc (gfv.dim (of_row ` set []))" by simp
    then show ?thesis
      using check_independence_dim [where n = k and vs = "[unit_row k 0]"] check_independence_dim [where n = k and vs = "[]" and 'a = unit]
      by (simp add: check_independence_def)
  qed
  ultimately show ?thesis using True assms(2) by (simp add: generate_orthogonal_vector_def)
qed

lemma attempt_result:
  assumes e: "encoder_new xs m = Ok e" and "\<forall>p \<in> set pieces. circulating e p" and "\<forall>p \<in> set L. circulating e p"
    and r: "check_independence (map coefficients pieces) = (Ok r :: nat opt)"
  shows "(case create_orthogonal_piece L (map coefficients pieces) (encoder_k e) offset of
      Ok piece \<Rightarrow> r < encoder_k e \<and> circulating e piece \<and>
        check_independence (map coefficients (pieces @ [piece])) = (Ok (Suc r) :: nat opt)
    | _ \<Rightarrow> r = encoder_k e \<or> check_independence (map coefficients L) \<noteq> (Ok (encoder_k e) :: nat opt))"
proof -
  let ?k = "encoder_k e" and ?C = "map coefficients pieces"
  have k: "0 < ?k" using encoder_new_Ok(6) [OF e] by (simp add: encoder_k_def)
  have rect: "rect ?k ?C" and L: "\<forall>p \<in> set L. length (coefficients p) = ?k"
    using assms(2,3) circulating_coefficients [OF e] by simp_all
  note vector = new_vector [OF rect k r, of offset]
  show ?thesis
  proof (cases "r = ?k \<or> L = []")
    case True
    then have "create_orthogonal_piece L ?C ?k offset = Err ()"
      using vector by (auto simp: create_orthogonal_piece_def)
    then show ?thesis using True k by (auto simp: check_independence_def)
  next
    case False
    with vector obtain v where v: "r < ?k" "generate_orthogonal_vector ?C ?k offset = Ok v" "length v = ?k"
      "check_independence (?C @ [v]) = (Ok (Suc r) :: nat opt)" by auto
    from False have "L \<noteq> []" by simp
    from create_orthogonal_spec [OF L this k v(2)] show ?thesis
    proof (cases "expressible ?k L v")
      case True
      with create_orthogonal_spec [OF L \<open>L \<noteq> []\<close> k v(2)] obtain piece where
        p: "create_orthogonal_piece L ?C ?k offset = Ok piece" "coefficients piece = v" by auto
      moreover have "circulating e piece" by (rule circulating.repaired [OF assms(3) p(1)])
      ultimately show ?thesis using v by simp
    next
      case False
      have "rect ?k (map coefficients L)" using L by simp
      from full_rank_lincomb [OF this k _ v(3)] False
      have "check_independence (map coefficients L) \<noteq> (Ok ?k :: nat opt)"
        by (auto simp: expressible_def)
      with False create_orthogonal_spec [OF L \<open>L \<noteq> []\<close> k v(2)] show ?thesis by simp
    qed
  qed
qed

lemma session_result:
  assumes e: "encoder_new xs m = Ok e"
  shows "\<forall>p \<in> set pieces. circulating e p \<Longrightarrow> \<forall>(L, offset) \<in> set attempts. \<forall>p \<in> set L. circulating e p \<Longrightarrow>
    check_independence (map coefficients pieces) = (Ok r :: nat opt) \<Longrightarrow>
    \<exists>new. repair_session (encoder_k e) attempts pieces = pieces @ new \<and> (\<forall>p \<in> set new. circulating e p) \<and>
      check_independence (map coefficients (pieces @ new)) = (Ok (r + length new) :: nat opt) \<and>
      length new \<le> min (encoder_k e - r) (length attempts) \<and>
      ((\<forall>(L, offset) \<in> set attempts. check_independence (map coefficients L) = (Ok (encoder_k e) :: nat opt)) \<longrightarrow>
        length new = min (encoder_k e - r) (length attempts))"
proof (induction attempts arbitrary: pieces r)
  case Nil
  then show ?case by simp
next
  case (Cons a attempts)
  let ?k = "encoder_k e"
  obtain L offset where a: "a = (L, offset)" by (cases a)
  note attempt = attempt_result [OF e Cons.prems(1) _ Cons.prems(3), of L offset]
  have L: "\<forall>p \<in> set L. circulating e p" using Cons.prems(2) a by simp
  have tail: "\<forall>(L, offset) \<in> set attempts. \<forall>p \<in> set L. circulating e p" using Cons.prems(2) by simp
  show ?case
  proof (cases "\<exists>piece. create_orthogonal_piece L (map coefficients pieces) ?k offset = Ok piece")
    case True
    then obtain piece where Ok: "create_orthogonal_piece L (map coefficients pieces) ?k offset = Ok piece" by blast
    with attempt L have step: "r < ?k" "circulating e piece"
      "check_independence (map coefficients (pieces @ [piece])) = (Ok (Suc r) :: nat opt)" by simp_all
    from Cons.IH [OF _ tail step(3)] step(2) Cons.prems(1) obtain new where
      new: "repair_session ?k attempts (pieces @ [piece]) = pieces @ piece # new" "\<forall>p \<in> set new. circulating e p"
      "check_independence (map coefficients (pieces @ piece # new)) = (Ok (Suc r + length new) :: nat opt)"
      "length new \<le> min (?k - Suc r) (length attempts)"
      "(\<forall>(L, offset) \<in> set attempts. check_independence (map coefficients L) = (Ok ?k :: nat opt)) \<Longrightarrow>
        length new = min (?k - Suc r) (length attempts)" by auto
    have "(\<forall>(L, offset) \<in> set (a # attempts). check_independence (map coefficients L) = (Ok ?k :: nat opt)) \<Longrightarrow>
        length (piece # new) = min (?k - r) (length (a # attempts))"
      using new(5) step(1) by auto
    moreover have "length (piece # new) \<le> min (?k - r) (length (a # attempts))" using new(4) step(1) by auto
    ultimately show ?thesis
      using new(1-3) step(2) Ok by (intro exI [of _ "piece # new"]) (simp add: a)
  next
    case False
    then have same: "repair_session ?k (a # attempts) pieces = repair_session ?k attempts pieces"
      and stuck: "r = ?k \<or> check_independence (map coefficients L) \<noteq> (Ok ?k :: nat opt)"
      using attempt L by (auto simp: a split: outcome.splits)
    from Cons.IH [OF Cons.prems(1) tail Cons.prems(3)] obtain new where
      new: "repair_session ?k attempts pieces = pieces @ new" "\<forall>p \<in> set new. circulating e p"
      "check_independence (map coefficients (pieces @ new)) = (Ok (r + length new) :: nat opt)"
      "length new \<le> min (?k - r) (length attempts)"
      "(\<forall>(L, offset) \<in> set attempts. check_independence (map coefficients L) = (Ok ?k :: nat opt)) \<Longrightarrow>
        length new = min (?k - r) (length attempts)" by blast
    with stuck same show ?thesis by (intro exI [of _ new]) (auto simp: a)
  qed
qed

section \<open>Properties\<close>

text \<open>
  C23: repair brings a segment back. Let nodes that hold circulating pieces of a segment take turns in
  calling \<open>create_orthogonal_piece\<close>, with any offsets, against the coefficient vectors of the
  circulating pieces the network counts, of rank \<open>r\<close>, each piece that is made being added to them. Then
  the counted pieces stay and only circulating pieces join them; every new piece has raised the rank by
  exactly one, so there are at most \<open>k - r\<close>; if the pieces of every node have full rank, only a call at
  full rank fails, and \<open>n\<close> calls make \<open>min (k - r) n\<close> pieces; and if the pieces counted at first were
  independent, then as soon as the rank is full they are \<open>k\<close> pieces that decode to the segment. (A node
  whose own pieces are all among the counted ones never succeeds.)
\<close>

theorem repairs_restore_segment:
  assumes "encoder_new xs m = Ok e" and "list_all (circulating e) pieces"
    and "list_all (\<lambda>(local_pieces, offset). list_all (circulating e) local_pieces) attempts"
    and "check_independence (map coefficients pieces) = (Ok r :: nat opt)"
  shows "\<exists>new. repair_session (encoder_k e) attempts pieces = pieces @ new \<and> list_all (circulating e) new \<and>
    check_independence (map coefficients (pieces @ new)) = (Ok (r + length new) :: nat opt) \<and>
    length new \<le> encoder_k e - r \<and>
    (list_all (\<lambda>(local_pieces, offset).
        check_independence (map coefficients local_pieces) = (Ok (encoder_k e) :: nat opt)) attempts \<longrightarrow>
      length new = min (encoder_k e - r) (length attempts)) \<and>
    (r = length pieces \<and> r + length new = encoder_k e \<longrightarrow>
      decode (decoder_new (encoder_k e) m (length xs)) (pieces @ new) = Ok xs)"
proof -
  let ?k = "encoder_k e"
  have circ: "\<forall>p \<in> set pieces. circulating e p" "\<forall>(L, offset) \<in> set attempts. \<forall>p \<in> set L. circulating e p"
    using assms(2,3) by (auto simp: list_all_iff)
  from session_result [OF assms(1) circ assms(4)] obtain new where
    new: "repair_session ?k attempts pieces = pieces @ new" "\<forall>p \<in> set new. circulating e p"
    "check_independence (map coefficients (pieces @ new)) = (Ok (r + length new) :: nat opt)"
    "length new \<le> min (?k - r) (length attempts)"
    "(\<forall>(L, offset) \<in> set attempts. check_independence (map coefficients L) = (Ok ?k :: nat opt)) \<Longrightarrow>
      length new = min (?k - r) (length attempts)" by blast
  have k: "0 < ?k" using encoder_new_Ok(6) [OF assms(1)] by (simp add: encoder_k_def)
  have all: "\<forall>p \<in> set (pieces @ new). circulating e p" using circ(1) new(2) by auto
  have "decode (decoder_new ?k m (length xs)) (pieces @ new) = Ok xs" if "r = length pieces \<and> r + length new = ?k"
  proof -
    have rect: "rect ?k (map coefficients (pieces @ new))" using all circulating_coefficients [OF assms(1)] by auto
    have "check_independence (map coefficients (pieces @ new)) = (Ok ?k :: nat opt)" using that new(3) by simp
    with full_rank_not_orthogonal [OF rect k]
    have "\<not> (\<exists>x. orthogonal_to_all ?k (map coefficients (pieces @ new)) x)" by blast
    moreover have "length (pieces @ new) = ?k" using that by simp
    ultimately show ?thesis using decode_circulating [OF assms(1) all] by simp
  qed
  then show ?thesis
    using new by (intro exI [of _ new]) (auto simp: list_all_iff)
qed

theorem repairs_restore_segment_witness:
  "\<exists>new. repair_session 2 [(source_pieces \<lparr>enc_pieces = [[7, 9], [4, 0]], enc_piece_size = 2\<rparr>, 5)]
      [\<lparr>piece_data = [7, 9], coefficients = [1, 0]\<rparr>] = \<lparr>piece_data = [7, 9], coefficients = [1, 0]\<rparr> # new \<and>
    length new = 1 \<and>
    decode (decoder_new 2 2 3) (\<lparr>piece_data = [7, 9], coefficients = [1, 0]\<rparr> # new) = Ok [7, 9, 4]"
proof -
  let ?e = "\<lparr>enc_pieces = [[7, 9], [4, 0]], enc_piece_size = 2\<rparr>"
  let ?p = "\<lparr>piece_data = [7, 9], coefficients = [1, 0]\<rparr>"
  have e: "encoder_new [7, 9, 4] 2 = Ok ?e" by code_simp
  have k: "encoder_k ?e = 2" "length [7 :: u8, 9, 4] = 3" by (simp_all add: encoder_k_def)
  have sources: "source_pieces ?e = [?p, \<lparr>piece_data = [4, 0], coefficients = [0, 1]\<rparr>]" by code_simp
  have "list_all (circulating ?e) (source_pieces ?e)"
    using source_pieces_decodable [of ?e] by (simp add: decodable_def list_all_iff)
  then have circ: "list_all (circulating ?e) [?p]"
    "list_all (\<lambda>(local_pieces, offset). list_all (circulating ?e) local_pieces) [(source_pieces ?e, 5 :: nat)]"
    by (simp_all add: sources)
  have rank: "check_independence (map coefficients [?p]) = (Ok 1 :: nat opt)"
    "check_independence (map coefficients (source_pieces ?e)) = (Ok 2 :: nat opt)"
    unfolding sources by code_simp+
  from repairs_restore_segment [OF e circ rank(1)] rank(2) show ?thesis
    unfolding k by (auto simp: numeral_2_eq_2)
qed

end
