(* ===== verification/Agent.thy ===== *)
theory Agent
  imports Prelude
begin

text \<open>
  \<open>crates/agent-runtime\<close>: capabilities (\<open>permissions.rs\<close>), the functions a WebAssembly agent can call on
  the host (\<open>host_fns.rs\<close>) and the in-memory content store. Strings are their UTF-8 bytes. The linear memory of
  the guest is a byte list, absent if the module exports none; pointers are \<open>i32\<close>. SQLite is the record
  \<open>sqlite\<close> of the calls the code makes on a database of type \<open>'d\<close>; a store of type \<open>'t\<close> is used
  through the record \<open>store_ops\<close>, whose contract is the locale \<open>agent_store\<close>. A panic of a host function
  is \<open>Panic\<close>.
\<close>

section \<open>Permissions\<close>

datatype capability = ReadOwnDb | WriteOwnDb | StorageRead | StorageWrite | NetworkSend | DhtAccess | SpawnAgent

record permission_set =
  capabilities :: "capability set"

datatype permission_error = Denied capability

definition permissions_new :: "capability list \<Rightarrow> permission_set" where
  "permissions_new caps = \<lparr>capabilities = set caps\<rparr>"

definition has_capability :: "permission_set \<Rightarrow> capability \<Rightarrow> bool" where
  "has_capability self cap \<longleftrightarrow> cap \<in> capabilities self"

definition check_capability :: "permission_set \<Rightarrow> capability \<Rightarrow> (permission_error, unit) outcome" where
  "check_capability self cap = (if has_capability self cap then Ok () else Err (Denied cap))"

definition TIER1_PERMISSIONS :: "capability list" where
  "TIER1_PERMISSIONS = [ReadOwnDb, WriteOwnDb, StorageRead, StorageWrite, NetworkSend, DhtAccess, SpawnAgent]"

definition TIER2_PERMISSIONS :: "capability list" where
  "TIER2_PERMISSIONS = [ReadOwnDb, WriteOwnDb]"

section \<open>Guest memory\<close>

type_synonym i32 = "32 word"

text \<open>\<open>x as usize\<close> sign-extends.\<close>

definition i32_as_usize :: "i32 \<Rightarrow> nat" where
  "i32_as_usize x = nat (sint x mod 2 ^ 64)"

definition add_i32 :: "bool \<Rightarrow> i32 \<Rightarrow> i32 \<Rightarrow> (unit, i32) outcome" where
  "add_i32 oc a b =
     (if oc \<and> (sint a + sint b < - (2 ^ 31) \<or> 2 ^ 31 \<le> sint a + sint b) then Panic else Ok (a + b))"

text \<open>\<open>&data[ptr as usize..(ptr + len) as usize]\<close>\<close>

definition guest_slice :: "bool \<Rightarrow> bytes \<Rightarrow> i32 \<Rightarrow> i32 \<Rightarrow> (unit, bytes) outcome" where
  "guest_slice oc data ptr len =
     obind (add_i32 oc ptr len) (\<lambda>end'.
       let a = i32_as_usize ptr; b = i32_as_usize end'
       in if a \<le> b \<and> b \<le> length data then Ok (take (b - a) (drop a data)) else Panic)"

section \<open>Host state\<close>

record log_entry =
  log_level :: bytes
  log_message :: bytes

record agent_event =
  event_type :: bytes
  event_payload :: bytes

text \<open>A result of \<open>None\<close> is an error of SQLite.\<close>

record 'd sqlite =
  db_run :: "bytes \<Rightarrow> 'd \<Rightarrow> nat option \<times> 'd"
  db_rows :: "bytes \<Rightarrow> 'd \<Rightarrow> nat option \<times> 'd"

record 't store_ops =
  store_put :: "bytes \<Rightarrow> 't \<Rightarrow> (string + bytes) \<times> 't"
  store_get :: "bytes \<Rightarrow> 't \<Rightarrow> string + bytes"

record ('d, 't) host_state =
  hs_db :: 'd
  hs_permissions :: permission_set
  hs_config :: "bytes \<rightharpoonup> bytes"
  hs_logs :: "log_entry list"
  hs_events :: "agent_event list"
  hs_shared_buffer :: bytes
  hs_store :: "'t option"

definition host_state_new :: "'d \<Rightarrow> permission_set \<Rightarrow> ('d, 't) host_state" where
  "host_state_new db permissions =
     \<lparr>hs_db = db, hs_permissions = permissions, hs_config = Map.empty, hs_logs = [], hs_events = [],
      hs_shared_buffer = replicate (64 * 1024) 0, hs_store = None\<rparr>"

definition with_store :: "'t \<Rightarrow> ('d, 't) host_state \<Rightarrow> ('d, 't) host_state" where
  "with_store store self = self\<lparr>hs_store := Some store\<rparr>"

text \<open>The libraries a host function calls: SQLite, the store, and \<open>blake3(..).to_hex()\<close>.\<close>

record ('d, 't) host_env =
  env_sqlite :: "'d sqlite"
  env_store :: "'t store_ops"
  env_cid :: "bytes \<Rightarrow> bytes"

section \<open>Host functions\<close>

type_synonym ('d, 't) host_result = "(unit, i32 \<times> ('d, 't) host_state) outcome"

definition denied :: "capability \<Rightarrow> ('d, 't) host_state \<Rightarrow> bool" where
  "denied cap hs \<longleftrightarrow> check_capability (hs_permissions hs) cap \<noteq> Ok ()"

definition utf8_or :: "bytes \<Rightarrow> bytes \<Rightarrow> bytes" where
  "utf8_or s other = (if utf8_valid s then s else other)"

definition host_log :: "bool \<Rightarrow> bytes option \<Rightarrow> i32 \<Rightarrow> i32 \<Rightarrow> i32 \<Rightarrow> i32 \<Rightarrow> ('d, 't) host_state \<Rightarrow> (unit, ('d, 't) host_state) outcome" where
  "host_log oc memory level_ptr level_len msg_ptr msg_len hs =
     (case memory of None \<Rightarrow> Ok hs
      | Some data \<Rightarrow>
          obind (guest_slice oc data level_ptr level_len) (\<lambda>level.
          obind (guest_slice oc data msg_ptr msg_len) (\<lambda>message.
          Ok (hs\<lparr>hs_logs := hs_logs hs @
            [\<lparr>log_level = utf8_or level (map of_char ''unknown''), log_message = utf8_or message []\<rparr>]\<rparr>))))"

definition host_emit_event :: "bool \<Rightarrow> bytes option \<Rightarrow> i32 \<Rightarrow> i32 \<Rightarrow> i32 \<Rightarrow> i32 \<Rightarrow> ('d, 't) host_state \<Rightarrow> (unit, ('d, 't) host_state) outcome" where
  "host_emit_event oc memory type_ptr type_len payload_ptr payload_len hs =
     (case memory of None \<Rightarrow> Ok hs
      | Some data \<Rightarrow>
          obind (guest_slice oc data type_ptr type_len) (\<lambda>ty.
          obind (guest_slice oc data payload_ptr payload_len) (\<lambda>payload.
          Ok (hs\<lparr>hs_events := hs_events hs @
            [\<lparr>event_type = utf8_or ty [], event_payload = utf8_or payload []\<rparr>]\<rparr>))))"

text \<open>Reading a string argument, with \<open>-1\<close> for invalid UTF-8 and for a missing memory.\<close>

definition with_string ::
  "bool \<Rightarrow> bytes option \<Rightarrow> i32 \<Rightarrow> i32 \<Rightarrow> ('d, 't) host_state \<Rightarrow> (bytes \<Rightarrow> ('d, 't) host_result) \<Rightarrow> ('d, 't) host_result" where
  "with_string oc memory ptr len hs k =
     (case memory of None \<Rightarrow> Ok (- 1, hs)
      | Some data \<Rightarrow> obind (guest_slice oc data ptr len) (\<lambda>s. if utf8_valid s then k s else Ok (- 1, hs)))"

definition count_result :: "nat option \<Rightarrow> i32" where
  "count_result r = (case r of Some n \<Rightarrow> of_nat n | None \<Rightarrow> - 1)"

definition host_db_execute ::
  "('d, 't) host_env \<Rightarrow> bool \<Rightarrow> bytes option \<Rightarrow> i32 \<Rightarrow> i32 \<Rightarrow> ('d, 't) host_state \<Rightarrow> ('d, 't) host_result" where
  "host_db_execute env oc memory sql_ptr sql_len hs =
     (if denied WriteOwnDb hs then Ok (- 1, hs)
      else with_string oc memory sql_ptr sql_len hs (\<lambda>sql.
        case db_run (env_sqlite env) sql (hs_db hs) of (r, db') \<Rightarrow> Ok (count_result r, hs\<lparr>hs_db := db'\<rparr>)))"

definition host_db_query ::
  "('d, 't) host_env \<Rightarrow> bool \<Rightarrow> bytes option \<Rightarrow> i32 \<Rightarrow> i32 \<Rightarrow> ('d, 't) host_state \<Rightarrow> ('d, 't) host_result" where
  "host_db_query env oc memory sql_ptr sql_len hs =
     (if denied ReadOwnDb hs then Ok (- 1, hs)
      else with_string oc memory sql_ptr sql_len hs (\<lambda>sql.
        case db_rows (env_sqlite env) sql (hs_db hs) of (r, db') \<Rightarrow> Ok (count_result r, hs\<lparr>hs_db := db'\<rparr>)))"

definition host_get_config :: "bool \<Rightarrow> bytes option \<Rightarrow> i32 \<Rightarrow> i32 \<Rightarrow> ('d, 't) host_state \<Rightarrow> ('d, 't) host_result" where
  "host_get_config oc memory key_ptr key_len hs =
     with_string oc memory key_ptr key_len hs (\<lambda>key.
       case hs_config hs key of Some val \<Rightarrow> Ok (of_nat (length val), hs) | None \<Rightarrow> Ok (- 1, hs))"

text \<open>\<open>buf[..len].copy_from_slice(&bytes[..len])\<close> for the smaller of the two lengths\<close>

definition write_shared :: "bytes \<Rightarrow> ('d, 't) host_state \<Rightarrow> ('d, 't) host_result" where
  "write_shared s hs =
     (let buf = hs_shared_buffer hs; len = min (length s) (length buf)
      in Ok (of_nat len, hs\<lparr>hs_shared_buffer := take len s @ drop len buf\<rparr>))"

definition host_storage_put ::
  "('d, 't) host_env \<Rightarrow> bool \<Rightarrow> bytes option \<Rightarrow> i32 \<Rightarrow> i32 \<Rightarrow> ('d, 't) host_state \<Rightarrow> ('d, 't) host_result" where
  "host_storage_put env oc memory data_ptr data_len hs =
     (if denied StorageWrite hs then Ok (- 1, hs)
      else case memory of None \<Rightarrow> Ok (- 1, hs)
      | Some data \<Rightarrow>
          obind (guest_slice oc data data_ptr data_len) (\<lambda>bytes.
            case hs_store hs of
              None \<Rightarrow> write_shared (env_cid env bytes) hs
            | Some store \<Rightarrow>
                (case store_put (env_store env) bytes store of (res, store') \<Rightarrow>
                  (case res of
                     Inr cid \<Rightarrow> write_shared cid (hs\<lparr>hs_store := Some store'\<rparr>)
                   | Inl e \<Rightarrow> Ok (- 1, hs\<lparr>hs_store := Some store'\<rparr>)))))"

definition host_storage_get ::
  "('d, 't) host_env \<Rightarrow> bool \<Rightarrow> bytes option \<Rightarrow> i32 \<Rightarrow> i32 \<Rightarrow> ('d, 't) host_state \<Rightarrow> ('d, 't) host_result" where
  "host_storage_get env oc memory cid_ptr cid_len hs =
     (if denied StorageRead hs then Ok (- 1, hs)
      else with_string oc memory cid_ptr cid_len hs (\<lambda>cid.
        case hs_store hs of
          None \<Rightarrow> Ok (- 1, hs)
        | Some store \<Rightarrow>
            (case store_get (env_store env) cid store of
               Inr bytes \<Rightarrow> write_shared bytes hs
             | Inl e \<Rightarrow> Ok (- 1, hs))))"

definition host_network_send :: "('d, 't) host_state \<Rightarrow> ('d, 't) host_result" where
  "host_network_send hs = (if denied NetworkSend hs then Ok (- 1, hs) else Ok (0, hs))"

definition host_dht_put :: "('d, 't) host_state \<Rightarrow> ('d, 't) host_result" where
  "host_dht_put hs = (if denied DhtAccess hs then Ok (- 1, hs) else Ok (0, hs))"

definition host_dht_get :: "('d, 't) host_state \<Rightarrow> ('d, 't) host_result" where
  "host_dht_get hs = (if denied DhtAccess hs then Ok (- 1, hs) else Ok (- 1, hs))"

section \<open>Calls of an agent\<close>

text \<open>A call with the arguments the guest passes; \<open>CurrentTime\<close> carries what the clock says.\<close>

datatype host_call =
    Log i32 i32 i32 i32
  | CurrentTime "64 word"
  | EmitEvent i32 i32 i32 i32
  | DbExecute i32 i32
  | DbQuery i32 i32
  | GetConfig i32 i32
  | StoragePut i32 i32
  | StorageGet i32 i32
  | NetworkSendTo i32 i32 i32 i32
  | DhtPut i32 i32 i32 i32
  | DhtGet i32 i32

text \<open>Tier 1 agents are linked against all functions, the others only against the standard ones.\<close>

fun linked :: "u8 \<Rightarrow> host_call \<Rightarrow> bool" where
  "linked tier (StoragePut _ _) = (tier = 1)"
| "linked tier (StorageGet _ _) = (tier = 1)"
| "linked tier (NetworkSendTo _ _ _ _) = (tier = 1)"
| "linked tier (DhtPut _ _ _ _) = (tier = 1)"
| "linked tier (DhtGet _ _) = (tier = 1)"
| "linked tier _ = True"

datatype host_value = NoValue | I32 i32 | I64 u64

definition as_i32 :: "('d, 't) host_result \<Rightarrow> (unit, host_value \<times> ('d, 't) host_state) outcome" where
  "as_i32 = omap (\<lambda>(r, hs). (I32 r, hs))"

fun host_fn :: "('d, 't) host_env \<Rightarrow> bool \<Rightarrow> bytes option \<Rightarrow> host_call \<Rightarrow> ('d, 't) host_state \<Rightarrow>
    (unit, host_value \<times> ('d, 't) host_state) outcome" where
  "host_fn env oc memory (Log a b c d) hs = omap (Pair NoValue) (host_log oc memory a b c d hs)"
| "host_fn env oc memory (CurrentTime t) hs = Ok (I64 t, hs)"
| "host_fn env oc memory (EmitEvent a b c d) hs = omap (Pair NoValue) (host_emit_event oc memory a b c d hs)"
| "host_fn env oc memory (DbExecute a b) hs = as_i32 (host_db_execute env oc memory a b hs)"
| "host_fn env oc memory (DbQuery a b) hs = as_i32 (host_db_query env oc memory a b hs)"
| "host_fn env oc memory (GetConfig a b) hs = as_i32 (host_get_config oc memory a b hs)"
| "host_fn env oc memory (StoragePut a b) hs = as_i32 (host_storage_put env oc memory a b hs)"
| "host_fn env oc memory (StorageGet a b) hs = as_i32 (host_storage_get env oc memory a b hs)"
| "host_fn env oc memory (NetworkSendTo _ _ _ _) hs = as_i32 (host_network_send hs)"
| "host_fn env oc memory (DhtPut _ _ _ _) hs = as_i32 (host_dht_put hs)"
| "host_fn env oc memory (DhtGet _ _) hs = as_i32 (host_dht_get hs)"

text \<open>What an agent of a tier can do to its host, whatever its code: linked calls with any memory.\<close>

inductive agent_step :: "('d, 't) host_env \<Rightarrow> bool \<Rightarrow> u8 \<Rightarrow> ('d, 't) host_state \<Rightarrow> ('d, 't) host_state \<Rightarrow> bool"
  for env oc tier where
  call: "linked tier c \<Longrightarrow> host_fn env oc memory c hs = Ok (result, hs') \<Longrightarrow> agent_step env oc tier hs hs'"

fun required :: "host_call \<Rightarrow> capability option" where
  "required (DbExecute _ _) = Some WriteOwnDb"
| "required (DbQuery _ _) = Some ReadOwnDb"
| "required (StoragePut _ _) = Some StorageWrite"
| "required (StorageGet _ _) = Some StorageRead"
| "required (NetworkSendTo _ _ _ _) = Some NetworkSend"
| "required (DhtPut _ _ _ _) = Some DhtAccess"
| "required (DhtGet _ _) = Some DhtAccess"
| "required _ = None"

lemma denied_iff [simp]: "denied cap hs \<longleftrightarrow> cap \<notin> capabilities (hs_permissions hs)"
  by (simp add: denied_def check_capability_def has_capability_def)

lemmas host_fn_defs = host_log_def host_emit_event_def host_db_execute_def host_db_query_def host_get_config_def
  host_storage_put_def host_storage_get_def host_network_send_def host_dht_put_def host_dht_get_def
  with_string_def write_shared_def as_i32_def Let_def

lemma host_fn_denied: "required c = Some cap \<Longrightarrow> cap \<notin> capabilities (hs_permissions hs) \<Longrightarrow>
    host_fn env oc memory c hs = Ok (I32 (- 1), hs)"
  by (cases c) (auto simp: host_fn_defs)

text \<open>Only the store and the contents of the buffer may differ.\<close>

definition same_but_storage :: "('d, 't) host_state \<Rightarrow> ('d, 't) host_state \<Rightarrow> bool" where
  "same_but_storage hs hs' \<longleftrightarrow> hs_permissions hs' = hs_permissions hs \<and> hs_config hs' = hs_config hs \<and>
     hs_db hs' = hs_db hs \<and> length (hs_shared_buffer hs') = length (hs_shared_buffer hs)"

lemma write_shared_frame: "write_shared s hs = Ok (r, hs') \<Longrightarrow> same_but_storage hs hs'"
  by (auto simp: write_shared_def Let_def same_but_storage_def)

lemma storage_put_frame:
  assumes "host_storage_put env oc memory ptr len hs = Ok (r, hs')"
  shows "same_but_storage hs hs'"
proof (cases "denied StorageWrite hs \<or> memory = None")
  case True
  then show ?thesis using assms by (auto simp: host_storage_put_def same_but_storage_def split: if_splits)
next
  case False
  then obtain data b where d: "memory = Some data" "guest_slice oc data ptr len = Ok b"
    using assms by (auto simp: host_storage_put_def)
  show ?thesis
  proof (cases "hs_store hs")
    case None
    then show ?thesis
      using assms False d by (auto simp: host_storage_put_def dest!: write_shared_frame)
  next
    case (Some store)
    obtain res store' where "store_put (env_store env) b store = (res, store')" by fastforce
    then show ?thesis
      using assms False d Some
      by (cases res) (auto simp: host_storage_put_def same_but_storage_def dest!: write_shared_frame)
  qed
qed

text \<open>What a successful call can change.\<close>

lemma host_fn_frame:
  assumes "host_fn env oc memory c hs = Ok (result, hs')"
  shows "hs_permissions hs' = hs_permissions hs \<and> hs_config hs' = hs_config hs \<and>
    length (hs_shared_buffer hs') = length (hs_shared_buffer hs) \<and>
    (hs_db hs' = hs_db hs \<or> required c \<in> {Some WriteOwnDb, Some ReadOwnDb}) \<and>
    (hs_store hs' = hs_store hs \<or> required c = Some StorageWrite) \<and>
    (hs_shared_buffer hs' = hs_shared_buffer hs \<or> required c \<in> {Some StorageWrite, Some StorageRead})"
proof (cases "\<exists>a b. c = StoragePut a b")
  case True
  then show ?thesis using assms by (auto simp: as_i32_def same_but_storage_def dest!: storage_put_frame)
next
  case False
  then show ?thesis
    using assms by (cases c) (auto simp: host_fn_defs case_prod_beta split: if_split_asm option.split_asm sum.split_asm)
qed

section \<open>Confinement\<close>

lemma agent_step_frame:
  assumes "agent_step env oc tier hs hs'"
  shows "hs_permissions hs' = hs_permissions hs" "hs_config hs' = hs_config hs"
    "length (hs_shared_buffer hs') = length (hs_shared_buffer hs)"
    "{ReadOwnDb, WriteOwnDb} \<inter> capabilities (hs_permissions hs) = {} \<Longrightarrow> hs_db hs' = hs_db hs"
    "StorageWrite \<notin> capabilities (hs_permissions hs) \<or> tier \<noteq> 1 \<Longrightarrow> hs_store hs' = hs_store hs"
    "{StorageRead, StorageWrite} \<inter> capabilities (hs_permissions hs) = {} \<or> tier \<noteq> 1 \<Longrightarrow>
       hs_shared_buffer hs' = hs_shared_buffer hs"
proof -
  obtain c memory result where l: "linked tier c" and f: "host_fn env oc memory c hs = Ok (result, hs')"
    using assms by cases blast
  note frame = host_fn_frame [OF f]
  then show "hs_permissions hs' = hs_permissions hs" "hs_config hs' = hs_config hs"
    "length (hs_shared_buffer hs') = length (hs_shared_buffer hs)" by simp_all
  have inert: "required c = Some cap \<Longrightarrow> cap \<notin> capabilities (hs_permissions hs) \<Longrightarrow> hs' = hs" for cap
    using f host_fn_denied by fastforce
  have tier: "required c \<in> {Some StorageRead, Some StorageWrite} \<Longrightarrow> tier = 1"
    using l by (cases c) auto
  show "hs_db hs' = hs_db hs" if "{ReadOwnDb, WriteOwnDb} \<inter> capabilities (hs_permissions hs) = {}"
    using frame that inert by auto
  show "hs_store hs' = hs_store hs" if "StorageWrite \<notin> capabilities (hs_permissions hs) \<or> tier \<noteq> 1"
    using frame that inert tier by auto
  show "hs_shared_buffer hs' = hs_shared_buffer hs"
    if "{StorageRead, StorageWrite} \<inter> capabilities (hs_permissions hs) = {} \<or> tier \<noteq> 1"
    using frame that inert tier by auto
qed

text \<open>
  C12: an agent stays within its capabilities, whatever code it runs and however it calls the host: no
  sequence of calls changes its permissions, its configuration or the size of the shared buffer;
  without a database capability it leaves the database as it is, without \<open>StorageWrite\<close> or outside
  tier 1 the store, and without a storage capability or outside tier 1 the shared buffer.
\<close>

theorem agent_confined:
  assumes "(agent_step env oc tier)\<^sup>*\<^sup>* hs hs'"
  shows "hs_permissions hs' = hs_permissions hs \<and> hs_config hs' = hs_config hs \<and>
    length (hs_shared_buffer hs') = length (hs_shared_buffer hs) \<and>
    ({ReadOwnDb, WriteOwnDb} \<inter> capabilities (hs_permissions hs) = {} \<longrightarrow> hs_db hs' = hs_db hs) \<and>
    (StorageWrite \<notin> capabilities (hs_permissions hs) \<or> tier \<noteq> 1 \<longrightarrow> hs_store hs' = hs_store hs) \<and>
    ({StorageRead, StorageWrite} \<inter> capabilities (hs_permissions hs) = {} \<or> tier \<noteq> 1 \<longrightarrow>
      hs_shared_buffer hs' = hs_shared_buffer hs)"
  using assms
proof (induction rule: rtranclp_induct)
  case (step y z)
  note f = agent_step_frame [OF step.hyps(2)]
  show ?case
    using step.IH f(1-3) f(4) f(5) f(6) by (elim conjE, intro conjI impI) (simp_all only: simp_thms)
qed simp

definition sample_env :: "(nat, bytes \<rightharpoonup> bytes) host_env" where
  "sample_env = \<lparr>env_sqlite = \<lparr>db_run = \<lambda>sql n. (Some 1, n + 1), db_rows = \<lambda>sql n. (Some n, n)\<rparr>,
     env_store = \<lparr>store_put = \<lambda>d m. (Inr [99], m([99] \<mapsto> d)),
       store_get = \<lambda>c m. case m c of Some d \<Rightarrow> Inr d | None \<Rightarrow> Inl ''none''\<rparr>, env_cid = \<lambda>_. [99]\<rparr>"

theorem agent_confined_witness:
  "hs_db (snd (case host_fn sample_env True (Some [65, 66]) (DbExecute 0 2)
      (host_state_new 7 (permissions_new [StorageRead])) of Ok r \<Rightarrow> r)) = 7"
proof -
  let ?hs = "host_state_new 7 (permissions_new [StorageRead]) :: (nat, bytes \<rightharpoonup> bytes) host_state"
  have f: "host_fn sample_env True (Some [65, 66]) (DbExecute 0 2) ?hs = Ok (I32 (- 1), ?hs)"
    by (rule host_fn_denied [of _ WriteOwnDb]) (simp_all add: host_state_new_def permissions_new_def)
  have "agent_step sample_env True 2 ?hs ?hs"
    by (rule agent_step.call [of _ "DbExecute 0 2", OF _ f]) simp
  then have "(agent_step sample_env True 2)\<^sup>*\<^sup>* ?hs (snd (case host_fn sample_env True (Some [65, 66]) (DbExecute 0 2) ?hs of Ok r \<Rightarrow> r))"
    by (simp only: f outcome.case snd_conv r_into_rtranclp)
  from agent_confined [OF this] show ?thesis
    by (simp add: host_state_new_def permissions_new_def)
qed

section \<open>Panics\<close>

text \<open>The ranges of guest memory a call names, and when one lies in the memory.\<close>

fun ranges :: "host_call \<Rightarrow> (i32 \<times> i32) list" where
  "ranges (Log a b c d) = [(a, b), (c, d)]"
| "ranges (EmitEvent a b c d) = [(a, b), (c, d)]"
| "ranges (DbExecute a b) = [(a, b)]"
| "ranges (DbQuery a b) = [(a, b)]"
| "ranges (GetConfig a b) = [(a, b)]"
| "ranges (StoragePut a b) = [(a, b)]"
| "ranges (StorageGet a b) = [(a, b)]"
| "ranges _ = []"

definition in_guest :: "bytes \<Rightarrow> i32 \<Rightarrow> i32 \<Rightarrow> bool" where
  "in_guest data ptr len \<longleftrightarrow> 0 \<le> sint ptr \<and> 0 \<le> sint len \<and> sint ptr + sint len < 2 ^ 31 \<and>
     sint ptr + sint len \<le> int (length data)"

lemma sint_i32: "- (2 ^ 31) \<le> sint (x :: i32)" "sint x < 2 ^ 31"
  using sint_ge [of x] sint_lt [of x] by simp_all

lemma i32_as_usize_eq: "i32_as_usize x = nat (if 0 \<le> sint x then sint x else 2 ^ 64 + sint x)"
proof -
  note b = sint_i32 [of x]
  have "sint x mod 2 ^ 64 = (if 0 \<le> sint x then sint x else 2 ^ 64 + sint x)"
  proof (cases "0 \<le> sint x")
    case True
    then show ?thesis using b by (simp add: mod_pos_pos_trivial)
  next
    case False
    have "sint x mod 2 ^ 64 = (2 ^ 64 + sint x) mod 2 ^ 64" by simp
    also have "\<dots> = 2 ^ 64 + sint x" using False b by (intro mod_pos_pos_trivial) simp_all
    finally show ?thesis using False by simp
  qed
  then show ?thesis by (simp add: i32_as_usize_def)
qed

lemma sint_add_i32: "sint (a + b :: i32) = (sint a + sint b + 2 ^ 31) mod 2 ^ 32 - 2 ^ 31"
  by (simp add: sint_word_ariths(1) signed_take_bit_eq_take_bit_shift take_bit_eq_mod)

lemma guest_slice_eq:
  assumes "length data < 2 ^ 63"
  shows "guest_slice oc data ptr len =
    (if in_guest data ptr len then Ok (take (nat (sint len)) (drop (nat (sint ptr)) data)) else Panic)"
proof -
  let ?s = "sint ptr + sint len"
  note b = sint_i32 [of ptr] sint_i32 [of len] sint_i32 [of "ptr + len"]
  show ?thesis
  proof (cases "- (2 ^ 31) \<le> ?s \<and> ?s < 2 ^ 31")
    case True
    then have "sint (ptr + len) = ?s" unfolding sint_add_i32 by (subst mod_pos_pos_trivial) simp_all
    then show ?thesis
      using True b assms
      by (auto simp: guest_slice_def add_i32_def i32_as_usize_eq in_guest_def Let_def nat_diff_distrib' [symmetric])
  next
    case False
    then have no: "\<not> in_guest data ptr len" by (auto simp: in_guest_def)
    have "\<not> (i32_as_usize ptr \<le> i32_as_usize (ptr + len) \<and> i32_as_usize (ptr + len) \<le> length data)"
    proof (cases "2 ^ 31 \<le> ?s")
      case True
      have "(?s + 2 ^ 31) mod 2 ^ 32 = (?s + 2 ^ 31 - 2 ^ 32) mod 2 ^ 32"
        by (rule minus_mod_self2 [symmetric])
      also have "\<dots> = ?s + 2 ^ 31 - 2 ^ 32" using True b by (intro mod_pos_pos_trivial) simp_all
      finally have "sint (ptr + len) < 0" using b unfolding sint_add_i32 by simp
      then show ?thesis using assms b by (auto simp: i32_as_usize_eq)
    next
      case 2: False
      then have "sint ptr < 0" using False b by linarith
      then show ?thesis using assms b by (auto simp: i32_as_usize_eq)
    qed
    then show ?thesis using no False by (auto simp: guest_slice_def add_i32_def Let_def)
  qed
qed

lemma guest_slice_Panic: "length data < 2 ^ 63 \<Longrightarrow> guest_slice oc data ptr len = Panic \<longleftrightarrow> \<not> in_guest data ptr len"
  by (simp add: guest_slice_eq)

lemma obind_Panic: "obind m f = Panic \<longleftrightarrow> m = Panic \<or> (\<exists>x. m = Ok x \<and> f x = Panic)"
  by (cases m) auto

lemma omap_Panic [simp]: "omap f m = Panic \<longleftrightarrow> m = Panic"
  by (cases m) auto

lemma write_shared_not_Panic [simp]: "write_shared s hs \<noteq> Panic"
  by (simp add: write_shared_def Let_def)

lemma with_string_Panic:
  assumes "\<And>s. k s \<noteq> Panic"
  shows "with_string oc memory ptr len hs k = Panic \<longleftrightarrow> (\<exists>data. memory = Some data \<and> guest_slice oc data ptr len = Panic)"
  using assms by (auto simp: with_string_def obind_Panic split: option.splits if_splits)

lemma host_storage_put_Panic: "host_storage_put env oc memory ptr len hs = Panic \<longleftrightarrow>
    StorageWrite \<in> capabilities (hs_permissions hs) \<and> (\<exists>data. memory = Some data \<and> guest_slice oc data ptr len = Panic)"
proof -
  have "(case hs_store hs of None \<Rightarrow> write_shared (env_cid env b) hs
      | Some store \<Rightarrow> (case store_put (env_store env) b store of (res, store') \<Rightarrow>
          (case res of Inr cid \<Rightarrow> write_shared cid (hs\<lparr>hs_store := Some store'\<rparr>)
           | Inl e \<Rightarrow> Ok (- 1, hs\<lparr>hs_store := Some store'\<rparr>)))) \<noteq> Panic" for b
    by (simp split: option.splits prod.splits sum.splits)
  then show ?thesis
    by (auto simp: host_storage_put_def obind_Panic split: option.split)
qed

text \<open>
  C21: which calls bring the host down, exactly: a call panics if and only if the agent has the
  capability it requires, the guest exports a memory, and one of the ranges the call names does not
  lie inside that memory within the positive \<open>i32\<close> range, with overflow checks or without. Pointers
  from the guest are not checked, so any agent can panic its host by logging from address -1.
\<close>

theorem host_panics_exactly:
  assumes "length data < 2 ^ 63"
  shows "host_fn env oc None c hs \<noteq> Panic \<and>
    (host_fn env oc (Some data) c hs = Panic \<longleftrightarrow>
      set_option (required c) \<subseteq> capabilities (hs_permissions hs) \<and> \<not> list_all (\<lambda>(ptr, len). in_guest data ptr len) (ranges c))"
proof -
  note slice = guest_slice_Panic [OF assms]
  have s: "with_string oc memory ptr len hs (\<lambda>sql. case f sql of (r, db') \<Rightarrow> Ok (g r db')) = Panic \<longleftrightarrow>
      (\<exists>data. memory = Some data \<and> guest_slice oc data ptr len = Panic)" for memory ptr len f g
    by (rule with_string_Panic) (simp split: prod.split)
  have g: "with_string oc memory ptr len hs (\<lambda>cid. case hs_store hs of None \<Rightarrow> Ok (- 1, hs)
        | Some store \<Rightarrow> (case store_get (env_store env) cid store of Inr bytes \<Rightarrow> write_shared bytes hs | Inl e \<Rightarrow> Ok (- 1, hs))) = Panic \<longleftrightarrow>
      (\<exists>data. memory = Some data \<and> guest_slice oc data ptr len = Panic)" for memory ptr len
    by (rule with_string_Panic) (simp split: option.split sum.split)
  have c: "with_string oc memory ptr len hs (\<lambda>key. case hs_config hs key of Some val \<Rightarrow> Ok (of_nat (length val), hs)
        | None \<Rightarrow> Ok (- 1, hs)) = Panic \<longleftrightarrow> (\<exists>data. memory = Some data \<and> guest_slice oc data ptr len = Panic)" for memory ptr len
    by (rule with_string_Panic) (simp split: option.split)
  show ?thesis
    by (cases c) (auto simp: host_log_def host_emit_event_def obind_Panic slice guest_slice_eq [OF assms]
        host_db_execute_def host_db_query_def host_get_config_def host_storage_get_def host_storage_put_Panic
        host_network_send_def host_dht_put_def host_dht_get_def as_i32_def s g c)
qed

theorem host_panics_exactly_witness:
  "host_fn sample_env False (Some [65, 66]) (Log (- 1) 1 0 0) (host_state_new 7 (permissions_new [])) = Panic"
proof -
  have "length [65, 66 :: u8] < 2 ^ 63" by simp
  from host_panics_exactly [OF this, of sample_env False "Log (- 1) 1 0 0" "host_state_new 7 (permissions_new [])"]
  show ?thesis by (simp add: in_guest_def)
qed

section \<open>Content stores\<close>

text \<open>What host functions rely on in a store: data is found under the identifier \<open>put\<close> returned.\<close>

locale agent_store =
  fixes ops :: "'t store_ops" and cid_of :: "bytes \<Rightarrow> bytes" and ok :: "'t \<Rightarrow> bool"
  assumes put_ok: "ok t \<Longrightarrow> ok (snd (store_put ops d t))"
    and put_get: "ok t \<Longrightarrow> fst (store_put ops d t) = Inr c \<Longrightarrow> c = cid_of d \<and> store_get ops c (snd (store_put ops d t)) = Inr d"
    and get_cid: "ok t \<Longrightarrow> store_get ops c t = Inr d \<Longrightarrow> cid_of d = c"
    and put_keeps: "ok t \<Longrightarrow> store_get ops c t = Inr e \<Longrightarrow> \<exists>e'. store_get ops c (snd (store_put ops d t)) = Inr e'"
begin

text \<open>The store holds something under \<open>c\<close>, whose identifier is \<open>c\<close>.\<close>

definition holds :: "bytes \<Rightarrow> 't \<Rightarrow> bool" where
  "holds c t \<longleftrightarrow> ok t \<and> (\<exists>e. store_get ops c t = Inr e)"

lemma holds_put: "holds c t \<Longrightarrow> holds c (snd (store_put ops d t))"
  by (auto simp: holds_def put_ok put_keeps)

lemma holds_new: "ok t \<Longrightarrow> fst (store_put ops d t) = Inr c \<Longrightarrow> c = cid_of d \<and> holds c (snd (store_put ops d t))"
  using put_get by (auto simp: holds_def put_ok)

lemma holds_get: "holds c t \<Longrightarrow> \<exists>e. store_get ops c t = Inr e \<and> cid_of e = c"
  using get_cid by (auto simp: holds_def)

end

text \<open>\<open>MemoryStore\<close>, for \<open>cid_of d = blake3(d).to_hex()\<close>\<close>

definition memory_put :: "(bytes \<Rightarrow> bytes) \<Rightarrow> bytes \<Rightarrow> (bytes \<rightharpoonup> bytes) \<Rightarrow> (string + bytes) \<times> (bytes \<rightharpoonup> bytes)" where
  "memory_put cid_of data m = (Inr (cid_of data), m(cid_of data \<mapsto> data))"

definition memory_get :: "bytes \<Rightarrow> (bytes \<rightharpoonup> bytes) \<Rightarrow> string + bytes" where
  "memory_get cid m = (case m cid of Some d \<Rightarrow> Inr d | None \<Rightarrow> Inl (''not found: '' @ map (\<lambda>b. char_of (unat b)) cid))"

definition memory_store :: "(bytes \<Rightarrow> bytes) \<Rightarrow> (bytes \<rightharpoonup> bytes) store_ops" where
  "memory_store cid_of = \<lparr>store_put = memory_put cid_of, store_get = memory_get\<rparr>"

definition memory_ok :: "(bytes \<Rightarrow> bytes) \<Rightarrow> (bytes \<rightharpoonup> bytes) \<Rightarrow> bool" where
  "memory_ok cid_of m \<longleftrightarrow> (\<forall>c d. m c = Some d \<longrightarrow> cid_of d = c)"

interpretation memory: agent_store "memory_store cid_of" cid_of "memory_ok cid_of" for cid_of
  by unfold_locales
    (auto simp: memory_store_def memory_put_def memory_get_def memory_ok_def split: option.splits if_splits)

section \<open>Storage through the host functions\<close>

abbreviation holds_cid :: "(bytes \<Rightarrow> bytes) \<Rightarrow> bytes \<Rightarrow> ('d, bytes \<rightharpoonup> bytes) host_state \<Rightarrow> bool" where
  "holds_cid cid_of c hs \<equiv> \<exists>m. hs_store hs = Some m \<and> agent_store.holds (memory_store cid_of) (memory_ok cid_of) c m"

lemma storage_put_store:
  assumes "host_storage_put env oc memory ptr len hs = Ok (r, hs')"
  shows "hs_store hs' = hs_store hs \<or>
    (\<exists>b t. hs_store hs = Some t \<and> hs_store hs' = Some (snd (store_put (env_store env) b t)))"
proof -
  have w: "write_shared s h = Ok (r, hs') \<Longrightarrow> hs_store hs' = hs_store h" for s h
    by (auto simp: write_shared_def Let_def)
  show ?thesis
  proof (cases "hs_store hs")
    case None
    then show ?thesis using assms by (auto simp: host_storage_put_def split: if_splits option.split_asm dest: w)
  next
    case (Some t)
    have "hs_store hs' = Some (snd (store_put (env_store env) b t))"
      if "(case store_put (env_store env) b t of (res, store') \<Rightarrow>
          (case res of Inr cid \<Rightarrow> write_shared cid (hs\<lparr>hs_store := Some store'\<rparr>)
           | Inl e \<Rightarrow> Ok (- 1, hs\<lparr>hs_store := Some store'\<rparr>))) = Ok (r, hs')" for b
      using that by (cases "store_put (env_store env) b t") (auto split: sum.split_asm dest: w)
    then show ?thesis
      using assms Some by (auto simp: host_storage_put_def split: if_split_asm option.split_asm)
  qed
qed

lemma host_fn_store:
  assumes "host_fn env oc memory c hs = Ok (v, hs')"
  shows "hs_store hs' = hs_store hs \<or>
    (\<exists>b t. hs_store hs = Some t \<and> hs_store hs' = Some (snd (store_put (env_store env) b t)))"
proof (cases "\<exists>a b. c = StoragePut a b")
  case True
  then obtain a b where "c = StoragePut a b" by blast
  with assms show ?thesis by (auto simp: as_i32_def dest!: storage_put_store)
next
  case False
  then have "required c \<noteq> Some StorageWrite" by (cases c) auto
  then show ?thesis using host_fn_frame [OF assms] by simp
qed

lemma agent_steps_hold:
  assumes "(agent_step env oc tier)\<^sup>*\<^sup>* hs hs'" and "env_store env = memory_store cid_of" and "holds_cid cid_of c hs"
  shows "holds_cid cid_of c hs'"
  using assms(1,3)
proof (induction rule: rtranclp_induct)
  case (step y z)
  from step.IH [OF step.prems] obtain m where m: "hs_store y = Some m"
      "agent_store.holds (memory_store cid_of) (memory_ok cid_of) c m" by blast
  from step.hyps(2) obtain call mem v where "host_fn env oc mem call y = Ok (v, z)" by cases blast
  from host_fn_store [OF this] m assms(2) memory.holds_put [of cid_of c m] show ?case by auto
qed

text \<open>
  C17: what an agent stores it can fetch again. After a successful \<open>storage_put\<close> into the in-memory store
  the shared buffer starts with the content identifier, and whatever calls the agent makes in between,
  a \<open>storage_get\<close> of that identifier, from whichever memory, succeeds and delivers data with this
  identifier: the stored data, or a collision of the hash. Data longer than the shared buffer is cut
  to its 64 KiB without an error, in the buffer and in the length returned.
\<close>

theorem stored_data_is_fetched:
  assumes "env_store env = memory_store (env_cid env)" and "hs_store hs = Some m" and "memory_ok (env_cid env) m"
    and "{StorageRead, StorageWrite} \<subseteq> capabilities (hs_permissions hs)"
    and "guest_slice oc mem ptr len = Ok d"
    and "host_fn env oc (Some mem) (StoragePut ptr len) hs = Ok (v, hs1)"
    and "(agent_step env oc tier)\<^sup>*\<^sup>* hs1 hs2"
    and "guest_slice oc mem2 ptr2 len2 = Ok (env_cid env d)" and "utf8_valid (env_cid env d)"
  shows "let n = length (hs_shared_buffer hs) in
    take (min (length (env_cid env d)) n) (hs_shared_buffer hs1) = take n (env_cid env d) \<and>
    (\<exists>e. env_cid env e = env_cid env d \<and>
      host_fn env oc (Some mem2) (StorageGet ptr2 len2) hs2 =
        Ok (I32 (of_nat (min (length e) n)), hs2\<lparr>hs_shared_buffer := take n e @ drop (length e) (hs_shared_buffer hs2)\<rparr>))"
proof -
  let ?cid = "env_cid env" and ?n = "length (hs_shared_buffer hs)"
  obtain m1 where put: "store_put (memory_store ?cid) d m = (Inr (?cid d), m1)"
    by (simp add: memory_store_def memory_put_def)
  have hs1: "hs1 = hs\<lparr>hs_store := Some m1,
      hs_shared_buffer := take (min (length (?cid d)) ?n) (?cid d) @ drop (min (length (?cid d)) ?n) (hs_shared_buffer hs)\<rparr>"
  proof -
    have "\<not> denied StorageWrite hs" using assms(4) by simp
    then have "host_storage_put env oc (Some mem) ptr len hs = write_shared (?cid d) (hs\<lparr>hs_store := Some m1\<rparr>)"
      by (simp only: host_storage_put_def assms(1,2,5) obind.simps option.case prod.case put sum.case if_False)
    with assms(6) show ?thesis
      by (auto simp: as_i32_def write_shared_def Let_def)
  qed
  have "holds_cid ?cid (?cid d) hs1"
    using memory.holds_new [OF assms(3), of d "?cid d"] put by (simp add: hs1)
  from agent_steps_hold [OF assms(7,1) this] obtain m2 where m2: "hs_store hs2 = Some m2"
      "agent_store.holds (memory_store ?cid) (memory_ok ?cid) (?cid d) m2" by blast
  from memory.holds_get [OF m2(2)] obtain e where e: "store_get (memory_store ?cid) (?cid d) m2 = Inr e" "?cid e = ?cid d"
    by blast
  have perm: "hs_permissions hs2 = hs_permissions hs" and len2: "length (hs_shared_buffer hs2) = ?n"
    using assms(7)
    by (induction rule: rtranclp_induct) (auto simp: hs1 dest: agent_step_frame(1,3))
  have "host_fn env oc (Some mem2) (StorageGet ptr2 len2) hs2 =
      Ok (I32 (of_nat (min (length e) ?n)), hs2\<lparr>hs_shared_buffer := take ?n e @ drop (length e) (hs_shared_buffer hs2)\<rparr>)"
    using assms(1,4,8,9) e(1) m2(1) len2 perm
    by (simp add: as_i32_def host_storage_get_def with_string_def write_shared_def Let_def min_def)
  moreover have "take (min (length (?cid d)) ?n) (hs_shared_buffer hs1) = take ?n (?cid d)"
    by (simp add: hs1 min_def)
  ultimately show ?thesis using e(2) by (auto simp: Let_def)
qed

definition storage_env :: "(nat, bytes \<rightharpoonup> bytes) host_env" where
  "storage_env = sample_env\<lparr>env_store := memory_store (\<lambda>_. [99])\<rparr>"

theorem stored_data_is_fetched_witness:
  "\<exists>hs. hs_store hs = Some Map.empty \<and>
    (\<exists>(e :: bytes) hs1 hs2. host_fn storage_env True (Some [7, 8]) (StoragePut 0 2) hs = Ok (I32 1, hs1) \<and>
      host_fn storage_env True (Some [99]) (StorageGet 0 1) hs1 = Ok (I32 (of_nat (min (length e) 65536)), hs2))"
proof -
  let ?hs = "with_store Map.empty (host_state_new 7 (permissions_new TIER1_PERMISSIONS)) :: (nat, bytes \<rightharpoonup> bytes) host_state"
  have s: "guest_slice True [7, 8] 0 2 = Ok [7, 8]" "guest_slice True [99] 0 1 = Ok [99]"
    by (simp_all add: guest_slice_eq in_guest_def)
  have f: "env_cid storage_env = (\<lambda>_. [99])" "env_store storage_env = memory_store (\<lambda>_. [99])"
    by (simp_all add: storage_env_def sample_env_def)
  have n: "length (hs_shared_buffer ?hs) = 65536" by (simp add: with_store_def host_state_new_def)
  obtain hs1 where p: "host_fn storage_env True (Some [7, 8]) (StoragePut 0 2) ?hs = Ok (I32 1, hs1)"
    by (simp add: as_i32_def host_storage_put_def s f write_shared_def Let_def memory_store_def memory_put_def
        with_store_def host_state_new_def permissions_new_def TIER1_PERMISSIONS_def)
  have u: "utf8_valid (env_cid storage_env [7, 8])" by (simp add: f)
  have e: "env_store storage_env = memory_store (env_cid storage_env)" by (simp add: f)
  have m: "memory_ok (env_cid storage_env) Map.empty" by (simp add: memory_ok_def)
  have h: "hs_store ?hs = Some Map.empty" by (simp add: with_store_def)
  have c: "{StorageRead, StorageWrite} \<subseteq> capabilities (hs_permissions ?hs)"
    by (simp add: with_store_def host_state_new_def permissions_new_def TIER1_PERMISSIONS_def)
  have s2: "guest_slice True [99] 0 1 = Ok (env_cid storage_env [7, 8])" by (simp add: s f)
  have "\<exists>(e :: bytes) hs2. host_fn storage_env True (Some [99]) (StorageGet 0 1) hs1 = Ok (I32 (of_nat (min (length e) 65536)), hs2)"
    using conjunct2 [OF stored_data_is_fetched [OF e h m c s(1) p rtranclp.rtrancl_refl s2 u, unfolded Let_def n]]
    by blast
  with p show ?thesis
    by (intro exI [of _ ?hs]) (auto simp: with_store_def)
qed

end
