(* ===== verification/Sql.thy ===== *)
theory Sql
  imports Prelude "HOL-Library.Monad_Syntax"
begin

text \<open>
  SQLite as \<open>crates/agent-runtime\<close> uses it: \<open>rusqlite\<close> is the record of the calls the code makes on a
  connection of type \<open>'d\<close>, each with its SQL text. What a text means is stated for all texts of a
  fragment of SQL at once: \<open>parse_sql\<close> reads a text as a statement, and the locale \<open>sqlite\<close> says what
  SQLite documents for a statement of that shape on the tables of a database. The program's own texts
  are not mentioned here; \<open>Lifecycle\<close> parses them. The interpretation \<open>memory\<close> runs any text of the
  fragment on tables in memory.
\<close>

section \<open>The calls\<close>

type_synonym i64 = "64 word"

datatype sql_value = Null | Integer i64 | Text string

text \<open>\<open>QueryReturnedNoRows\<close>, a value of another type than asked for, and all other errors.\<close>

datatype sql_error = NoRows | InvalidColumnType | Failure string

record 'd rusqlite =
  execute_batch :: "string \<Rightarrow> 'd \<Rightarrow> (sql_error + unit) \<times> 'd"
  execute :: "string \<Rightarrow> string list \<Rightarrow> 'd \<Rightarrow> (sql_error + nat) \<times> 'd"
  query_row :: "string \<Rightarrow> string list \<Rightarrow> 'd \<Rightarrow> sql_error + sql_value list"
  query_all :: "string \<Rightarrow> 'd \<Rightarrow> sql_error + (sql_error + sql_value list) list"

text \<open>\<open>row.get::<_, i64>(0)\<close> and \<open>row.get::<_, String>(0)\<close>\<close>

definition get_i64 :: "sql_value list \<Rightarrow> sql_error + i64" where
  "get_i64 row = (case row of Integer n # _ \<Rightarrow> Inr n | _ \<Rightarrow> Inl InvalidColumnType)"

definition get_string :: "sql_value list \<Rightarrow> sql_error + string" where
  "get_string row = (case row of Text s # _ \<Rightarrow> Inr s | _ \<Rightarrow> Inl InvalidColumnType)"

section \<open>Statements\<close>

record column =
  col_name :: string
  col_type :: string
  col_unique :: bool

datatype sql_expr = Literal nat | Column string

text \<open>\<open>WHERE c = ?n\<close>, if there is one.\<close>

type_synonym condition = "(string \<times> nat) option"

datatype sql_stmt =
    Create_if_not_exists string "column list"
  | Insert_or_replace string "string list" "nat list"
  | Delete string condition
  | Select "sql_expr list" string condition

section \<open>Reading a statement\<close>

datatype token = Word string | Number nat | Parameter nat | Quoted string | Symbol char

definition is_blank :: "char \<Rightarrow> bool" where
  "is_blank c \<longleftrightarrow> c = CHR '' '' \<or> c = CHR 0x0A \<or> c = CHR 0x0D \<or> c = CHR 0x09"

definition is_digit :: "char \<Rightarrow> bool" where
  "is_digit c \<longleftrightarrow> (let n = of_char c :: int in 48 \<le> n \<and> n < 58)"

definition is_lower :: "char \<Rightarrow> bool" where
  "is_lower c \<longleftrightarrow> (let n = of_char c :: int in 97 \<le> n \<and> n < 123) \<or> c = CHR ''_''"

definition is_letter :: "char \<Rightarrow> bool" where
  "is_letter c \<longleftrightarrow> (let n = of_char c :: int in 65 \<le> n \<and> n < 91) \<or> is_lower c"

definition number :: "string \<Rightarrow> nat" where
  "number = foldl (\<lambda>n c. 10 * n + nat (of_char c - 48)) 0"

function (sequential) tokens :: "string \<Rightarrow> token list" where
  "tokens [] = []"
| "tokens (c # s) =
     (if is_blank c then tokens s
      else if is_letter c then
        Word (c # takeWhile (\<lambda>d. is_letter d \<or> is_digit d) s) # tokens (dropWhile (\<lambda>d. is_letter d \<or> is_digit d) s)
      else if is_digit c then Number (number (c # takeWhile is_digit s)) # tokens (dropWhile is_digit s)
      else if c = CHR ''?'' then Parameter (number (takeWhile is_digit s)) # tokens (dropWhile is_digit s)
      else if c = CHR 0x27 then
        Quoted (takeWhile (\<lambda>d. d \<noteq> CHR 0x27) s) # tokens (drop 1 (dropWhile (\<lambda>d. d \<noteq> CHR 0x27) s))
      else Symbol c # tokens s)"
  by pat_completeness auto
termination
proof (relation "measure length")
  show "(drop 1 (dropWhile P s), c # s) \<in> measure length" for P s and c :: char
    using length_dropWhile_le [of P s] by simp
qed (auto simp: le_imp_less_Suc length_dropWhile_le)

text \<open>
  Keywords are upper case, names of tables and columns lower case and none of the words that stand for
  a value. SQL knows more spellings; a text that uses them is not of the fragment.
\<close>

definition is_name :: "string \<Rightarrow> bool" where
  "is_name w \<longleftrightarrow> w \<noteq> [] \<and> list_all is_lower w \<and>
     w \<notin> {''null'', ''true'', ''false'', ''current_time'', ''current_date'', ''current_timestamp''}"

definition expect :: "token list \<Rightarrow> token list \<Rightarrow> token list option" where
  "expect prefix ts = (if take (length prefix) ts = prefix then Some (drop (length prefix) ts) else None)"

fun read_name :: "token list \<Rightarrow> (string \<times> token list) option" where
  "read_name (Word w # ts) = (if is_name w then Some (w, ts) else None)"
| "read_name _ = None"

definition comma :: token where "comma = Symbol CHR '',''"
definition open_paren :: token where "open_paren = Symbol CHR ''(''"
definition close_paren :: token where "close_paren = Symbol CHR '')''"

text \<open>Names or parameters with commas between them, up to the closing parenthesis.\<close>

fun read_names :: "token list \<Rightarrow> (string list \<times> token list) option" where
  "read_names (Word w # t # ts) =
     (if \<not> is_name w then None
      else if t = close_paren then Some ([w], ts)
      else if t = comma then map_option (\<lambda>(ws, rest). (w # ws, rest)) (read_names ts)
      else None)"
| "read_names _ = None"

fun read_parameters :: "token list \<Rightarrow> (nat list \<times> token list) option" where
  "read_parameters (Parameter n # t # ts) =
     (if t = close_paren then Some ([n], ts)
      else if t = comma then map_option (\<lambda>(ns, rest). (n # ns, rest)) (read_parameters ts)
      else None)"
| "read_parameters _ = None"

text \<open>The expressions of a \<open>SELECT\<close>, up to \<open>FROM\<close>.\<close>

fun read_expr :: "token \<Rightarrow> sql_expr option" where
  "read_expr (Number n) = Some (Literal n)"
| "read_expr (Word w) = (if is_name w then Some (Column w) else None)"
| "read_expr _ = None"

fun read_exprs :: "token list \<Rightarrow> (sql_expr list \<times> token list) option" where
  "read_exprs (x # t # ts) =
     do {
       e \<leftarrow> read_expr x;
       if t = Word ''FROM'' then Some ([e], ts)
       else if t = comma then map_option (\<lambda>(es, rest). (e # es, rest)) (read_exprs ts)
       else None
     }"
| "read_exprs _ = None"

definition read_condition :: "token list \<Rightarrow> condition option" where
  "read_condition ts =
     (if ts = [] then Some None
      else do {
        rest \<leftarrow> expect [Word ''WHERE''] ts;
        (c, rest) \<leftarrow> read_name rest;
        rest \<leftarrow> expect [Symbol CHR ''=''] rest;
        (case rest of [Parameter n] \<Rightarrow> Some (Some (c, n)) | _ \<Rightarrow> None)
      })"

text \<open>The column definitions of a \<open>CREATE TABLE\<close>, cut at the commas outside parentheses.\<close>

fun split_definitions :: "nat \<Rightarrow> token list \<Rightarrow> token list \<Rightarrow> token list list option" where
  "split_definitions depth acc [] = None"
| "split_definitions depth acc (t # ts) =
     (if t = open_paren then split_definitions (Suc depth) (acc @ [t]) ts
      else if t = close_paren then
        (case depth of
           0 \<Rightarrow> if ts = [] then Some [acc] else None
         | Suc d \<Rightarrow> split_definitions d (acc @ [t]) ts)
      else if t = comma \<and> depth = 0 then map_option (\<lambda>defs. acc # defs) (split_definitions 0 [] ts)
      else split_definitions depth (acc @ [t]) ts)"

fun read_column :: "token list \<Rightarrow> column option" where
  "read_column (Word c # Word ty # constraints) =
     (if is_name c \<and> ty \<in> {''TEXT'', ''INTEGER'', ''REAL''} \<and>
         set constraints \<inter> {Word ''COLLATE'', Word ''GENERATED'', Word ''AS'', Word ''ON''} = {}
      then Some \<lparr>col_name = c, col_type = ty,
        col_unique = (Word ''PRIMARY'' \<in> set constraints \<or> Word ''UNIQUE'' \<in> set constraints)\<rparr>
      else None)"
| "read_column _ = None"

definition read_create :: "token list \<Rightarrow> sql_stmt option" where
  "read_create ts = do {
     rest \<leftarrow> expect (map Word [''CREATE'', ''TABLE'', ''IF'', ''NOT'', ''EXISTS'']) ts;
     (t, rest) \<leftarrow> read_name rest;
     rest \<leftarrow> expect [open_paren] rest;
     definitions \<leftarrow> split_definitions 0 [] rest;
     cols \<leftarrow> those (map read_column definitions);
     Some (Create_if_not_exists t cols)
   }"

definition read_insert :: "token list \<Rightarrow> sql_stmt option" where
  "read_insert ts = do {
     rest \<leftarrow> expect (map Word [''INSERT'', ''OR'', ''REPLACE'', ''INTO'']) ts;
     (t, rest) \<leftarrow> read_name rest;
     rest \<leftarrow> expect [open_paren] rest;
     (cs, rest) \<leftarrow> read_names rest;
     rest \<leftarrow> expect [Word ''VALUES'', open_paren] rest;
     (ns, rest) \<leftarrow> read_parameters rest;
     (if rest = [] then Some (Insert_or_replace t cs ns) else None)
   }"

definition read_delete :: "token list \<Rightarrow> sql_stmt option" where
  "read_delete ts = do {
     rest \<leftarrow> expect [Word ''DELETE'', Word ''FROM''] ts;
     (t, rest) \<leftarrow> read_name rest;
     map_option (Delete t) (read_condition rest)
   }"

definition read_select :: "token list \<Rightarrow> sql_stmt option" where
  "read_select ts = do {
     rest \<leftarrow> expect [Word ''SELECT''] ts;
     (es, rest) \<leftarrow> read_exprs rest;
     (t, rest) \<leftarrow> read_name rest;
     map_option (Select es t) (read_condition rest)
   }"

definition or_read :: "'a option \<Rightarrow> 'a option \<Rightarrow> 'a option" where
  "or_read a b = (case a of Some x \<Rightarrow> Some x | None \<Rightarrow> b)"

text \<open>One statement, with or without a semicolon at its end.\<close>

definition parse_sql :: "string \<Rightarrow> sql_stmt option" where
  "parse_sql sql =
     (let ts = tokens sql; ts = (if ts \<noteq> [] \<and> last ts = Symbol CHR '';'' then butlast ts else ts)
      in or_read (read_create ts) (or_read (read_insert ts) (or_read (read_delete ts) (read_select ts))))"

section \<open>What a statement does\<close>

text \<open>
  A table: its columns, and its rows as assignments of values to column names. A row that occurs twice
  is one row here, which makes no difference to what the statements of the fragment do.
\<close>

type_synonym sql_row = "string \<rightharpoonup> sql_value"

record sql_table =
  tab_columns :: "column list"
  tab_rows :: "sql_row set"

definition text_column :: "sql_table \<Rightarrow> string \<Rightarrow> bool" where
  "text_column tab c \<longleftrightarrow> (\<exists>col \<in> set (tab_columns tab). col_name col = c \<and> col_type col = ''TEXT'')"

definition bound :: "string list \<Rightarrow> nat \<Rightarrow> bool" where
  "bound params n \<longleftrightarrow> 0 < n \<and> n \<le> length params"

text \<open>A text parameter, stored in a text column or compared with one, is that text.\<close>

definition value_of :: "string list \<Rightarrow> nat \<Rightarrow> sql_value" where
  "value_of params n = Text (params ! (n - 1))"

definition meets :: "condition \<Rightarrow> string list \<Rightarrow> sql_row \<Rightarrow> bool" where
  "meets w params row = (case w of None \<Rightarrow> True | Some (c, n) \<Rightarrow> row c = Some (value_of params n))"

definition condition_ok :: "sql_table \<Rightarrow> string list \<Rightarrow> condition \<Rightarrow> bool" where
  "condition_ok tab params w = (case w of None \<Rightarrow> True | Some (c, n) \<Rightarrow> text_column tab c \<and> bound params n)"

fun evaluate :: "sql_row \<Rightarrow> sql_expr \<Rightarrow> sql_value" where
  "evaluate row (Literal n) = Integer (of_nat n)"
| "evaluate row (Column c) = (case row c of Some v \<Rightarrow> v | None \<Rightarrow> Null)"

definition exprs_ok :: "sql_table \<Rightarrow> sql_expr list \<Rightarrow> bool" where
  "exprs_ok tab es \<longleftrightarrow> (\<forall>c. Column c \<in> set es \<longrightarrow> c \<in> col_name ` set (tab_columns tab))"

definition insert_ok :: "sql_table \<Rightarrow> string list \<Rightarrow> string list \<Rightarrow> nat list \<Rightarrow> bool" where
  "insert_ok tab params cs ns \<longleftrightarrow> distinct cs \<and> length ns = length cs \<and> list_all (text_column tab) cs \<and> list_all (bound params) ns"

text \<open>Two rows that may not both be in the table.\<close>

definition collide :: "column list \<Rightarrow> sql_row \<Rightarrow> sql_row \<Rightarrow> bool" where
  "collide cols row row' \<longleftrightarrow> (\<exists>col \<in> set cols. col_unique col \<and> row (col_name col) = row' (col_name col) \<and>
     row (col_name col) \<noteq> None \<and> row (col_name col) \<noteq> Some Null)"

text \<open>
  What SQLite documents, for every text that parses. \<open>view\<close> are the tables of a database, without
  triggers. A statement that succeeds has the effect of its text on the table it names and on no other;
  one that fails has none; a query that returns a row returns one that meets the condition, and one
  that reports that there is no row has found none. Columns that an \<open>INSERT\<close> does not name get values
  about which nothing is said.
\<close>

locale sqlite =
  fixes ops :: "'d rusqlite"
    and view :: "'d \<Rightarrow> string \<Rightarrow> sql_table option"
  assumes create: "parse_sql sql = Some (Create_if_not_exists t cols) \<Longrightarrow> execute_batch ops sql db = (Inr (), db') \<Longrightarrow>
      view db' = (view db)(t \<mapsto> (case view db t of None \<Rightarrow> \<lparr>tab_columns = cols, tab_rows = {}\<rparr> | Some tab \<Rightarrow> tab))"
    and insert: "parse_sql sql = Some (Insert_or_replace t cs ns) \<Longrightarrow> view db t = Some tab \<Longrightarrow>
      insert_ok tab params cs ns \<Longrightarrow> execute ops sql params db = (Inr n, db') \<Longrightarrow>
      \<exists>row. list_all2 (\<lambda>c i. row c = Some (value_of params i)) cs ns \<and>
        view db' = (view db)(t \<mapsto> tab\<lparr>tab_rows := Set.insert row {r \<in> tab_rows tab. \<not> collide (tab_columns tab) row r}\<rparr>)"
    and delete: "parse_sql sql = Some (Delete t w) \<Longrightarrow> view db t = Some tab \<Longrightarrow> condition_ok tab params w \<Longrightarrow>
      execute ops sql params db = (Inr n, db') \<Longrightarrow>
      view db' = (view db)(t \<mapsto> tab\<lparr>tab_rows := {r \<in> tab_rows tab. \<not> meets w params r}\<rparr>)"
    and failed: "parse_sql sql = Some stmt \<Longrightarrow> execute ops sql params db = (Inl e, db') \<Longrightarrow> view db' = view db"
    and row_found: "parse_sql sql = Some (Select es t w) \<Longrightarrow> view db t = Some tab \<Longrightarrow> condition_ok tab params w \<Longrightarrow>
      exprs_ok tab es \<Longrightarrow> query_row ops sql params db = Inr vs \<Longrightarrow>
      \<exists>r \<in> tab_rows tab. meets w params r \<and> vs = map (evaluate r) es"
    and no_row: "parse_sql sql = Some (Select es t w) \<Longrightarrow> view db t = Some tab \<Longrightarrow> condition_ok tab params w \<Longrightarrow>
      exprs_ok tab es \<Longrightarrow> query_row ops sql params db = Inl NoRows \<Longrightarrow> r \<in> tab_rows tab \<Longrightarrow> \<not> meets w params r"
    and row_listed: "parse_sql sql = Some (Select es t None) \<Longrightarrow> view db t = Some tab \<Longrightarrow> exprs_ok tab es \<Longrightarrow>
      query_all ops sql db = Inr items \<Longrightarrow> Inr vs \<in> set items \<Longrightarrow> \<exists>r \<in> tab_rows tab. vs = map (evaluate r) es"
    and all_listed: "parse_sql sql = Some (Select es t None) \<Longrightarrow> view db t = Some tab \<Longrightarrow> exprs_ok tab es \<Longrightarrow>
      query_all ops sql db = Inr items \<Longrightarrow> list_all (\<lambda>item. \<not> isl item) items \<Longrightarrow> r \<in> tab_rows tab \<Longrightarrow>
      Inr (map (evaluate r) es) \<in> set items"

section \<open>Tables in memory\<close>

type_synonym memory_db = "string \<rightharpoonup> column list \<times> (string \<times> sql_value) list list"

definition memory_view :: "memory_db \<Rightarrow> string \<Rightarrow> sql_table option" where
  "memory_view db t = map_option (\<lambda>(cols, rs). \<lparr>tab_columns = cols, tab_rows = map_of ` set rs\<rparr>) (db t)"

definition memory_failure :: "sql_error + 'a" where
  "memory_failure = Inl (Failure ''near: syntax error'')"

definition memory_batch :: "string \<Rightarrow> memory_db \<Rightarrow> (sql_error + unit) \<times> memory_db" where
  "memory_batch sql db =
     (case parse_sql sql of
        Some (Create_if_not_exists t cols) \<Rightarrow> (Inr (), case db t of None \<Rightarrow> db(t \<mapsto> (cols, [])) | Some _ \<Rightarrow> db)
      | _ \<Rightarrow> (memory_failure, db))"

definition memory_execute :: "string \<Rightarrow> string list \<Rightarrow> memory_db \<Rightarrow> (sql_error + nat) \<times> memory_db" where
  "memory_execute sql params db =
     (case parse_sql sql of
        Some (Insert_or_replace t cs ns) \<Rightarrow>
          (case db t of
             None \<Rightarrow> (memory_failure, db)
           | Some (cols, rs) \<Rightarrow>
               let row = zip cs (map (value_of params) ns)
               in (Inr 1, db(t \<mapsto> (cols, row # filter (\<lambda>r. \<not> collide cols (map_of row) (map_of r)) rs))))
      | Some (Delete t w) \<Rightarrow>
          (case db t of
             None \<Rightarrow> (memory_failure, db)
           | Some (cols, rs) \<Rightarrow>
               (Inr (length (filter (\<lambda>r. meets w params (map_of r)) rs)),
                db(t \<mapsto> (cols, filter (\<lambda>r. \<not> meets w params (map_of r)) rs))))
      | _ \<Rightarrow> (memory_failure, db))"

definition memory_select :: "string \<Rightarrow> string list \<Rightarrow> memory_db \<Rightarrow> sql_error + sql_value list list" where
  "memory_select sql params db =
     (case parse_sql sql of
        Some (Select es t w) \<Rightarrow>
          (case db t of
             None \<Rightarrow> memory_failure
           | Some (cols, rs) \<Rightarrow>
               Inr (map (\<lambda>r. map (evaluate (map_of r)) es) (filter (\<lambda>r. meets w params (map_of r)) rs)))
      | _ \<Rightarrow> memory_failure)"

definition memory_ops :: "memory_db rusqlite" where
  "memory_ops = \<lparr>execute_batch = memory_batch, execute = memory_execute,
     query_row = \<lambda>sql params db. (case memory_select sql params db of
       Inl e \<Rightarrow> Inl e | Inr [] \<Rightarrow> Inl NoRows | Inr (vs # _) \<Rightarrow> Inr vs),
     query_all = \<lambda>sql db. (case memory_select sql [] db of Inl e \<Rightarrow> Inl e | Inr rows \<Rightarrow> Inr (map Inr rows))\<rparr>"

lemma memory_view_eq:
  "memory_view db t = Some tab \<longleftrightarrow> (\<exists>rs. db t = Some (tab_columns tab, rs) \<and> tab_rows tab = map_of ` set rs)"
  by (cases tab) (auto simp: memory_view_def)

lemma memory_view_upd:
  "memory_view (db(t \<mapsto> (cols, rs))) = (memory_view db)(t \<mapsto> \<lparr>tab_columns = cols, tab_rows = map_of ` set rs\<rparr>)"
  by (auto simp: memory_view_def fun_eq_iff)

lemma memory_rows_filter: "map_of ` set (filter (\<lambda>r. P (map_of r)) rs) = {r \<in> map_of ` set rs. P r}"
  by auto

lemma memory_all:
  "parse_sql sql = Some (Select es t None) \<Longrightarrow> db t = Some (cols, rs) \<Longrightarrow>
    query_all memory_ops sql db = Inr (map (\<lambda>r. Inr (map (evaluate (map_of r)) es)) rs)"
  by (simp add: memory_ops_def memory_select_def meets_def comp_def)

interpretation memory: sqlite memory_ops memory_view
proof
  fix sql t cols and db db' :: memory_db
  assume "parse_sql sql = Some (Create_if_not_exists t cols)" "execute_batch memory_ops sql db = (Inr (), db')"
  then show "memory_view db' = (memory_view db)(t \<mapsto>
      (case memory_view db t of None \<Rightarrow> \<lparr>tab_columns = cols, tab_rows = {}\<rparr> | Some tab \<Rightarrow> tab))"
    by (cases "db t") (auto simp: memory_ops_def memory_batch_def memory_view_upd, auto simp: memory_view_def fun_eq_iff)
next
  fix sql t cs ns and db :: memory_db and tab params n db'
  assume p: "parse_sql sql = Some (Insert_or_replace t cs ns)" "memory_view db t = Some tab"
    "insert_ok tab params cs ns" and run: "execute memory_ops sql params db = (Inr n, db')"
  let ?row = "map_of (zip cs (map (value_of params) ns))"
  have "list_all2 (\<lambda>c i. ?row c = Some (value_of params i)) cs ns"
    using p(3) by (auto simp: insert_ok_def list_all2_conv_all_nth in_set_zip)
  moreover have "memory_view db' = (memory_view db)
      (t \<mapsto> tab\<lparr>tab_rows := Set.insert ?row {r \<in> tab_rows tab. \<not> collide (tab_columns tab) ?row r}\<rparr>)"
    using p(1,2) run by (cases tab) (auto simp: memory_ops_def memory_execute_def memory_view_eq memory_view_upd memory_failure_def Let_def
        memory_rows_filter [of "\<lambda>r. \<not> collide cols ?row r" for cols] simp del: set_filter)
  ultimately show "\<exists>row. list_all2 (\<lambda>c i. row c = Some (value_of params i)) cs ns \<and> memory_view db' = (memory_view db)
      (t \<mapsto> tab\<lparr>tab_rows := Set.insert row {r \<in> tab_rows tab. \<not> collide (tab_columns tab) row r}\<rparr>)" by blast
next
  fix sql t w and db :: memory_db and tab params n db'
  assume "parse_sql sql = Some (Delete t w)" "memory_view db t = Some tab" "execute memory_ops sql params db = (Inr n, db')"
  then show "memory_view db' = (memory_view db)(t \<mapsto> tab\<lparr>tab_rows := {r \<in> tab_rows tab. \<not> meets w params r}\<rparr>)"
    by (cases tab) (auto simp: memory_ops_def memory_execute_def memory_view_eq memory_view_upd
        memory_rows_filter [of "\<lambda>r. \<not> meets w params r"] simp del: set_filter)
next
  fix sql stmt params and db :: memory_db and e db'
  assume "parse_sql sql = Some stmt" "execute memory_ops sql params db = (Inl e, db')"
  then show "memory_view db' = memory_view db"
    by (auto simp: memory_ops_def memory_execute_def memory_failure_def Let_def split: sql_stmt.splits option.splits)
next
  fix sql es t w and db :: memory_db and tab params vs
  assume "parse_sql sql = Some (Select es t w)" "memory_view db t = Some tab" "query_row memory_ops sql params db = Inr vs"
  then show "\<exists>r \<in> tab_rows tab. meets w params r \<and> vs = map (evaluate r) es"
    by (auto simp: memory_ops_def memory_select_def memory_view_eq filter_eq_Cons_iff map_eq_Cons_conv split: list.splits)
next
  fix sql es t w and db :: memory_db and tab params r
  assume "parse_sql sql = Some (Select es t w)" "memory_view db t = Some tab"
    "query_row memory_ops sql params db = Inl NoRows" "r \<in> tab_rows tab"
  then show "\<not> meets w params r"
    by (auto simp: memory_ops_def memory_select_def memory_view_eq filter_empty_conv split: list.splits)
next
  fix sql es t and db :: memory_db and tab items and vs :: "sql_value list"
  assume p: "parse_sql sql = Some (Select es t None)" "memory_view db t = Some tab"
    "query_all memory_ops sql db = Inr items" and vs: "Inr vs \<in> set items"
  obtain rs where rs: "db t = Some (tab_columns tab, rs)" "tab_rows tab = map_of ` set rs"
    using p(2) by (auto simp: memory_view_eq)
  from vs p(3) memory_all [where db = db, OF p(1) rs(1)] obtain r where "r \<in> set rs" "vs = map (evaluate (map_of r)) es"
    by (auto simp del: map_eq_conv)
  with rs(2) show "\<exists>r \<in> tab_rows tab. vs = map (evaluate r) es" by blast
next
  fix sql es t and db :: memory_db and tab items and r :: sql_row
  assume p: "parse_sql sql = Some (Select es t None)" "memory_view db t = Some tab"
    "query_all memory_ops sql db = Inr items" and r: "r \<in> tab_rows tab"
  obtain rs where rs: "db t = Some (tab_columns tab, rs)" "tab_rows tab = map_of ` set rs"
    using p(2) by (auto simp: memory_view_eq)
  with r obtain x where "x \<in> set rs" "r = map_of x" by auto
  with p(3) memory_all [where db = db, OF p(1) rs(1)] show "Inr (map (evaluate r) es) \<in> set items" by auto
qed

end
