(* ===== verification/Lifecycle.thy ===== *)
theory Lifecycle
  imports Agent Sql
begin

text \<open>
  The rest of \<open>crates/agent-runtime\<close>: the whitelist of agents (\<open>governance.rs\<close>), the tables every agent
  gets and the health check (\<open>observe.rs\<close>), the sandbox (\<open>sandbox.rs\<close>) and the loading, starting and
  registering of agents (\<open>lifecycle.rs\<close>). A database is reached through the record \<open>rusqlite\<close> of \<open>Sql\<close>
  with the SQL text of the source; what the texts of the whitelist do is derived by parsing them, from
  what the locale \<open>sqlite\<close> says of every text of its fragment. wasmtime is the record \<open>runtime\<close>.
\<close>

section \<open>Governance\<close>

record governance_config =
  cfg_governance_cid :: string
  cfg_network_id :: string

datatype whitelist_action = Add | Remove

record whitelist_update =
  wu_action :: whitelist_action
  wu_agent_cid :: string
  wu_agent_type :: string
  wu_governance_cid :: string

definition CREATE_WHITELIST :: string where
  "CREATE_WHITELIST = ''CREATE TABLE IF NOT EXISTS agent_whitelist (
                cid TEXT PRIMARY KEY,
                agent_type TEXT NOT NULL,
                added_at INTEGER NOT NULL DEFAULT (strftime('%s','now'))
            );''"

definition SELECT_CID :: string where
  "SELECT_CID = ''SELECT 1 FROM agent_whitelist WHERE cid = ?1''"

definition INSERT_CID :: string where
  "INSERT_CID = ''INSERT OR REPLACE INTO agent_whitelist (cid, agent_type) VALUES (?1, ?2)''"

definition DELETE_CID :: string where
  "DELETE_CID = ''DELETE FROM agent_whitelist WHERE cid = ?1''"

definition SELECT_ALL :: string where
  "SELECT_ALL = ''SELECT cid FROM agent_whitelist''"

text \<open>\<open>AgentWhitelist\<close>; its state is that of its connection.\<close>

definition whitelist_new :: "'d rusqlite \<Rightarrow> 'd \<Rightarrow> (sql_error + unit) \<times> 'd" where
  "whitelist_new ops db = execute_batch ops CREATE_WHITELIST db"

definition is_whitelisted :: "'d rusqlite \<Rightarrow> string \<Rightarrow> 'd \<Rightarrow> bool" where
  "is_whitelisted ops cid db = (case query_row ops SELECT_CID [cid] db of Inr row \<Rightarrow> True | Inl e \<Rightarrow> False)"

definition discard_count :: "(sql_error + nat) \<times> 'd \<Rightarrow> (sql_error + unit) \<times> 'd" where
  "discard_count = (\<lambda>(res, db). (case res of Inl e \<Rightarrow> Inl e | Inr n \<Rightarrow> Inr (), db))"

definition apply_update :: "'d rusqlite \<Rightarrow> whitelist_update \<Rightarrow> 'd \<Rightarrow> (sql_error + unit) \<times> 'd" where
  "apply_update ops update db =
     discard_count (case wu_action update of
       Add \<Rightarrow> execute ops INSERT_CID [wu_agent_cid update, wu_agent_type update] db
     | Remove \<Rightarrow> execute ops DELETE_CID [wu_agent_cid update] db)"

text \<open>Rows that cannot be read are left out.\<close>

definition whitelist_list :: "'d rusqlite \<Rightarrow> 'd \<Rightarrow> sql_error + string set" where
  "whitelist_list ops db =
     (case query_all ops SELECT_ALL db of
        Inl e \<Rightarrow> Inl e
      | Inr rows \<Rightarrow> Inr {cid. \<exists>row \<in> set rows. case row of Inl e \<Rightarrow> False | Inr r \<Rightarrow> get_string r = Inr cid})"

section \<open>Observability\<close>

definition OBSERVABILITY_TABLES :: string where
  "OBSERVABILITY_TABLES = ''CREATE TABLE IF NOT EXISTS _health (
            timestamp INTEGER NOT NULL DEFAULT (strftime('%s','now')),
            status TEXT NOT NULL DEFAULT 'running',
            last_action INTEGER,
            error TEXT
        );

        CREATE TABLE IF NOT EXISTS _metrics (
            timestamp INTEGER NOT NULL DEFAULT (strftime('%s','now')),
            metric TEXT NOT NULL,
            value REAL NOT NULL
        );

        CREATE TABLE IF NOT EXISTS _log (
            timestamp INTEGER NOT NULL DEFAULT (strftime('%s','now')),
            level TEXT NOT NULL,
            message TEXT NOT NULL
        );''"

definition create_observability_tables :: "'d rusqlite \<Rightarrow> 'd \<Rightarrow> (sql_error + unit) \<times> 'd" where
  "create_observability_tables ops db = execute_batch ops OBSERVABILITY_TABLES db"

definition sub_i64 :: "bool \<Rightarrow> i64 \<Rightarrow> i64 \<Rightarrow> ('e, i64) outcome" where
  "sub_i64 oc a b =
     (if oc \<and> (sint a - sint b < - (2 ^ 63) \<or> 2 ^ 63 \<le> sint a - sint b) then Panic else Ok (a - b))"

text \<open>\<open>now\<close> is the clock in seconds since 1970 (\<open>0\<close> before), cast to \<open>i64\<close>.\<close>

definition check_health :: "bool \<Rightarrow> 'd rusqlite \<Rightarrow> i64 \<Rightarrow> i64 \<Rightarrow> 'd \<Rightarrow> (sql_error, bool) outcome" where
  "check_health oc ops now heartbeat_interval_secs db =
     (case (case query_row ops ''SELECT MAX(timestamp) FROM _health'' [] db of Inl e \<Rightarrow> Inl e | Inr row \<Rightarrow> get_i64 row) of
        Inr ts \<Rightarrow> omap (\<lambda>age. sint age \<le> sint heartbeat_interval_secs) (sub_i64 oc now ts)
      | Inl e \<Rightarrow> Ok False)"

section \<open>The sandbox\<close>

record sandbox_config =
  max_memory_bytes :: nat
  fuel_limit :: u64
  max_execution_time :: nat

datatype sandbox_error = Wasm string | ResourceLimit string

definition default_sandbox_config :: sandbox_config where
  "default_sandbox_config = \<lparr>max_memory_bytes = 64 * 1024 * 1024, fuel_limit = 1000000, max_execution_time = 30\<rparr>"

text \<open>An import of a module: a memory with its minimal number of pages, or anything else.\<close>

datatype import_type = MemoryImport u64 | OtherImport

text \<open>wasmtime and the file system: each step returns its error or its result.\<close>

record ('d, 'i) runtime =
  rt_engine :: "string + unit"
  rt_open :: "path \<Rightarrow> sql_error + 'd"
  rt_sql :: "'d rusqlite"
  rt_fuel :: "u64 \<Rightarrow> string + unit"
  rt_link :: "string + unit"
  rt_module :: "bytes \<Rightarrow> string + import_type list"
  rt_instantiate :: "u8 \<Rightarrow> bytes \<Rightarrow> string + 'i"
  rt_exports :: "'i \<Rightarrow> string \<Rightarrow> bool"
  rt_call :: "'i \<Rightarrow> string \<Rightarrow> string + unit"

fun or_else :: "('x \<Rightarrow> 'e) \<Rightarrow> 'x + 'a \<Rightarrow> ('e, 'a) outcome" where
  "or_else err (Inl e) = Err (err e)"
| "or_else err (Inr v) = Ok v"

lemma or_else_Ok [simp]: "or_else err r = Ok v \<longleftrightarrow> r = Inr v"
  by (cases r) auto

record wasm_sandbox =
  sandbox_config :: sandbox_config

record 'a wasm_store =
  store_data :: 'a
  store_fuel :: u64
  store_deadline :: u64

definition sandbox_new :: "('d, 'i) runtime \<Rightarrow> sandbox_config \<Rightarrow> (sandbox_error, wasm_sandbox) outcome" where
  "sandbox_new rt config = omap (\<lambda>engine. \<lparr>sandbox_config = config\<rparr>) (or_else Wasm (rt_engine rt))"

definition create_store :: "('d, 'i) runtime \<Rightarrow> wasm_sandbox \<Rightarrow> 'a \<Rightarrow> (sandbox_error, 'a wasm_store) outcome" where
  "create_store rt self data =
     omap (\<lambda>_. \<lparr>store_data = data, store_fuel = fuel_limit (sandbox_config self), store_deadline = 1\<rparr>)
       (or_else Wasm (rt_fuel rt (fuel_limit (sandbox_config self))))"

fun check_memory_limits :: "sandbox_config \<Rightarrow> import_type list \<Rightarrow> (sandbox_error, unit) outcome" where
  "check_memory_limits config [] = Ok ()"
| "check_memory_limits config (MemoryImport minimum # imports) =
     (let max_pages = of_nat (max_memory_bytes config div 65536) :: u64
      in if max_pages < minimum
         then Err (ResourceLimit (''module requests '' @ dec_string (unat minimum) @ '' pages, max is '' @ dec_string (unat max_pages)))
         else check_memory_limits config imports)"
| "check_memory_limits config (OtherImport # imports) = check_memory_limits config imports"

definition instantiate_module ::
  "('d, 'i) runtime \<Rightarrow> wasm_sandbox \<Rightarrow> u8 \<Rightarrow> bytes \<Rightarrow> (sandbox_error, 'i) outcome" where
  "instantiate_module rt self tier wasm_bytes =
     obind (or_else Wasm (rt_module rt wasm_bytes)) (\<lambda>imports.
     obind (check_memory_limits (sandbox_config self) imports) (\<lambda>_.
     or_else Wasm (rt_instantiate rt tier wasm_bytes)))"

section \<open>Agents\<close>

record agent_manifest =
  manifest_cid :: string
  manifest_name :: string
  manifest_version :: string
  required_capabilities :: "capability list"
  manifest_tier :: u8

datatype lifecycle_error = Sandbox sandbox_error | Database sql_error | WasmError string | NoEntryPoint

record ('d, 't, 'i) agent_instance =
  inst_manifest :: agent_manifest
  inst_store :: "('d, 't) host_state wasm_store"
  inst_instance :: 'i
  inst_db_path :: path

abbreviation inst_state :: "('d, 't, 'i) agent_instance \<Rightarrow> ('d, 't) host_state" where
  "inst_state agent \<equiv> store_data (inst_store agent)"

definition load_agent ::
  "('d, 'i) runtime \<Rightarrow> bytes \<Rightarrow> agent_manifest \<Rightarrow> permission_set \<Rightarrow> path \<Rightarrow> sandbox_config option \<Rightarrow>
    (lifecycle_error, ('d, 't, 'i) agent_instance) outcome" where
  "load_agent rt wasm_bytes manifest permissions db_dir config =
     obind (map_err Sandbox (sandbox_new rt (case config of None \<Rightarrow> default_sandbox_config | Some c \<Rightarrow> c))) (\<lambda>sandbox.
     let db_path = path_join db_dir (manifest_cid manifest @ ''.sqlite'')
     in obind (or_else Database (rt_open rt db_path)) (\<lambda>db.
        case create_observability_tables (rt_sql rt) db of
          (Inl e, db) \<Rightarrow> Err (Database e)
        | (Inr _, db) \<Rightarrow>
            obind (map_err Sandbox (create_store rt sandbox (host_state_new db permissions))) (\<lambda>store.
            obind (or_else WasmError (rt_link rt)) (\<lambda>linker.
            obind (map_err Sandbox (instantiate_module rt sandbox (manifest_tier manifest) wasm_bytes)) (\<lambda>inst.
            Ok \<lparr>inst_manifest = manifest, inst_store = store, inst_instance = inst, inst_db_path = db_path\<rparr>)))))"

definition start_agent :: "('d, 'i) runtime \<Rightarrow> ('d, 't, 'i) agent_instance \<Rightarrow> (lifecycle_error, unit) outcome" where
  "start_agent rt agent =
     (if rt_exports rt (inst_instance agent) ''_init'' then or_else WasmError (rt_call rt (inst_instance agent) ''_init'')
      else if rt_exports rt (inst_instance agent) ''_start'' then or_else WasmError (rt_call rt (inst_instance agent) ''_start'')
      else Err NoEntryPoint)"

text \<open>The result of the shutdown call is ignored.\<close>

definition stop_agent :: "('d, 'i) runtime \<Rightarrow> ('d, 't, 'i) agent_instance \<Rightarrow> (lifecycle_error, unit) outcome" where
  "stop_agent rt agent =
     (if rt_exports rt (inst_instance agent) ''_shutdown''
      then let ignored = rt_call rt (inst_instance agent) ''_shutdown'' in Ok () else Ok ())"

type_synonym agent_registry = "string \<rightharpoonup> agent_manifest"

definition registry_new :: agent_registry where "registry_new = Map.empty"

definition register_agent :: "agent_manifest \<Rightarrow> agent_registry \<Rightarrow> agent_registry" where
  "register_agent manifest self = self(manifest_cid manifest \<mapsto> manifest)"

definition unregister_agent :: "string \<Rightarrow> agent_registry \<Rightarrow> agent_registry" where
  "unregister_agent cid self = self(cid := None)"

definition list_agents :: "agent_registry \<Rightarrow> agent_manifest set" where
  "list_agents self = ran self"

definition get_agent :: "string \<Rightarrow> agent_registry \<Rightarrow> agent_manifest option" where
  "get_agent cid self = self cid"

section \<open>The whitelist's statements\<close>

text \<open>What the texts of the source say, as SQL.\<close>

definition whitelist_columns :: "column list" where
  "whitelist_columns =
     [\<lparr>col_name = ''cid'', col_type = ''TEXT'', col_unique = True\<rparr>,
      \<lparr>col_name = ''agent_type'', col_type = ''TEXT'', col_unique = False\<rparr>,
      \<lparr>col_name = ''added_at'', col_type = ''INTEGER'', col_unique = False\<rparr>]"

lemma parse_whitelist:
  "parse_sql CREATE_WHITELIST = Some (Create_if_not_exists ''agent_whitelist'' whitelist_columns)"
  "parse_sql SELECT_CID = Some (Select [Literal 1] ''agent_whitelist'' (Some (''cid'', 1)))"
  "parse_sql INSERT_CID = Some (Insert_or_replace ''agent_whitelist'' [''cid'', ''agent_type''] [1, 2])"
  "parse_sql DELETE_CID = Some (Delete ''agent_whitelist'' (Some (''cid'', 1)))"
  "parse_sql SELECT_ALL = Some (Select [Column ''cid''] ''agent_whitelist'' None)"
  by code_simp+

definition whitelist_table :: "sql_row set \<Rightarrow> sql_table" where
  "whitelist_table rows = \<lparr>tab_columns = whitelist_columns, tab_rows = rows\<rparr>"

definition cids_of :: "sql_row set \<Rightarrow> string set" where
  "cids_of rows = {cid. \<exists>row \<in> rows. row ''cid'' = Some (Text cid)}"

lemma whitelist_texts:
  "condition_ok (whitelist_table rows) [c] (Some (''cid'', 1))" "exprs_ok (whitelist_table rows) [Column ''cid'']"
  "exprs_ok (whitelist_table rows) [Literal 1]" "insert_ok (whitelist_table rows) [c, t] [''cid'', ''agent_type''] [1, 2]"
  by (simp_all add: condition_ok_def exprs_ok_def insert_ok_def text_column_def bound_def whitelist_table_def whitelist_columns_def)

lemma whitelist_collide:
  "row ''cid'' = Some (Text c) \<Longrightarrow> collide whitelist_columns row r \<longleftrightarrow> r ''cid'' = Some (Text c)"
  by (auto simp: collide_def whitelist_columns_def)

lemma cids_of_insert:
  "row ''cid'' = Some (Text c) \<Longrightarrow> cids_of (Set.insert row {r \<in> rows. \<not> collide whitelist_columns row r}) = Set.insert c (cids_of rows)"
  by (auto simp: cids_of_def whitelist_collide)

lemma cids_of_delete: "cids_of {r \<in> rows. \<not> meets (Some (''cid'', 1)) [c] r} = cids_of rows - {c}"
  by (auto simp: cids_of_def meets_def value_of_def)

text \<open>The updates, on any database that does what its SQL says.\<close>

context sqlite
begin

definition holds :: "'d \<Rightarrow> string set \<Rightarrow> bool" where
  "holds db cids \<longleftrightarrow> (\<exists>rows. view db ''agent_whitelist'' = Some (whitelist_table rows) \<and> cids_of rows = cids)"

lemma whitelist_new_holds:
  assumes "whitelist_new ops db = (Inr (), db')"
  shows "view db ''agent_whitelist'' = None \<Longrightarrow> holds db' {}"
    and "holds db cids \<Longrightarrow> holds db' cids"
  using create [OF parse_whitelist(1) assms [unfolded whitelist_new_def]]
  by (auto simp: holds_def whitelist_table_def cids_of_def)

lemma apply_update_holds:
  assumes "holds db cids" and "apply_update ops u db = (res, db')"
  shows "holds db' (if res = Inr () then
    case wu_action u of Add \<Rightarrow> Set.insert (wu_agent_cid u) cids | Remove \<Rightarrow> cids - {wu_agent_cid u} else cids)"
proof -
  obtain rows where v: "view db ''agent_whitelist'' = Some (whitelist_table rows)" and c: "cids_of rows = cids"
    using assms(1) by (auto simp: holds_def)
  show ?thesis
  proof (cases "wu_action u")
    case Add
    obtain r where e: "execute ops INSERT_CID [wu_agent_cid u, wu_agent_type u] db = (r, db')"
      and res: "res = (case r of Inl e \<Rightarrow> Inl e | Inr n \<Rightarrow> Inr ())"
      using assms(2) Add by (auto simp: apply_update_def discard_count_def split: prod.splits)
    show ?thesis
    proof (cases r)
      case (Inl err)
      with failed [OF parse_whitelist(3) e [unfolded Inl]] v c res show ?thesis by (auto simp: holds_def)
    next
      case (Inr n)
      from insert [OF parse_whitelist(3) v whitelist_texts(4) e [unfolded Inr]] obtain row where
        row: "row ''cid'' = Some (Text (wu_agent_cid u))" and
        "view db' = (view db)(''agent_whitelist'' \<mapsto> whitelist_table (Set.insert row {r \<in> rows. \<not> collide whitelist_columns row r}))"
        by (auto simp: whitelist_table_def value_of_def)
      moreover note cids_of_insert [where rows = rows, of row, OF row]
      ultimately show ?thesis
        using Add Inr res c by (auto simp: holds_def)
    qed
  next
    case Remove
    obtain r where e: "execute ops DELETE_CID [wu_agent_cid u] db = (r, db')"
      and res: "res = (case r of Inl e \<Rightarrow> Inl e | Inr n \<Rightarrow> Inr ())"
      using assms(2) Remove by (auto simp: apply_update_def discard_count_def split: prod.splits)
    show ?thesis
    proof (cases r)
      case (Inl err)
      with failed [OF parse_whitelist(4) e [unfolded Inl]] v c res show ?thesis by (auto simp: holds_def)
    next
      case (Inr n)
      from delete [OF parse_whitelist(4) v whitelist_texts(1) e [unfolded Inr]]
      have "view db' = (view db)(''agent_whitelist'' \<mapsto>
          whitelist_table {r \<in> rows. \<not> meets (Some (''cid'', 1)) [wu_agent_cid u] r})"
        by (simp add: whitelist_table_def)
      with cids_of_delete [of rows "wu_agent_cid u"] show ?thesis
        using Remove Inr res c by (auto simp: holds_def)
    qed
  qed
qed

lemma whitelisted_holds:
  assumes "holds db cids"
  shows "is_whitelisted ops cid db \<Longrightarrow> cid \<in> cids"
    and "(\<And>e. query_row ops SELECT_CID [cid] db = Inl e \<Longrightarrow> e = NoRows) \<Longrightarrow> cid \<in> cids \<Longrightarrow> is_whitelisted ops cid db"
proof -
  obtain rows where v: "view db ''agent_whitelist'' = Some (whitelist_table rows)" and c: "cids_of rows = cids"
    using assms by (auto simp: holds_def)
  have meets: "meets (Some (''cid'', 1)) [cid] r \<longleftrightarrow> r ''cid'' = Some (Text cid)" for r
    by (simp add: meets_def value_of_def)
  show "cid \<in> cids" if w: "is_whitelisted ops cid db"
  proof -
    from w obtain row where "query_row ops SELECT_CID [cid] db = Inr row"
      by (auto simp: is_whitelisted_def split: sum.splits)
    from row_found [OF parse_whitelist(2) v whitelist_texts(1,3) this] meets c show ?thesis
      by (auto simp: cids_of_def whitelist_table_def)
  qed
  show "is_whitelisted ops cid db" if e: "\<And>e. query_row ops SELECT_CID [cid] db = Inl e \<Longrightarrow> e = NoRows" and cid: "cid \<in> cids"
  proof (rule ccontr)
    assume "\<not> is_whitelisted ops cid db"
    with e have none: "query_row ops SELECT_CID [cid] db = Inl NoRows"
      by (auto simp: is_whitelisted_def split: sum.splits)
    from cid c obtain row where "row \<in> tab_rows (whitelist_table rows)" "row ''cid'' = Some (Text cid)"
      by (auto simp: cids_of_def whitelist_table_def)
    with no_row [OF parse_whitelist(2) v whitelist_texts(1,3) none] meets show False by blast
  qed
qed

lemma listed_holds:
  assumes "holds db cids" and "query_all ops SELECT_ALL db = Inr items" and "list_all (\<lambda>item. \<not> isl item) items"
  shows "whitelist_list ops db = Inr cids"
proof -
  obtain rows where v: "view db ''agent_whitelist'' = Some (whitelist_table rows)" and c: "cids_of rows = cids"
    using assms(1) by (auto simp: holds_def)
  have string: "get_string [evaluate row (Column ''cid'')] = Inr cid \<longleftrightarrow> row ''cid'' = Some (Text cid)" for row :: sql_row and cid
    by (auto simp: get_string_def split: option.split sql_value.split)
  have "(\<exists>item \<in> set items. case item of Inl e \<Rightarrow> False | Inr r \<Rightarrow> get_string r = Inr cid) \<longleftrightarrow> cid \<in> cids" for cid
  proof
    assume "\<exists>item \<in> set items. case item of Inl e \<Rightarrow> False | Inr r \<Rightarrow> get_string r = Inr cid"
    then obtain item where item: "item \<in> set items" "case item of Inl e \<Rightarrow> False | Inr r \<Rightarrow> get_string r = Inr cid" by blast
    from item(2) obtain vs where "item = Inr vs" "get_string vs = Inr cid" by (cases item) auto
    with item(1) have vs: "Inr vs \<in> set items" "get_string vs = Inr cid" by simp_all
    from row_listed [OF parse_whitelist(5) v whitelist_texts(2) assms(2) vs(1)] obtain row where
      "row \<in> rows" "vs = [evaluate row (Column ''cid'')]" by (auto simp: whitelist_table_def)
    with vs(2) string show "cid \<in> cids" unfolding c [symmetric] cids_of_def by blast
  next
    assume "cid \<in> cids"
    then obtain row where row: "row \<in> tab_rows (whitelist_table rows)" "row ''cid'' = Some (Text cid)"
      unfolding c [symmetric] cids_of_def by (auto simp: whitelist_table_def)
    from all_listed [OF parse_whitelist(5) v whitelist_texts(2) assms(2,3) row(1)] row(2) string
    show "\<exists>item \<in> set items. case item of Inl e \<Rightarrow> False | Inr r \<Rightarrow> get_string r = Inr cid"
      by (intro bexI [of _ "Inr [evaluate row (Column ''cid'')]"]) (simp_all add: get_string_def)
  qed
  then show ?thesis using assms(2) by (simp add: whitelist_list_def)
qed

end

text \<open>A run of updates, with which of them succeeded.\<close>

fun apply_updates :: "'d rusqlite \<Rightarrow> whitelist_update list \<Rightarrow> 'd \<Rightarrow> (whitelist_update \<times> bool) list \<times> 'd" where
  "apply_updates ops [] db = ([], db)"
| "apply_updates ops (u # us) db =
     (case apply_update ops u db of (res, db') \<Rightarrow>
      case apply_updates ops us db' of (log, db'') \<Rightarrow> ((u, res = Inr ()) # log, db''))"

text \<open>The latest successful update of a CID decides.\<close>

definition decides :: "(whitelist_update \<times> bool) list \<Rightarrow> string \<Rightarrow> whitelist_update \<Rightarrow> bool" where
  "decides log cid u \<longleftrightarrow> (\<exists>before after. log = before @ (u, True) # after \<and> wu_agent_cid u = cid \<and>
     (\<forall>v. (v, True) \<in> set after \<longrightarrow> wu_agent_cid v \<noteq> cid))"

definition approve :: "whitelist_update \<times> bool \<Rightarrow> string set \<Rightarrow> string set" where
  "approve = (\<lambda>(u, ok) s. if ok then case wu_action u of Add \<Rightarrow> insert (wu_agent_cid u) s | Remove \<Rightarrow> s - {wu_agent_cid u} else s)"

definition approved :: "string set \<Rightarrow> (whitelist_update \<times> bool) list \<Rightarrow> string set" where
  "approved s log = fold approve log s"

lemma decides_snoc: "decides (log @ [(u, ok)]) cid v \<longleftrightarrow>
  (if ok \<and> wu_agent_cid u = cid then v = u else decides log cid v)"
proof -
  have "decides (log @ [(u, ok)]) cid v" if "decides log cid v" "\<not> (ok \<and> wu_agent_cid u = cid)"
  proof -
    from that(1) obtain before after where l: "log = before @ (v, True) # after" "wu_agent_cid v = cid"
      "\<forall>w. (w, True) \<in> set after \<longrightarrow> wu_agent_cid w \<noteq> cid" unfolding decides_def by blast
    with that(2) show ?thesis
      unfolding decides_def by (intro exI [of _ before] exI [of _ "after @ [(u, ok)]"]) auto
  qed
  moreover have "decides log cid v" if "decides (log @ [(u, ok)]) cid v" "\<not> (ok \<and> wu_agent_cid u = cid)"
  proof -
    from that(1) obtain before after where l: "log @ [(u, ok)] = before @ (v, True) # after" "wu_agent_cid v = cid"
      "\<forall>w. (w, True) \<in> set after \<longrightarrow> wu_agent_cid w \<noteq> cid" unfolding decides_def by blast
    with that(2) show ?thesis unfolding decides_def by (cases after rule: rev_cases) auto
  qed
  moreover have "decides (log @ [(u, True)]) cid u" if "wu_agent_cid u = cid"
    unfolding decides_def using that by (intro exI [of _ log] exI [of _ "[]"]) simp
  moreover have "v = u" if "decides (log @ [(u, True)]) cid v" "wu_agent_cid u = cid"
  proof -
    from that(1) obtain before after where l: "log @ [(u, True)] = before @ (v, True) # after"
      "\<forall>w. (w, True) \<in> set after \<longrightarrow> wu_agent_cid w \<noteq> cid" unfolding decides_def by blast
    with that(2) show ?thesis by (cases after rule: rev_cases) auto
  qed
  ultimately show ?thesis by auto
qed

lemma approved_iff: "cid \<in> approved s log \<longleftrightarrow>
    (\<exists>u. decides log cid u \<and> wu_action u = Add) \<or> cid \<in> s \<and> (\<forall>u. \<not> decides log cid u)"
proof (induction log rule: rev_induct)
  case Nil
  then show ?case by (simp add: decides_def approved_def)
next
  case (snoc x log)
  then show ?case
    by (cases x; cases "wu_agent_cid (fst x) = cid") (auto simp: approved_def approve_def decides_snoc split: whitelist_action.splits if_splits)
qed

context sqlite
begin

lemma apply_updates_holds:
  "holds db cids \<Longrightarrow> apply_updates ops us db = (log, db') \<Longrightarrow> holds db' (approved cids log)"
proof (induction us arbitrary: db cids log)
  case (Cons u us)
  obtain res db1 where u: "apply_update ops u db = (res, db1)" by fastforce
  with Cons.prems obtain log' where l: "log = (u, res = Inr ()) # log'" and rest: "apply_updates ops us db1 = (log', db')"
    by (auto split: prod.splits)
  from Cons.IH [OF apply_update_holds [OF Cons.prems(1) u] rest] show ?case
    by (simp add: l approved_def approve_def)
qed (simp add: approved_def)

end

definition sample_runtime :: "(nat, nat) runtime" where
  "sample_runtime = \<lparr>rt_engine = Inr (), rt_open = \<lambda>path. Inr 0,
     rt_sql = \<lparr>execute_batch = \<lambda>sql db. (Inr (), db + 1), execute = \<lambda>sql params db. (Inr 0, db),
       query_row = \<lambda>sql params db. Inr [Integer 1000], query_all = \<lambda>sql db. Inr []\<rparr>,
     rt_fuel = \<lambda>fuel. Inr (), rt_link = Inr (), rt_module = \<lambda>wasm. Inr [MemoryImport 4, OtherImport],
     rt_instantiate = \<lambda>tier wasm. Inr 5, rt_exports = \<lambda>i name. True, rt_call = \<lambda>i name. Inr ()\<rparr>"

section \<open>Properties\<close>

text \<open>
  C18: the whitelist is what the updates made of it. Take any database on which SQL texts have their
  documented meaning and in which the table \<open>agent_whitelist\<close>, if it is there already, has the columns
  the whitelist gives it; open the whitelist on it and apply any sequence of updates, some of which may
  fail. Then a CID that is found whitelisted is one whose latest successful update added it, or which
  was in the table before and was not updated since; unless the query itself fails, every such CID is
  found; and unless reading the rows fails, the list is the set of these CIDs. That the statements of
  the source create the table, add, remove, find and list exactly the CIDs is not assumed of them but
  follows from parsing their texts.
\<close>

theorem whitelist_follows_updates:
  assumes "sqlite ops view"
    and "case view db ''agent_whitelist'' of None \<Rightarrow> True | Some tab \<Rightarrow> tab_columns tab = whitelist_columns"
    and "whitelist_new ops db = (Inr (), db0)" and "apply_updates ops us db0 = (log, db')"
    and before: "before = (case view db ''agent_whitelist'' of None \<Rightarrow> {} | Some tab \<Rightarrow> cids_of (tab_rows tab))"
  shows "(is_whitelisted ops cid db' \<longrightarrow>
      (\<exists>u. decides log cid u \<and> wu_action u = Add) \<or> cid \<in> before \<and> (\<forall>u. \<not> decides log cid u)) \<and>
    ((\<forall>e. query_row ops SELECT_CID [cid] db' = Inl e \<longrightarrow> e = NoRows) \<longrightarrow>
      (is_whitelisted ops cid db' \<longleftrightarrow>
        (\<exists>u. decides log cid u \<and> wu_action u = Add) \<or> cid \<in> before \<and> (\<forall>u. \<not> decides log cid u))) \<and>
    (\<forall>items. query_all ops SELECT_ALL db' = Inr items \<and> list_all (\<lambda>item. \<not> isl item) items \<longrightarrow>
      whitelist_list ops db' = Inr {cid. (\<exists>u. decides log cid u \<and> wu_action u = Add) \<or>
        cid \<in> before \<and> (\<forall>u. \<not> decides log cid u)})"
proof -
  have "sqlite.holds view db0 before"
  proof (cases "view db ''agent_whitelist''")
    case None
    with sqlite.whitelist_new_holds(1) [OF assms(1), OF assms(3)] before show ?thesis by simp
  next
    case (Some tab)
    then have "sqlite.holds view db before"
      using assms(2) before unfolding sqlite.holds_def [OF assms(1)]
      by (intro exI [of _ "tab_rows tab"]) (simp add: whitelist_table_def)
    with sqlite.whitelist_new_holds(2) [OF assms(1), OF assms(3)] show ?thesis by simp
  qed
  then have holds: "sqlite.holds view db' (approved before log)" using assms(4) by (rule sqlite.apply_updates_holds [OF assms(1)])
  let ?now = "\<lambda>cid. (\<exists>u. decides log cid u \<and> wu_action u = Add) \<or> cid \<in> before \<and> (\<forall>u. \<not> decides log cid u)"
  have approved: "approved before log = {cid. ?now cid}"
    using approved_iff [of _ before log] by blast
  have only: "?now cid" if "is_whitelisted ops cid db'"
    using sqlite.whitelisted_holds(1) [OF assms(1) holds that] unfolding approved by simp
  have found: "is_whitelisted ops cid db'"
    if "\<forall>e. query_row ops SELECT_CID [cid] db' = Inl e \<longrightarrow> e = NoRows" "?now cid"
    by (rule sqlite.whitelisted_holds(2) [OF assms(1) holds]) (use that approved in simp_all)
  have listed: "whitelist_list ops db' = Inr {cid. ?now cid}"
    if "query_all ops SELECT_ALL db' = Inr items \<and> list_all (\<lambda>item. \<not> isl item) items" for items
    using sqlite.listed_holds [OF assms(1) holds conjunct1 [OF that] conjunct2 [OF that]] unfolding approved .
  show ?thesis
    by (intro conjI impI allI iffI) (erule only, erule only, erule (1) found, erule listed)
qed

theorem whitelist_follows_updates_witness:
  "\<exists>db0 log db'. whitelist_new memory_ops Map.empty = (Inr (), db0) \<and>
     apply_updates memory_ops
       [\<lparr>wu_action = Add, wu_agent_cid = ''a'', wu_agent_type = ''x'', wu_governance_cid = ''g''\<rparr>,
        \<lparr>wu_action = Add, wu_agent_cid = ''b'', wu_agent_type = ''x'', wu_governance_cid = ''other''\<rparr>,
        \<lparr>wu_action = Remove, wu_agent_cid = ''a'', wu_agent_type = ''x'', wu_governance_cid = ''g''\<rparr>] db0 = (log, db') \<and>
     is_whitelisted memory_ops ''b'' db' \<and> \<not> is_whitelisted memory_ops ''a'' db' \<and>
     (\<exists>u. decides log ''b'' u \<and> wu_action u = Add)"
proof -
  let ?us = "[\<lparr>wu_action = Add, wu_agent_cid = ''a'', wu_agent_type = ''x'', wu_governance_cid = ''g''\<rparr>,
        \<lparr>wu_action = Add, wu_agent_cid = ''b'', wu_agent_type = ''x'', wu_governance_cid = ''other''\<rparr>,
        \<lparr>wu_action = Remove, wu_agent_cid = ''a'', wu_agent_type = ''x'', wu_governance_cid = ''g''\<rparr>]"
  have new: "fst (whitelist_new memory_ops Map.empty) = Inr ()"
    by (simp add: whitelist_new_def memory_ops_def memory_batch_def parse_whitelist)
  then obtain db0 where new: "whitelist_new memory_ops Map.empty = (Inr (), db0)" by (cases "whitelist_new memory_ops Map.empty") auto
  then have db0: "db0 = Map.empty(''agent_whitelist'' \<mapsto> (whitelist_columns, []))"
    by (auto simp: whitelist_new_def memory_ops_def memory_batch_def parse_whitelist)
  obtain log db' where l: "apply_updates memory_ops ?us db0 = (log, db')" by fastforce
  have "is_whitelisted memory_ops ''b'' db' \<and> \<not> is_whitelisted memory_ops ''a'' db'"
    using l unfolding db0
    by (auto simp: apply_update_def discard_count_def is_whitelisted_def memory_ops_def memory_execute_def memory_select_def
        parse_whitelist whitelist_columns_def collide_def meets_def value_of_def Let_def)
  moreover have none: "memory_view Map.empty ''agent_whitelist'' = None" by (simp add: memory_view_def)
  then have "case memory_view Map.empty ''agent_whitelist'' of None \<Rightarrow> True | Some tab \<Rightarrow> tab_columns tab = whitelist_columns"
    by simp
  note whitelist_follows_updates [OF memory.sqlite_axioms this new l refl, of "''b''", unfolded none option.case, THEN conjunct1]
  ultimately show ?thesis using new l by blast
qed

text \<open>
  the health check, exactly, for an agent whose latest heartbeat is stamped \<open>ts\<close>: it is healthy if
  and only if the stamp is not older than the interval. There is no upper bound, so a stamp from the
  future, which the agent can write itself, keeps it healthy for ever; a stamp of the distant past
  overflows: a panic with overflow checks and a healthy agent without.
\<close>

theorem check_health_exact:
  assumes "query_row ops ''SELECT MAX(timestamp) FROM _health'' [] db = Inr (Integer ts # row)" and "0 \<le> sint now"
  shows "check_health oc ops now interval db =
    (if sint now - sint ts < 2 ^ 63 then Ok (sint now - sint ts \<le> sint interval)
     else if oc then Panic else Ok (sint now - sint ts - 2 ^ 64 \<le> sint interval))"
proof -
  have ts: "- (2 ^ 63) \<le> sint ts" "sint ts < 2 ^ 63" "sint now < 2 ^ 63"
    using sint_ge [of ts] sint_lt [of ts] sint_lt [of now] by simp_all
  have sub: "sint (now - ts) = (if sint now - sint ts < 2 ^ 63 then sint now - sint ts else sint now - sint ts - 2 ^ 64)"
  proof -
    let ?d = "sint now - sint ts"
    have "sint (now - ts) = (?d + 2 ^ 63) mod 2 ^ 64 - 2 ^ 63"
      by (simp add: sint_word_ariths signed_take_bit_eq_take_bit_shift take_bit_eq_mod)
    moreover have "(?d + 2 ^ 63) mod 2 ^ 64 = ?d + 2 ^ 63" if "?d < 2 ^ 63"
      using that ts assms(2) by (intro mod_pos_pos_trivial) simp_all
    moreover have "(?d + 2 ^ 63) mod 2 ^ 64 = ?d + 2 ^ 63 - 2 ^ 64" if "\<not> ?d < 2 ^ 63"
    proof -
      have "(?d + 2 ^ 63) mod 2 ^ 64 = (?d + 2 ^ 63 - 2 ^ 64) mod 2 ^ 64"
        by (rule minus_mod_self2 [symmetric])
      also have "\<dots> = ?d + 2 ^ 63 - 2 ^ 64" using that ts assms(2) by (intro mod_pos_pos_trivial) simp_all
      finally show ?thesis .
    qed
    ultimately show ?thesis by simp
  qed
  show ?thesis
    using assms ts by (auto simp: check_health_def get_i64_def sub_i64_def sub)
qed

theorem check_health_exact_witness:
  "check_health True (rt_sql sample_runtime) 10 30 0 = (Ok True :: (sql_error, bool) outcome)"
proof -
  have "query_row (rt_sql sample_runtime) ''SELECT MAX(timestamp) FROM _health'' [] 0 = Inr (Integer 1000 # [])"
    by (simp add: sample_runtime_def)
  from check_health_exact [OF this, of 10 True 30] show ?thesis by simp
qed

text \<open>
  loading grants what the caller passes, not what the manifest asks for or the tier deserves. A
  loaded agent runs with exactly the given permissions and the configured fuel on a fresh state, its
  database is the file the CID of its manifest names below the directory (or anywhere, for a CID that
  starts with a slash), it is linked by the tier its manifest claims and imports no memory above the limit; whatever it then does
  on the host, without a storage capability or outside tier 1 its 64 KiB buffer stays zero, and its
  permissions are still those given.
\<close>

theorem loaded_agent_confined:
  assumes "load_agent rt wasm manifest permissions db_dir config = Ok agent"
    and "(agent_step env oc (manifest_tier manifest))\<^sup>*\<^sup>* (inst_state agent) hs"
  shows "inst_manifest agent = manifest \<and> hs_permissions hs = permissions \<and> hs_config hs = Map.empty \<and>
    inst_db_path agent = path_join db_dir (manifest_cid manifest @ ''.sqlite'') \<and>
    store_fuel (inst_store agent) = fuel_limit (case config of None \<Rightarrow> default_sandbox_config | Some c \<Rightarrow> c) \<and>
    (\<exists>imps. rt_module rt wasm = Inr imps \<and>
      (\<forall>n. MemoryImport n \<in> set imps \<longrightarrow>
        n \<le> of_nat (max_memory_bytes (case config of None \<Rightarrow> default_sandbox_config | Some c \<Rightarrow> c) div 65536))) \<and>
    ({StorageRead, StorageWrite} \<inter> capabilities permissions = {} \<or> manifest_tier manifest \<noteq> 1 \<longrightarrow>
      hs_shared_buffer hs = replicate (64 * 1024) 0)"
proof -
  have limits: "check_memory_limits c imps = Ok () \<Longrightarrow> MemoryImport n \<in> set imps \<Longrightarrow>
      n \<le> of_nat (max_memory_bytes c div 65536)" for c imps n
    by (induction c imps rule: check_memory_limits.induct) (auto simp: Let_def split: if_splits)
  have mok: "map_err Sandbox r = Ok v \<longleftrightarrow> r = Ok v" for r :: "(sandbox_error, 'z) outcome" and v
    by (cases r) auto
  let ?c = "case config of None \<Rightarrow> default_sandbox_config | Some c \<Rightarrow> c"
  obtain sandbox db0 where "map_err Sandbox (sandbox_new rt ?c) = Ok sandbox"
    and load: "(case create_observability_tables (rt_sql rt) db0 of (Inl e, db) \<Rightarrow> Err (Database e)
        | (Inr _, db) \<Rightarrow>
            obind (map_err Sandbox (create_store rt sandbox (host_state_new db permissions))) (\<lambda>store.
            obind (or_else WasmError (rt_link rt)) (\<lambda>linker.
            obind (map_err Sandbox (instantiate_module rt sandbox (manifest_tier manifest) wasm)) (\<lambda>inst.
            Ok \<lparr>inst_manifest = manifest, inst_store = store, inst_instance = inst,
                inst_db_path = path_join db_dir (manifest_cid manifest @ ''.sqlite'')\<rparr>)))) = Ok agent"
    using assms(1) by (auto simp only: load_agent_def obind_eq_Ok Let_def)
  then have sb: "sandbox_config sandbox = ?c" by (auto simp: mok sandbox_new_def)
  from load obtain db where a: "obind (map_err Sandbox (create_store rt sandbox (host_state_new db permissions))) (\<lambda>store.
            obind (or_else WasmError (rt_link rt)) (\<lambda>linker.
            obind (map_err Sandbox (instantiate_module rt sandbox (manifest_tier manifest) wasm)) (\<lambda>inst.
            Ok \<lparr>inst_manifest = manifest, inst_store = store, inst_instance = inst,
                inst_db_path = path_join db_dir (manifest_cid manifest @ ''.sqlite'')\<rparr>))) = Ok agent"
    by (auto simp del: obind_eq_Ok split: prod.splits sum.splits)
  obtain imps where st: "inst_state agent = host_state_new db permissions"
    and m: "inst_manifest agent = manifest" "inst_db_path agent = path_join db_dir (manifest_cid manifest @ ''.sqlite'')"
      "store_fuel (inst_store agent) = fuel_limit ?c"
    and i: "rt_module rt wasm = Inr imps" "check_memory_limits ?c imps = Ok ()"
    using a unfolding create_store_def instantiate_module_def sb by (auto simp: mok)
  have "hs_permissions hs = permissions \<and> hs_config hs = Map.empty \<and>
    ({StorageRead, StorageWrite} \<inter> capabilities permissions = {} \<or> manifest_tier manifest \<noteq> 1 \<longrightarrow>
      hs_shared_buffer hs = replicate (64 * 1024) 0)"
    using assms(2) unfolding st
  proof (induction rule: rtranclp_induct)
    case base
    show ?case by (simp add: host_state_new_def)
  next
    case (step y z)
    note f = agent_step_frame [OF step.hyps(2)]
    show ?case using step.IH f(1,2,6) by metis
  qed
  with i m limits [OF i(2)] show ?thesis by blast
qed

theorem loaded_agent_confined_witness:
  "\<exists>agent :: (nat, unit, nat) agent_instance.
     load_agent sample_runtime [] \<lparr>manifest_cid = ''c'', manifest_name = ''n'', manifest_version = ''1'',
       required_capabilities = [StorageWrite], manifest_tier = 1\<rparr> (permissions_new []) ''dir'' None = Ok agent \<and>
     hs_permissions (inst_state agent) = permissions_new [] \<and> inst_db_path agent = ''dir/c.sqlite''"
proof -
  let ?m = "\<lparr>manifest_cid = ''c'', manifest_name = ''n'', manifest_version = ''1'',
       required_capabilities = [StorageWrite], manifest_tier = 1\<rparr>"
  obtain agent :: "(nat, unit, nat) agent_instance" where
    l: "load_agent sample_runtime [] ?m (permissions_new []) ''dir'' None = Ok agent"
    by (simp add: load_agent_def sandbox_new_def create_store_def create_observability_tables_def
        instantiate_module_def sample_runtime_def default_sandbox_config_def)
  from loaded_agent_confined [OF this rtranclp.rtrancl_refl] show ?thesis
    using l by (intro exI [of _ agent]) (simp add: path_join_def)
qed

end
