(* ===== verification/Testing.thy ===== *)
theory Testing
  imports Prelude
begin

text \<open>
  What the unit tests of all crates share. A test is a definition that says whether it passes; the tests
  themselves are in \<open>Erasure_Tests\<close>, \<open>Content_Tests\<close>, \<open>Ledger_Tests\<close>, \<open>Network_Tests\<close>
  and \<open>Node_Tests\<close>.
\<close>

section \<open>Reading a test\<close>

text \<open>\<open>r.unwrap()\<close>, then the rest of the test.\<close>

definition tested :: "('e, 'a) outcome \<Rightarrow> ('a \<Rightarrow> bool) \<Rightarrow> bool" where
  "tested r rest = (case r of Ok x \<Rightarrow> rest x | _ \<Rightarrow> False)"

lemma tested_simps [simp]:
  "tested (Ok x) rest = rest x" "tested (Err e) rest = False" "tested Panic rest = False"
  by (simp_all add: tested_def)

text \<open>The 32 bytes \<open>[b; 32]\<close>.\<close>

definition filled :: "u8 \<Rightarrow> key32" where
  "filled b = of_key_bytes (replicate 32 b)"

lemma key_bytes_filled [simp]: "key_bytes (filled b) = replicate 32 b"
  by (simp add: filled_def key.enc_dec)

lemma filled_inject [simp]: "filled a = filled b \<longleftrightarrow> a = b"
  by (simp add: filled_def key.dec_inject)

end
