(* ===== verification/Erasure_Tests.thy ===== *)
theory Erasure_Tests
  imports Selections Testing
begin

text \<open>
  The unit tests of \<open>crates/erasure\<close> on the model: each is a definition that says whether the test
  passes. A result of the code that the test unwraps is \<open>tested\<close>; the bytes a generator draws, the
  hash function and the JSON codec are arguments. Tests that draw no coded pieces pass outright; for the others the
  lemmas say for which draws they pass, which shows some of them to fail now and then.
\<close>

text \<open>\<open>(0..n).map(|i| (i % 256) as u8).collect()\<close>\<close>

definition counting :: "nat \<Rightarrow> bytes" where
  "counting n = map (\<lambda>i. of_nat (i mod 256)) [0..<n]"

lemma length_counting [simp]: "length (counting n) = n"
  by (simp add: counting_def)

section \<open>Tests of gf256.rs\<close>

definition test_add_is_xor :: bool where
  "test_add_is_xor \<longleftrightarrow> gf_add 0x53 0xCA = 0x53 XOR 0xCA \<and> gf_add 0 0xFF = 0xFF \<and> gf_add 0xFF 0xFF = 0"

definition test_mul_identity :: bool where
  "test_mul_identity \<longleftrightarrow> list_all (\<lambda>n. let i = of_nat n in gf_mul i 1 = i \<and> gf_mul 1 i = i) [0..<256]"

definition test_mul_zero :: bool where
  "test_mul_zero \<longleftrightarrow> list_all (\<lambda>n. let i = of_nat n in gf_mul i 0 = 0 \<and> gf_mul 0 i = 0) [0..<256]"

definition test_mul_commutative :: bool where
  "test_mul_commutative \<longleftrightarrow>
     list_all (\<lambda>a. list_all (\<lambda>b. gf_mul (of_nat a) (of_nat b) = gf_mul (of_nat b) (of_nat a)) [1..<51]) [1..<51]"

definition test_inverse :: bool where
  "test_inverse \<longleftrightarrow> gf_inv 0 = None \<and>
     list_all (\<lambda>n. let i = of_nat n in case gf_inv i of None \<Rightarrow> False | Some b \<Rightarrow> gf_mul i b = 1) [1..<256]"

definition test_mul_associative :: bool where
  "test_mul_associative \<longleftrightarrow>
     (let a = 0x53; b = 0xCA; c = 0x7B in gf_mul (gf_mul a b) c = gf_mul a (gf_mul b c))"

definition test_distributive :: bool where
  "test_distributive \<longleftrightarrow>
     (let a = 0x53; b = 0xCA; c = 0x7B in gf_mul a (gf_add b c) = gf_add (gf_mul a b) (gf_mul a c))"

lemma of_nat_u8_nonzero: "n \<in> set [1..<256] \<Longrightarrow> (of_nat n :: u8) \<noteq> 0"
  by (auto simp: word_of_nat_eq_0_iff dest: nat_dvd_not_less)

lemma gf256_tests_pass:
  "test_add_is_xor" "test_mul_identity" "test_mul_zero" "test_mul_commutative" "test_inverse"
  "test_mul_associative" "test_distributive"
proof -
  show test_inverse
    unfolding test_inverse_def list_all_iff Let_def
    using of_nat_u8_nonzero gf_inv_Some by (fastforce split: option.split)
qed (simp_all add: test_add_is_xor_def gf_add_def test_mul_identity_def test_mul_zero_def test_mul_commutative_def
    test_mul_associative_def test_distributive_def list_all_iff gf_mul_commute gf_mul_assoc gf_mul_xor Let_def
    del: upt_Suc upt_rec_numeral)

section \<open>Tests of lib.rs: source pieces, rank, repair\<close>

definition test_erasure_config_default :: bool where
  "test_erasure_config_default \<longleftrightarrow>
     (let config = default_config in
      cfg_piece_size config = 262144 \<and> cfg_segment_size config = 10485760 \<and> cfg_initial_parity config = 20 \<and>
      tested (config_k config) (\<lambda>k. k = 40))"

definition test_erasure_config_serde ::
  "(erasure_config \<Rightarrow> ('e, bytes) outcome) \<Rightarrow> (bytes \<Rightarrow> ('e, erasure_config) outcome) \<Rightarrow> bool" where
  "test_erasure_config_serde to_string from_str \<longleftrightarrow>
     (let config = \<lparr>cfg_piece_size = 1024, cfg_segment_size = 10240, cfg_initial_parity = 20\<rparr>
      in tested (to_string config) (\<lambda>json. tested (from_str json) (\<lambda>parsed. parsed = config)))"

definition test_encode_decode_small :: bool where
  "test_encode_decode_small \<longleftrightarrow>
     (let data = map of_char ''Hello, Craftec RLNC!''; piece_size = 8 in
      tested (encoder_new data piece_size) (\<lambda>encoder.
        let k = encoder_k encoder; pieces = source_pieces encoder; decoder = decoder_new k piece_size (length data)
        in length pieces = k \<and> tested (decode decoder pieces) (\<lambda>decoded. decoded = data)))"

definition test_single_piece_k1 :: bool where
  "test_single_piece_k1 \<longleftrightarrow>
     (let data = map of_char ''tiny''; piece_size = 100 in
      tested (encoder_new data piece_size) (\<lambda>encoder. encoder_k encoder = 1 \<and>
        (let pieces = source_pieces encoder; decoder = decoder_new 1 piece_size (length data)
         in tested (decode decoder pieces) (\<lambda>decoded. decoded = data))))"

definition test_piece_size_not_dividing_evenly :: bool where
  "test_piece_size_not_dividing_evenly \<longleftrightarrow>
     (let data = counting 250; piece_size = 100 in
      tested (encoder_new data piece_size) (\<lambda>encoder. encoder_k encoder = 3 \<and>
        (let pieces = source_pieces encoder; decoder = decoder_new 3 piece_size (length data)
         in tested (decode decoder pieces) (\<lambda>decoded. decoded = data))))"

definition test_insufficient_pieces :: bool where
  "test_insufficient_pieces \<longleftrightarrow>
     (let data = counting 500; piece_size = 100 in
      tested (encoder_new data piece_size) (\<lambda>encoder.
        let source = source_pieces encoder; decoder = decoder_new 5 piece_size (length data);
            result = decode decoder (take 3 source)
        in result = Err (InsufficientPieces 3 5)))"

definition test_empty_data_error :: bool where
  "test_empty_data_error \<longleftrightarrow> (let result = encoder_new [] 100 in result = Err EmptyData)"

definition test_check_independence_full_rank :: bool where
  "test_check_independence_full_rank \<longleftrightarrow>
     (let data = counting 500; piece_size = 100 in
      tested (encoder_new data piece_size) (\<lambda>encoder.
        let source = source_pieces encoder; vecs = map coefficients source
        in check_independence vecs = (Ok 5 :: nat er)))"

definition test_check_independence_dependent :: bool where
  "test_check_independence_dependent \<longleftrightarrow>
     (let v1 = [1, 0, 0]; v2 = [0, 1, 0]; v3 = [1, 1, 0] in check_independence [v1, v2, v3] = (Ok 2 :: nat er))"

definition test_check_independence_empty :: bool where
  "test_check_independence_empty \<longleftrightarrow> check_independence [] = (Ok 0 :: nat er)"

definition test_generate_orthogonal_vector_rank_less_than_k :: bool where
  "test_generate_orthogonal_vector_rank_less_than_k \<longleftrightarrow>
     (let existing = [[1, 0, 0, 0], [0, 1, 0, 0]] in
      tested (generate_orthogonal_vector existing 4 0) (\<lambda>result.
        length result = 4 \<and> check_independence (existing @ [result]) = (Ok 3 :: nat er)))"

definition test_generate_orthogonal_vector_full_rank :: bool where
  "test_generate_orthogonal_vector_full_rank \<longleftrightarrow>
     (let existing = [[1, 0, 0], [0, 1, 0], [0, 0, 1]] in generate_orthogonal_vector existing 3 0 = Err ())"

text \<open>The body of the loop of \<open>test_generate_orthogonal_sequential\<close> from round \<open>i\<close> on, then its end.\<close>

fun sequential_rounds :: "nat \<Rightarrow> nat list \<Rightarrow> bytes list \<Rightarrow> bool" where
  "sequential_rounds k [] existing \<longleftrightarrow> generate_orthogonal_vector existing k 0 = Err ()"
| "sequential_rounds k (i # is) existing \<longleftrightarrow>
     tested (generate_orthogonal_vector existing k 0) (\<lambda>v. length v = k \<and>
       (let existing = existing @ [v]
        in check_independence existing = (Ok (i + 1) :: nat er) \<and> sequential_rounds k is existing))"

definition test_generate_orthogonal_sequential :: bool where
  "test_generate_orthogonal_sequential \<longleftrightarrow> (let k = 5 in sequential_rounds k [0..<k] [])"

definition test_generate_orthogonal_empty_existing :: bool where
  "test_generate_orthogonal_empty_existing \<longleftrightarrow>
     tested (generate_orthogonal_vector [] 3 0) (\<lambda>v. length v = 3 \<and> check_independence [v] = (Ok 1 :: nat er))"

definition test_generate_orthogonal_k1 :: bool where
  "test_generate_orthogonal_k1 \<longleftrightarrow>
     tested (generate_orthogonal_vector [] 1 0) (\<lambda>v. v = [1]) \<and> generate_orthogonal_vector [[1]] 1 0 = Err ()"

definition test_generate_orthogonal_k2 :: bool where
  "test_generate_orthogonal_k2 \<longleftrightarrow>
     (let existing = [[1, 1]] in
      tested (generate_orthogonal_vector existing 2 0) (\<lambda>v. check_independence (existing @ [v]) = (Ok 2 :: nat er)))"

definition test_orthogonal_offset_targets_different_columns :: bool where
  "test_orthogonal_offset_targets_different_columns \<longleftrightarrow>
     (let existing = [[1, 0, 0, 0, 0], [0, 1, 0, 0, 0]]; k = 5 in
      tested (generate_orthogonal_vector existing k 0) (\<lambda>v0.
      tested (generate_orthogonal_vector existing k 1) (\<lambda>v1.
      tested (generate_orthogonal_vector existing k 2) (\<lambda>v2.
        v0 \<noteq> v1 \<and> v1 \<noteq> v2 \<and> v0 \<noteq> v2 \<and>
        check_independence (existing @ [v0, v1, v2]) = (Ok 5 :: nat er) \<and>
        tested (generate_orthogonal_vector existing k 3) (\<lambda>v3. v3 = v0)))))"

definition test_create_orthogonal_piece_insufficient_local :: bool where
  "test_create_orthogonal_piece_insufficient_local \<longleftrightarrow>
     (let k = 3; local = [\<lparr>piece_data = replicate 10 0, coefficients = [1, 0, 0]\<rparr>]; existing = [[1, 0, 0]]
      in create_orthogonal_piece local existing k 0 = Err ())"

lemma config_tests_pass:
  "test_erasure_config_default"
  "(\<And>c. from_str (to_string c) = Ok c) \<Longrightarrow> test_erasure_config_serde (\<lambda>c. Ok (to_string c)) from_str"
  by (simp_all add: test_erasure_config_default_def default_config_def config_k_def DEFAULT_PIECE_SIZE_def
      DEFAULT_SEGMENT_SIZE_def DEFAULT_INITIAL_PARITY_def test_erasure_config_serde_def Let_def)

lemma empty_data_error_passes: "test_empty_data_error"
  by code_simp

lemma check_independence_dependent_passes: "test_check_independence_dependent"
  by code_simp

lemma check_independence_empty_passes: "test_check_independence_empty"
  by code_simp

lemma generate_orthogonal_vector_rank_less_than_k_passes: "test_generate_orthogonal_vector_rank_less_than_k"
  by code_simp

lemma generate_orthogonal_vector_full_rank_passes: "test_generate_orthogonal_vector_full_rank"
  by code_simp

lemma generate_orthogonal_sequential_passes: "test_generate_orthogonal_sequential"
  by code_simp

lemma generate_orthogonal_empty_existing_passes: "test_generate_orthogonal_empty_existing"
  by code_simp

lemma generate_orthogonal_k1_passes: "test_generate_orthogonal_k1"
  by code_simp

lemma generate_orthogonal_k2_passes: "test_generate_orthogonal_k2"
  by code_simp

lemma orthogonal_offset_targets_different_columns_passes: "test_orthogonal_offset_targets_different_columns"
  by code_simp

lemma create_orthogonal_piece_insufficient_local_passes: "test_create_orthogonal_piece_insufficient_local"
  by code_simp

lemmas vector_tests_pass =
  empty_data_error_passes
  check_independence_dependent_passes
  check_independence_empty_passes
  generate_orthogonal_vector_rank_less_than_k_passes
  generate_orthogonal_vector_full_rank_passes
  generate_orthogonal_sequential_passes
  generate_orthogonal_empty_existing_passes
  generate_orthogonal_k1_passes
  generate_orthogonal_k2_passes
  orthogonal_offset_targets_different_columns_passes
  create_orthogonal_piece_insufficient_local_passes

lemma encoder_of_data:
  assumes "data \<noteq> []" and "0 < m"
  obtains e where "encoder_new data m = Ok e" and "encoder_k e = div_ceil (length data) m"
  using assms div_ceil_pos [of "length data" m] by (auto simp: encoder_new_def encoder_k_def Let_def)

lemma counting_nonempty [simp]: "counting n \<noteq> [] \<longleftrightarrow> 0 < n"
  by (metis length_counting length_greater_0_conv)

lemma source_pieces_decode:
  assumes "encoder_new data m = Ok e"
  shows "decode (decoder_new (encoder_k e) m (length data)) (source_pieces e) = Ok data"
  using assms source_pieces_decodable by (rule decodable_decodes)

lemma source_tests_pass:
  "test_encode_decode_small" "test_single_piece_k1" "test_piece_size_not_dividing_evenly"
  "test_insufficient_pieces" "test_check_independence_full_rank"
proof -
  obtain e where e: "encoder_new (map of_char ''Hello, Craftec RLNC!'') 8 = Ok e"
    by (rule encoder_of_data [of "map of_char ''Hello, Craftec RLNC!''" 8]) simp_all
  then show test_encode_decode_small
    using source_pieces_decode [OF e] by (simp add: test_encode_decode_small_def Let_def)
  obtain e where e: "encoder_new (map of_char ''tiny'') 100 = Ok e" "encoder_k e = 1"
    by (rule encoder_of_data [of "map of_char ''tiny''" 100]) (simp_all add: div_ceil_def)
  then show test_single_piece_k1
    using source_pieces_decode [OF e(1)] by (simp add: test_single_piece_k1_def Let_def)
  obtain e where e: "encoder_new (counting 250) 100 = Ok e" "encoder_k e = 3"
    by (rule encoder_of_data [of "counting 250" 100]) (simp_all add: div_ceil_def)
  then show test_piece_size_not_dividing_evenly
    using source_pieces_decode [OF e(1)] by (simp add: test_piece_size_not_dividing_evenly_def Let_def)
  obtain e where e: "encoder_new (counting 500) 100 = Ok e" "encoder_k e = 5"
    by (rule encoder_of_data [of "counting 500" 100]) (simp_all add: div_ceil_def)
  then show test_insufficient_pieces
    by (simp add: test_insufficient_pieces_def Let_def decode_def decoder_new_def)
  have "map coefficients (source_pieces e) = map (unit_row 5) [0..<5]"
    using e(2) by (intro nth_equalityI) simp_all
  moreover have "check_independence (map (unit_row 5) [0..<5]) = (Ok 5 :: nat er)"
    by code_simp
  ultimately show test_check_independence_full_rank
    using e(1) by (simp add: test_check_independence_full_rank_def Let_def del: upt_Suc upt_rec_numeral)
qed

section \<open>Tests of lib.rs that draw random bytes\<close>

text \<open>
  \<open>rng\<close> is what the generator draws in the test. A recombination that never returns does not pass.
\<close>

definition test_encode_decode_with_coded_pieces :: "rng \<Rightarrow> bool" where
  "test_encode_decode_with_coded_pieces rng \<longleftrightarrow>
     (let data = counting 500; piece_size = 100 in
      tested (encoder_new data piece_size) (\<lambda>encoder.
        let k = encoder_k encoder; coded = generate_coded_pieces encoder rng (k + 5);
            decoder = decoder_new k piece_size (length data)
        in tested (decode decoder (take k coded)) (\<lambda>decoded. decoded = data)))"

definition test_encode_decode_mixed_pieces :: "rng \<Rightarrow> bool" where
  "test_encode_decode_mixed_pieces rng \<longleftrightarrow>
     (let data = counting 1000; piece_size = 200 in
      tested (encoder_new data piece_size) (\<lambda>encoder.
        let k = encoder_k encoder; all = encode encoder rng 3 in length all = 8 \<and>
        (let selection = [all ! 1, all ! 3, all ! 4, all ! 5, all ! 6]; decoder = decoder_new k piece_size (length data)
         in tested (decode decoder selection) (\<lambda>decoded. decoded = data))))"

definition test_large_k_roundtrip :: "rng \<Rightarrow> bool" where
  "test_large_k_roundtrip rng \<longleftrightarrow>
     (let data = counting 10000; piece_size = 100 in
      tested (encoder_new data piece_size) (\<lambda>encoder.
        let k = encoder_k encoder in k = 100 \<and>
        (let coded = generate_coded_pieces encoder rng k; decoder = decoder_new k piece_size (length data)
         in tested (decode decoder coded) (\<lambda>decoded. decoded = data))))"

definition test_create_piece_from_existing :: "rng \<Rightarrow> bool" where
  "test_create_piece_from_existing rng \<longleftrightarrow>
     (let data = counting 300; piece_size = 100 in
      tested (encoder_new data piece_size) (\<lambda>encoder.
        let k = encoder_k encoder; source = source_pieces encoder in
        case create_piece_from_existing rng (take 2 source) of None \<Rightarrow> False
        | Some result \<Rightarrow> tested result (\<lambda>combined.
            length (coefficients combined) = k \<and> length (piece_data combined) = piece_size \<and>
            (let pieces_for_decode = [source ! 0, source ! 2, combined]; decoder = decoder_new k piece_size (length data)
             in tested (decode decoder pieces_for_decode) (\<lambda>decoded. decoded = data)))))"

definition test_create_piece_from_three_existing :: "rng \<Rightarrow> bool" where
  "test_create_piece_from_three_existing rng \<longleftrightarrow>
     (let data = counting 400; piece_size = 100 in
      tested (encoder_new data piece_size) (\<lambda>encoder.
        let k = encoder_k encoder; source = source_pieces encoder in
        case create_piece_from_existing rng (take 3 source) of None \<Rightarrow> False
        | Some result \<Rightarrow> tested result (\<lambda>combined.
            let pieces_for_decode = [combined, source ! 1, source ! 2, source ! 3];
                decoder = decoder_new k piece_size (length data)
            in tested (decode decoder pieces_for_decode) (\<lambda>decoded. decoded = data))))"

definition test_create_orthogonal_piece :: bool where
  "test_create_orthogonal_piece \<longleftrightarrow>
     (let data = counting 500; piece_size = 100 in
      tested (encoder_new data piece_size) (\<lambda>encoder.
        let k = encoder_k encoder; source = source_pieces encoder; local = [source ! 0, source ! 1, source ! 2];
            existing_coeffs = [coefficients (source ! 0), coefficients (source ! 1)]
        in tested (create_orthogonal_piece local existing_coeffs k 0) (\<lambda>new_piece.
          length (coefficients new_piece) = k \<and> length (piece_data new_piece) = piece_size \<and>
          check_independence (existing_coeffs @ [coefficients new_piece]) = (Ok 3 :: nat er) \<and>
          (let pieces_for_decode = [source ! 0, source ! 1, new_piece, source ! 3, source ! 4];
               decoder = decoder_new k piece_size (length data)
           in tested (decode decoder pieces_for_decode) (\<lambda>decoded. decoded = data)))))"

text \<open>What \<open>bench_decode_speed\<close> asserts of segment \<open>seg\<close>; it also prints times.\<close>

definition bench_data :: "nat \<Rightarrow> nat \<Rightarrow> bytes" where
  "bench_data seg segment_size = map (\<lambda>i. of_nat ((i + seg * 7) mod 256)) [0..<segment_size]"

lemma length_bench_data [simp]: "length (bench_data seg n) = n"
  by (simp add: bench_data_def)

definition bench_segment :: "nat \<Rightarrow> rng \<Rightarrow> bool" where
  "bench_segment seg rng \<longleftrightarrow>
     (let k = 40; piece_size = 262144; segment_size = k * piece_size;
          data = bench_data seg segment_size
      in tested (encoder_new data piece_size) (\<lambda>encoder.
        let coded = generate_coded_pieces encoder rng k; decoder = decoder_new k piece_size (length data)
        in tested (decode decoder coded) (\<lambda>decoded. decoded = data)))"

definition bench_decode_speed :: "(nat \<Rightarrow> rng) \<Rightarrow> bool" where
  "bench_decode_speed rngs \<longleftrightarrow> (let num_segments = 10 in list_all (\<lambda>seg. bench_segment seg (rngs seg)) [0..<num_segments])"

text \<open>The first \<open>k\<close> coded pieces decode if the vectors the generator draws for them leave no orthogonal vector.\<close>

definition drawn_rows :: "nat \<Rightarrow> rng \<Rightarrow> bytes list" where
  "drawn_rows k rng = map (\<lambda>j. map (\<lambda>i. rng (j * k + i)) [0..<k]) [0..<k]"

lemma coded_pieces_decode:
  assumes e: "encoder_new data m = Ok e" and "n \<ge> encoder_k e"
  shows "tested (decode (decoder_new (encoder_k e) m (length data)) (take (encoder_k e) (generate_coded_pieces e rng n)))
      (\<lambda>decoded. decoded = data) \<longleftrightarrow> \<not> (\<exists>x. orthogonal_to_all (encoder_k e) (drawn_rows (encoder_k e) rng) x)"
proof -
  let ?ps = "take (encoder_k e) (generate_coded_pieces e rng n)"
  have "\<forall>p \<in> set ?ps. circulating e p"
    using circulating_coded by (auto dest: in_set_takeD)
  moreover have "length ?ps = encoder_k e" using assms(2) by (simp add: generate_coded_pieces_def)
  moreover have "map coefficients ?ps = drawn_rows (encoder_k e) rng"
    using assms(2) by (simp add: generate_coded_pieces_def drawn_rows_def generate_one_piece_def take_map Let_def)
  ultimately show ?thesis
    using decode_circulating [OF e, of ?ps] by simp
qed

lemma coded_tests_pass_iff:
  "test_encode_decode_with_coded_pieces rng \<longleftrightarrow> \<not> (\<exists>x. orthogonal_to_all 5 (drawn_rows 5 rng) x)"
  "test_large_k_roundtrip rng \<longleftrightarrow> \<not> (\<exists>x. orthogonal_to_all 100 (drawn_rows 100 rng) x)"
  "bench_segment seg rng \<longleftrightarrow> \<not> (\<exists>x. orthogonal_to_all 40 (drawn_rows 40 rng) x)"
proof -
  have all: "take (encoder_k e) (generate_coded_pieces e rng (encoder_k e)) = generate_coded_pieces e rng (encoder_k e)" for e
    by (simp add: generate_coded_pieces_def)
  obtain e where e: "encoder_new (counting 500) 100 = Ok e" "encoder_k e = 5"
    by (rule encoder_of_data [of "counting 500" 100]) (simp_all add: div_ceil_def)
  then show "test_encode_decode_with_coded_pieces rng \<longleftrightarrow> \<not> (\<exists>x. orthogonal_to_all 5 (drawn_rows 5 rng) x)"
    using coded_pieces_decode [OF e(1), of "5 + 5" rng] by (simp add: test_encode_decode_with_coded_pieces_def Let_def)
  obtain e where e: "encoder_new (counting 10000) 100 = Ok e" "encoder_k e = 100"
    by (rule encoder_of_data [of "counting 10000" 100]) (simp_all add: div_ceil_def)
  then show "test_large_k_roundtrip rng \<longleftrightarrow> \<not> (\<exists>x. orthogonal_to_all 100 (drawn_rows 100 rng) x)"
    using coded_pieces_decode [OF e(1), of 100 rng] all [of e] by (simp add: test_large_k_roundtrip_def Let_def)
  obtain e where e: "encoder_new (bench_data seg (40 * 262144)) 262144 = Ok e" "encoder_k e = 40"
  proof (rule encoder_of_data [of "bench_data seg (40 * 262144)" 262144])
    show "bench_data seg (40 * 262144) \<noteq> []"
      by (metis length_bench_data list.size(3) mult_is_0 zero_neq_numeral)
  qed (simp_all add: div_ceil_def)
  show "bench_segment seg rng \<longleftrightarrow> \<not> (\<exists>x. orthogonal_to_all 40 (drawn_rows 40 rng) x)"
    using coded_pieces_decode [OF e(1), of 40 rng] all [of e] e by (simp add: bench_segment_def Let_def)
qed

lemma below_five: "{..<5} - {0, 2} = {1, 3, 4 :: nat}" 
  by auto

lemma mixed_test_passes_iff:
  "test_encode_decode_mixed_pieces rng \<longleftrightarrow> gf_mul (rng 0) (rng 7) \<noteq> gf_mul (rng 2) (rng 5)"
proof -
  obtain e where e: "encoder_new (counting 1000) 200 = Ok e" "encoder_k e = 5"
    by (rule encoder_of_data [of "counting 1000" 200]) (simp_all add: div_ceil_def)
  let ?all = "encode e rng 3"
  let ?sel = "[?all ! 1, ?all ! 3, ?all ! 4, ?all ! 5, ?all ! 6]"
  have len: "length ?all = 8" using e(2) by (simp add: encode_def generate_coded_pieces_def)
  then have "\<forall>p \<in> set ?sel. circulating e p"
    by (auto intro!: circulating.encoded [where rng = rng and parity = 3])
  from decode_circulating [OF e(1) this] e(2)
  have "decode (decoder_new 5 200 1000) ?sel =
      (if \<exists>x. orthogonal_to_all 5 (map coefficients ?sel) x then Err LinearlyDependent else Ok (counting 1000))"
    by simp
  moreover have "map coefficients ?sel =
      [unit_row 5 1, unit_row 5 3, unit_row 5 4, map rng [0..<5], map (\<lambda>i. rng (5 + i)) [0..<5]]"
    using e(2) by (simp add: encode_def generate_coded_pieces_def generate_one_piece_def nth_append Let_def eval_nat_numeral)
  moreover have "(\<exists>x. orthogonal_to_all 5 [unit_row 5 1, unit_row 5 3, unit_row 5 4, map rng [0..<5], map (\<lambda>i. rng (5 + i)) [0..<5]] x)
      \<longleftrightarrow> gf_mul (map rng [0..<5] ! 0) (map (\<lambda>i. rng (5 + i)) [0..<5] ! 2) =
          gf_mul (map rng [0..<5] ! 2) (map (\<lambda>i. rng (5 + i)) [0..<5] ! 0)"
    by (rule two_missing) (auto simp: below_five)
  ultimately show ?thesis
    using e len by (simp add: test_encode_decode_mixed_pieces_def Let_def tested_def numeral_2_eq_2 del: upt_rec_numeral)
qed

text \<open>A generator that keeps drawing bytes other than zero lets every recombination of source pieces return.\<close>

lemma recombined_source_pieces:
  assumes "encoder_new xs m = Ok e" and "\<And>p. \<exists>q \<ge> p. rng q \<noteq> 0"
    and "\<forall>i \<in> set ks. i < encoder_k e" and "2 \<le> length ks" and "distinct ks"
  obtains p where "create_piece_from_existing rng (map (\<lambda>i. source_pieces e ! i) ks) = Some (Ok p)"
    and "circulating e p" and "length (coefficients p) = encoder_k e" and "length (piece_data p) = m"
    and "\<forall>j < encoder_k e. coefficients p ! j = 0 \<longleftrightarrow> j \<notin> set ks"
proof -
  let ?ps = "map (\<lambda>i. source_pieces e ! i) ks"
  note n = encoder_new_Ok [OF assms(1)]
  have c: "\<forall>p \<in> set ?ps. circulating e p" using assms(3) circulating_source by auto
  then have "\<forall>p \<in> set ?ps. piece_of m (enc_pieces e) p" using circulating_piece_of n(3,4) by blast
  from create_piece_returns [OF assms(2) n(4) this] assms(4)
  obtain p where p: "create_piece_from_existing rng ?ps = Some (Ok p)" "piece_of m (enc_pieces e) p" by auto
  show ?thesis
  proof (rule that [OF p(1) circulating.recombined [OF c p(1)]])
    show "\<forall>j < encoder_k e. coefficients p ! j = 0 \<longleftrightarrow> j \<notin> set ks"
      using recombined_coefficient [OF p(1) assms(5,3)] by blast
  qed (use p(2) in \<open>simp_all add: piece_of_def encoder_k_def\<close>)
qed

lemma recombination_tests_pass:
  assumes "\<And>p. \<exists>q \<ge> p. rng q \<noteq> 0"
  shows "test_create_piece_from_existing rng" and "test_create_piece_from_three_existing rng"
proof -
  obtain e where e: "encoder_new (counting 300) 100 = Ok e" "encoder_k e = 3"
    by (rule encoder_of_data [of "counting 300" 100]) (simp_all add: div_ceil_def)
  let ?s = "source_pieces e"
  obtain p where p: "create_piece_from_existing rng (map (\<lambda>i. ?s ! i) [0, 1]) = Some (Ok p)" "circulating e p"
      "length (coefficients p) = encoder_k e" "length (piece_data p) = 100"
      "\<forall>j < encoder_k e. coefficients p ! j = 0 \<longleftrightarrow> j \<notin> set [0, 1]"
    by (rule recombined_source_pieces [OF e(1) assms, of "[0, 1]"]) (use e(2) in auto)
  have "take 2 ?s = map (\<lambda>i. ?s ! i) [0, 1]"
    using e(2) by (intro nth_equalityI) (auto simp: less_Suc_eq numeral_2_eq_2)
  moreover have "coefficients ` set [?s ! 0, ?s ! 2, p] = insert (coefficients p) (unit_row (encoder_k e) ` ({..<encoder_k e} - {1}))"
    using e(2) by (auto simp: less_Suc_eq numeral_3_eq_3 numeral_2_eq_2)
  then have "decode (decoder_new (encoder_k e) 100 (length (counting 300))) [?s ! 0, ?s ! 2, p] = Ok (counting 300)"
    using replaced_source_decodes [OF e(1) p(2), of "[?s ! 0, ?s ! 2, p]" 1] p(2,5) e(2) circulating_source [of _ e]
    by simp
  ultimately show "test_create_piece_from_existing rng"
    using p e by (simp add: test_create_piece_from_existing_def Let_def)
  obtain e where e: "encoder_new (counting 400) 100 = Ok e" "encoder_k e = 4"
    by (rule encoder_of_data [of "counting 400" 100]) (simp_all add: div_ceil_def)
  let ?s = "source_pieces e"
  obtain p where p: "create_piece_from_existing rng (map (\<lambda>i. ?s ! i) [0, 1, 2]) = Some (Ok p)" "circulating e p"
      "\<forall>j < encoder_k e. coefficients p ! j = 0 \<longleftrightarrow> j \<notin> set [0, 1, 2]"
    by (rule recombined_source_pieces [OF e(1) assms, of "[0, 1, 2]"]) (use e(2) in auto)
  have "take 3 ?s = map (\<lambda>i. ?s ! i) [0, 1, 2]"
    using e(2) by (intro nth_equalityI) (auto simp: less_Suc_eq numeral_3_eq_3 numeral_2_eq_2)
  moreover have "coefficients ` set [p, ?s ! 1, ?s ! 2, ?s ! 3] = insert (coefficients p) (unit_row (encoder_k e) ` ({..<encoder_k e} - {0}))"
    using e(2) by (auto simp: less_Suc_eq eval_nat_numeral)
  then have "decode (decoder_new (encoder_k e) 100 (length (counting 400))) [p, ?s ! 1, ?s ! 2, ?s ! 3] = Ok (counting 400)"
    using replaced_source_decodes [OF e(1) p(2), of "[p, ?s ! 1, ?s ! 2, ?s ! 3]" 0] p(2,3) e(2) circulating_source [of _ e]
    by simp
  ultimately show "test_create_piece_from_three_existing rng"
    using p e by (simp add: test_create_piece_from_three_existing_def Let_def)
qed

lemma create_orthogonal_piece_passes: "test_create_orthogonal_piece"
proof -
  obtain e where e: "encoder_new (counting 500) 100 = Ok e" "encoder_k e = 5"
    by (rule encoder_of_data [of "counting 500" 100]) (simp_all add: div_ceil_def)
  note n = encoder_new_Ok [OF e(1)]
  let ?s = "source_pieces e"
  let ?L = "[?s ! 0, ?s ! 1, ?s ! 2]" and ?ex = "[unit_row 5 0, unit_row 5 1]"
  have gen: "generate_orthogonal_vector ?ex 5 0 = Ok (unit_row 5 2)" by code_simp
  have c: "\<forall>p \<in> set ?L. circulating e p" using e(2) circulating_source [of _ e] by simp
  have "lincomb 5 [0, 0, 1] [unit_row 5 0, unit_row 5 1, unit_row 5 2] = unit_row 5 2" by code_simp
  then have "expressible 5 ?L (unit_row 5 2)"
    unfolding expressible_def using e(2) by (intro exI [of _ "[0, 0, 1]"]) simp
  with create_orthogonal_spec [OF _ _ _ gen, of ?L] e(2)
  obtain p where p: "create_orthogonal_piece ?L ?ex 5 0 = Ok p" "coefficients p = unit_row 5 2" by auto
  then have cp: "circulating e p"
    using c e(2) circulating.repaired [of ?L e ?ex 0 p] by simp
  then have "length (piece_data p) = 100"
    using circulating_piece_of [OF _ n(4,3)] by (simp add: piece_of_def)
  moreover have "coefficients ` set [?s ! 0, ?s ! 1, p, ?s ! 3, ?s ! 4] =
      insert (coefficients p) (unit_row (encoder_k e) ` ({..<encoder_k e} - {2}))"
    using e(2) p(2) by (auto simp: less_Suc_eq eval_nat_numeral)
  then have "decode (decoder_new (encoder_k e) 100 (length (counting 500))) [?s ! 0, ?s ! 1, p, ?s ! 3, ?s ! 4] = Ok (counting 500)"
    using replaced_source_decodes [OF e(1) cp, of "[?s ! 0, ?s ! 1, p, ?s ! 3, ?s ! 4]" 2] cp p(2) e(2) circulating_source [of _ e]
    by simp
  moreover have "check_independence [unit_row 5 0, unit_row 5 1, unit_row 5 2] = (Ok 3 :: nat er)" by code_simp
  ultimately show ?thesis
    using p e by (simp add: test_create_orthogonal_piece_def Let_def)
qed

end
