(* ===== verification/Ledger_Tests.thy ===== *)
theory Ledger_Tests
  imports Testing Service
begin

text \<open>
  The unit tests of \<open>core\<close>, \<open>settlement\<close>, \<open>prover/merkle.rs\<close> and \<open>aggregator/service.rs\<close> on the model. SHA-256,
  bincode and serde_json are arguments; where a test expects two hashes to differ, the lemma names the
  inputs SHA-256 must not confuse.
\<close>

section \<open>Tests of core\<close>

definition test_service_type_from_u8 :: bool where
  "test_service_type_from_u8 \<longleftrightarrow>
     service_type_from_u8 0 = Some Tunnel \<and> service_type_from_u8 1 = Some Data \<and>
     service_type_from_u8 2 = Some Compute \<and> service_type_from_u8 3 = Some Parallel \<and>
     service_type_from_u8 4 = Some Bundle \<and> service_type_from_u8 5 = None"

definition test_service_type_repr :: bool where
  "test_service_type_repr \<longleftrightarrow>
     service_type_u8 Tunnel = 0 \<and> service_type_u8 Data = 1 \<and> service_type_u8 Compute = 2 \<and>
     service_type_u8 Parallel = 3 \<and> service_type_u8 Bundle = 4"

definition test_epoch_serde :: "(epoch \<Rightarrow> ('e, bytes) outcome) \<Rightarrow> (bytes \<Rightarrow> ('e, epoch) outcome) \<Rightarrow> bool" where
  "test_epoch_serde to_string from_str \<longleftrightarrow>
     (let epoch = \<lparr>epoch_index = 1, epoch_start = 100, epoch_end = 200\<rparr>
      in tested (to_string epoch) (\<lambda>json. tested (from_str json) (\<lambda>parsed. parsed = epoch)))"

lemma core_tests_pass:
  "test_service_type_from_u8" "test_service_type_repr"
  "(\<And>e. from_str (to_string e) = Ok e) \<Longrightarrow> test_epoch_serde (\<lambda>e. Ok (to_string e)) from_str"
  by (simp_all add: test_service_type_from_u8_def test_service_type_repr_def test_epoch_serde_def)

section \<open>Tests of accounts.rs\<close>

definition test_storage_tier_round_trip :: bool where
  "test_storage_tier_round_trip \<longleftrightarrow>
     list_all (\<lambda>i. case storage_tier_from_u8 i of None \<Rightarrow> False | Some tier \<Rightarrow> storage_tier_u8 tier = i) [0, 1, 2, 3, 4] \<and>
     storage_tier_from_u8 5 = None"

definition test_shard_ratios :: bool where
  "test_shard_ratios \<longleftrightarrow> min_shard_ratio Free = 0 \<and> min_shard_ratio Lite = 2 \<and> min_shard_ratio Standard = 3 \<and>
     min_shard_ratio Pro = 5 \<and> min_shard_ratio Enterprise = 10"

text \<open>\<open>to_bytes\<close>, then \<open>from_bytes\<close>, as three tests do with one account each.\<close>

definition account_roundtrip :: "('a \<Rightarrow> bytes option) \<Rightarrow> (bytes \<Rightarrow> string + 'a) \<Rightarrow> 'a \<Rightarrow> bool" where
  "account_roundtrip serialize deserialize account \<longleftrightarrow>
     tested (account_to_bytes serialize account :: (string, bytes) outcome) (\<lambda>bytes.
       tested (account_from_bytes deserialize bytes) (\<lambda>decoded. account = decoded))"

definition test_creator_pool_roundtrip :: "(creator_pool \<Rightarrow> bytes option) \<Rightarrow> (bytes \<Rightarrow> string + creator_pool) \<Rightarrow> bool" where
  "test_creator_pool_roundtrip serialize deserialize \<longleftrightarrow> account_roundtrip serialize deserialize
     \<lparr>cp_creator = filled 1, cp_balance = 1000000, cp_original_balance = 1000000, cp_tier = Standard,
      cp_funded_cid_count = 5, cp_distribution_posted = False, cp_distribution_root = filled 0,
      cp_total_weight = 0, cp_created_at = 1700000000\<rparr>"

definition test_payment_channel_roundtrip ::
  "(payment_channel \<Rightarrow> bytes option) \<Rightarrow> (bytes \<Rightarrow> string + payment_channel) \<Rightarrow> bool" where
  "test_payment_channel_roundtrip serialize deserialize \<longleftrightarrow> account_roundtrip serialize deserialize
     \<lparr>pc_user = filled 2, pc_node = filled 3, pc_locked_amount = 50000000, pc_redeemed_amount = 0, pc_nonce = 0,
      pc_is_open = True, pc_created_at = 1700000000, pc_expires_at = 1703000000\<rparr>"

definition test_pool_roundtrip :: "(pool \<Rightarrow> bytes option) \<Rightarrow> (bytes \<Rightarrow> string + pool) \<Rightarrow> bool" where
  "test_pool_roundtrip serialize deserialize \<longleftrightarrow> account_roundtrip serialize deserialize
     \<lparr>pl_pool_pubkey = filled 1, pl_service = 1, pl_tier = 2, pl_start_date = 1700000000, pl_created_at = 1700000000,
      pl_expires_at = 1703000000, pl_pool_balance = 10000000, pl_original_pool_balance = 10000000,
      pl_total_weight = 0, pl_distribution_root = filled 0, pl_distribution_posted = False\<rparr>"

definition test_voucher_signable_data :: bool where
  "test_voucher_signable_data \<longleftrightarrow>
     (let channel = filled 1; data = voucher_signable_data channel 100 1 in length data = 48)"

text \<open>The receipt of both tests that follow.\<close>

definition test_receipt :: storage_receipt where
  "test_receipt = \<lparr>content_id = filled 1, storage_node = filled 2, challenger = filled 3, shard_index = 0,
     timestamp = 1700000000, nonce = filled 4, proof_hash = filled 5, signature = replicate 64 0\<rparr>"

definition test_storage_receipt_dedup :: "(bytes \<Rightarrow> key32) \<Rightarrow> bool" where
  "test_storage_receipt_dedup sha256 \<longleftrightarrow>
     (let hash1 = dedup_hash sha256 test_receipt; hash2 = dedup_hash sha256 test_receipt
      in hash1 = hash2 \<and> hash1 \<noteq> filled 0)"

definition test_storage_receipt_contribution :: bool where
  "test_storage_receipt_contribution \<longleftrightarrow>
     (let receipt = contribution_of test_receipt
      in c_weight receipt = 1 \<and> c_operator receipt = filled 2 \<and> c_signer receipt = filled 3 \<and>
         c_timestamp receipt = 1700000000)"

lemma account_tests_pass:
  "test_storage_tier_round_trip" "test_shard_ratios" "test_voucher_signable_data" "test_storage_receipt_contribution"
  "(\<And>a. deserialize (serialize a) = Inr a) \<Longrightarrow> account_roundtrip (\<lambda>a. Some (serialize a)) deserialize account"
  "test_storage_receipt_dedup sha256 \<longleftrightarrow> sha256 (dedup_input test_receipt) \<noteq> 0"
proof -
  have "filled 0 = 0" by code_simp
  then show "test_storage_receipt_dedup sha256 \<longleftrightarrow> sha256 (dedup_input test_receipt) \<noteq> 0"
    by (simp add: test_storage_receipt_dedup_def dedup_hash_def)
qed (simp_all add: test_storage_tier_round_trip_def test_shard_ratios_def test_voucher_signable_data_def
    voucher_signable_data_def test_storage_receipt_contribution_def contribution_of_def test_receipt_def
    account_roundtrip_def account_to_bytes_def account_from_bytes_def)

section \<open>Tests of fee.rs\<close>

definition test_default_fee :: bool where
  "test_default_fee \<longleftrightarrow> tested (calculate_default_fee (100 * USDC_ONE) :: (unit, u64 \<times> u64) outcome) (\<lambda>(fee, payout).
     fee = 5 * USDC_ONE \<and> payout = 95 * USDC_ONE)"

definition test_zero_amount :: bool where
  "test_zero_amount \<longleftrightarrow> tested (calculate_default_fee 0 :: (unit, u64 \<times> u64) outcome) (\<lambda>(fee, payout). fee = 0 \<and> payout = 0)"

definition test_small_amount :: bool where
  "test_small_amount \<longleftrightarrow> tested (calculate_default_fee 1 :: (unit, u64 \<times> u64) outcome) (\<lambda>(fee, payout). fee = 0 \<and> payout = 1)"

definition test_custom_fee :: bool where
  "test_custom_fee \<longleftrightarrow> tested (calculate_fee (100 * USDC_ONE) 1000 :: (unit, u64 \<times> u64) outcome) (\<lambda>(fee, payout).
     fee = 10 * USDC_ONE \<and> payout = 90 * USDC_ONE)"

definition test_fee_too_high :: bool where
  "test_fee_too_high \<longleftrightarrow> calculate_fee 100 (MAX_PROTOCOL_FEE_BPS + 1) = (Panic :: (unit, u64 \<times> u64) outcome)"

definition test_proportional_payout :: bool where
  "test_proportional_payout \<longleftrightarrow>
     tested (calculate_proportional_payout (1000 * USDC_ONE) 25 100 PROTOCOL_FEE_BPS :: (unit, u64 \<times> u64) outcome) (\<lambda>(fee, payout).
       fee = 12500000 \<and> payout = 237500000)"

definition test_proportional_zero_weight :: bool where
  "test_proportional_zero_weight \<longleftrightarrow>
     tested (calculate_proportional_payout 1000 0 100 PROTOCOL_FEE_BPS :: (unit, u64 \<times> u64) outcome) (\<lambda>(fee, payout). fee = 0 \<and> payout = 0)"

definition test_proportional_zero_total :: bool where
  "test_proportional_zero_total \<longleftrightarrow>
     tested (calculate_proportional_payout 1000 50 0 PROTOCOL_FEE_BPS :: (unit, u64 \<times> u64) outcome) (\<lambda>(fee, payout). fee = 0 \<and> payout = 0)"

lemmas fee_constants = PROTOCOL_FEE_BPS_def MAX_PROTOCOL_FEE_BPS_def BPS_DENOMINATOR_def USDC_ONE_def

lemma fee_tests_pass:
  "test_default_fee" "test_zero_amount" "test_small_amount" "test_custom_fee" "test_fee_too_high"
  "test_proportional_payout" "test_proportional_zero_weight" "test_proportional_zero_total"
proof -
  have max: "ucast (- 1 :: u64) = (18446744073709551615 :: u128)"
    by (simp add: unsigned_minus_1_eq_mask mask_eq_exp_minus_1)
  show test_proportional_payout
    by (simp add: test_proportional_payout_def calculate_fee_def calculate_proportional_payout_def
        sat_mul64_def sat_sub64_def sat_mul128_def fee_constants max Let_def)
qed (simp_all add: test_default_fee_def test_zero_amount_def test_small_amount_def test_custom_fee_def
      test_fee_too_high_def test_proportional_zero_weight_def
      test_proportional_zero_total_def calculate_default_fee_def calculate_fee_def calculate_proportional_payout_def
      sat_mul64_def sat_sub64_def sat_mul128_def fee_constants)

section \<open>Tests of pda.rs\<close>

definition test_creator_pool_pda_deterministic :: "(bytes \<Rightarrow> key32) \<Rightarrow> bool" where
  "test_creator_pool_pda_deterministic sha256 \<longleftrightarrow>
     (let program = filled 1; creator = filled 2; pda1 = creator_pool_pda sha256 program creator;
          pda2 = creator_pool_pda sha256 program creator
      in pda1 = pda2)"

definition test_different_creators_different_pdas :: "(bytes \<Rightarrow> key32) \<Rightarrow> bool" where
  "test_different_creators_different_pdas sha256 \<longleftrightarrow>
     (let program = filled 1; creator_a = filled 2; creator_b = filled 3
      in creator_pool_pda sha256 program creator_a \<noteq> creator_pool_pda sha256 program creator_b)"

definition test_payment_channel_pda_deterministic :: "(bytes \<Rightarrow> key32) \<Rightarrow> bool" where
  "test_payment_channel_pda_deterministic sha256 \<longleftrightarrow>
     (let program = filled 1; user = filled 2; node = filled 3; pda1 = payment_channel_pda sha256 program user node;
          pda2 = payment_channel_pda sha256 program user node
      in pda1 = pda2)"

definition test_payment_channel_pda_asymmetric :: "(bytes \<Rightarrow> key32) \<Rightarrow> bool" where
  "test_payment_channel_pda_asymmetric sha256 \<longleftrightarrow>
     (let program = filled 1; a = filled 2; b = filled 3
      in payment_channel_pda sha256 program a b \<noteq> payment_channel_pda sha256 program b a)"

definition test_claim_receipt_pda :: "(bytes \<Rightarrow> key32) \<Rightarrow> bool" where
  "test_claim_receipt_pda sha256 \<longleftrightarrow>
     (let program = filled 1; pool = filled 2; op = filled 3; pda = claim_receipt_pda sha256 program pool op
      in pda \<noteq> filled 0)"

definition test_treasury_pda :: "(bytes \<Rightarrow> key32) \<Rightarrow> bool" where
  "test_treasury_pda sha256 \<longleftrightarrow> (let program = filled 1; t = treasury_pda sha256 program in t \<noteq> filled 0)"

lemma pda_tests_pass:
  "test_creator_pool_pda_deterministic sha256" "test_payment_channel_pda_deterministic sha256"
  "inj sha256 \<Longrightarrow> test_different_creators_different_pdas sha256"
  "inj sha256 \<Longrightarrow> test_payment_channel_pda_asymmetric sha256"
  by (simp_all add: test_creator_pool_pda_deterministic_def test_payment_channel_pda_deterministic_def
      test_different_creators_different_pdas_def test_payment_channel_pda_asymmetric_def
      creator_pool_pda_def payment_channel_pda_def derive_pda_def pda_input_def inj_eq)

section \<open>Tests of instruction.rs\<close>

text \<open>\<open>data[0]\<close> panics on empty data, which fails the test.\<close>

definition starts_with_byte :: "bytes \<Rightarrow> u8 \<Rightarrow> bool" where
  "starts_with_byte data b \<longleftrightarrow> data \<noteq> [] \<and> data ! 0 = b"

definition test_instruction_discriminators :: bool where
  "test_instruction_discriminators \<longleftrightarrow>
     discriminator InitializeConfigType = 0 \<and> discriminator ClosePaymentChannelType = 12"

definition test_initialize_config_builder :: "(payload \<Rightarrow> bytes) \<Rightarrow> bool" where
  "test_initialize_config_builder bincode \<longleftrightarrow>
     (let data = initialize_config bincode (filled 1)
      in starts_with_byte data (discriminator InitializeConfigType) \<and> 1 < length data)"

definition test_create_creator_pool_builder :: "(payload \<Rightarrow> bytes) \<Rightarrow> bool" where
  "test_create_creator_pool_builder bincode \<longleftrightarrow>
     (let data = create_creator_pool bincode (filled 2) 2 in starts_with_byte data (discriminator CreateCreatorPoolType))"

definition test_fund_creator_pool_builder :: "(payload \<Rightarrow> bytes) \<Rightarrow> bool" where
  "test_fund_creator_pool_builder bincode \<longleftrightarrow>
     (let data = fund_creator_pool bincode (filled 2) 1000000 in starts_with_byte data (discriminator FundCreatorPoolType))"

definition test_claim_payout_builder :: "(payload \<Rightarrow> bytes) \<Rightarrow> bool" where
  "test_claim_payout_builder bincode \<longleftrightarrow>
     (let proof' = [filled 1, filled 2]; data = claim_payout bincode (filled 1) (filled 2) 100 proof' 0
      in starts_with_byte data (discriminator ClaimType))"

definition test_open_payment_channel_builder :: "(payload \<Rightarrow> bytes) \<Rightarrow> bool" where
  "test_open_payment_channel_builder bincode \<longleftrightarrow>
     (let data = open_payment_channel bincode (filled 1) (filled 2) 50000000 1703000000
      in starts_with_byte data (discriminator OpenPaymentChannelType))"

definition test_settle_payment_channel_builder :: "(payload \<Rightarrow> bytes) \<Rightarrow> bool" where
  "test_settle_payment_channel_builder bincode \<longleftrightarrow>
     (let data = settle_payment_channel bincode (filled 1) (filled 2) 25000000 5 (replicate 64 0)
      in starts_with_byte data (discriminator SettlePaymentChannelType))"

definition test_close_payment_channel_builder :: "(payload \<Rightarrow> bytes) \<Rightarrow> bool" where
  "test_close_payment_channel_builder bincode \<longleftrightarrow>
     (let data = close_payment_channel bincode (filled 1) (filled 2)
      in starts_with_byte data (discriminator ClosePaymentChannelType))"

definition test_fund_content_builder :: "(payload \<Rightarrow> bytes) \<Rightarrow> bool" where
  "test_fund_content_builder bincode \<longleftrightarrow>
     (let data = fund_content bincode (filled 1) (filled 2) 5000000 2
      in starts_with_byte data (discriminator FundContentType))"

definition test_post_distribution_builder :: "(payload \<Rightarrow> bytes) \<Rightarrow> bool" where
  "test_post_distribution_builder bincode \<longleftrightarrow>
     (let data = post_distribution bincode (filled 1) (filled 2) 1000 (replicate 128 0) (replicate 64 0)
      in starts_with_byte data (discriminator PostDistributionType))"

text \<open>The payload decodes to one of the same struct with the same numbers.\<close>

definition test_claim_payout_roundtrip :: "(payload \<Rightarrow> bytes) \<Rightarrow> (bytes \<Rightarrow> string + payload) \<Rightarrow> bool" where
  "test_claim_payout_roundtrip serialize deserialize \<longleftrightarrow>
     (let encoded = serialize (ClaimPayout (filled 1) (filled 2) 42 [filled 1] 7)
      in case deserialize encoded of
           Inr (ClaimPayout _ _ w _ i) \<Rightarrow> 42 = w \<and> 7 = i
         | _ \<Rightarrow> False)"

definition test_settle_payment_channel_roundtrip :: "(payload \<Rightarrow> bytes) \<Rightarrow> (bytes \<Rightarrow> string + payload) \<Rightarrow> bool" where
  "test_settle_payment_channel_roundtrip serialize deserialize \<longleftrightarrow>
     (let encoded = serialize (SettlePaymentChannel (filled 1) (filled 2) 10000000 99 (replicate 64 3))
      in case deserialize encoded of
           Inr (SettlePaymentChannel _ _ a n _) \<Rightarrow> 10000000 = a \<and> 99 = n
         | _ \<Rightarrow> False)"

definition test_claim_accounts_list :: "(bytes \<Rightarrow> key32) \<Rightarrow> bool" where
  "test_claim_accounts_list sha256 \<longleftrightarrow>
     (let program = filled 1; pool = filled 2; operator = filled 3;
          accounts = claim_payout_accounts sha256 program pool operator
      in length accounts = 4 \<and> is_writable (accounts ! 0) \<and> is_signer (accounts ! 3))"

definition test_settle_accounts_list :: "(bytes \<Rightarrow> key32) \<Rightarrow> bool" where
  "test_settle_accounts_list sha256 \<longleftrightarrow>
     (let program = filled 1; user = filled 2; node = filled 3;
          accounts = settle_payment_channel_accounts sha256 program user node
      in length accounts = 4 \<and> is_signer (accounts ! 2))"

lemma instruction_tests_pass:
  "test_instruction_discriminators" "test_create_creator_pool_builder bincode" "test_fund_creator_pool_builder bincode"
  "test_claim_payout_builder bincode" "test_open_payment_channel_builder bincode"
  "test_settle_payment_channel_builder bincode" "test_close_payment_channel_builder bincode"
  "test_fund_content_builder bincode" "test_post_distribution_builder bincode"
  "test_claim_accounts_list sha256" "test_settle_accounts_list sha256"
  "test_initialize_config_builder bincode \<longleftrightarrow> bincode (InitializeConfig (filled 1) PROTOCOL_FEE_BPS) \<noteq> []"
  by (simp_all add: test_instruction_discriminators_def test_create_creator_pool_builder_def
      test_fund_creator_pool_builder_def test_claim_payout_builder_def test_open_payment_channel_builder_def
      test_settle_payment_channel_builder_def test_close_payment_channel_builder_def test_fund_content_builder_def
      test_post_distribution_builder_def test_claim_accounts_list_def test_settle_accounts_list_def
      test_initialize_config_builder_def starts_with_byte_def builder_defs claim_payout_accounts_def
      settle_payment_channel_accounts_def Let_def)

lemma payload_tests_pass:
  assumes "\<And>p. deserialize (serialize p) = Inr p"
  shows "test_claim_payout_roundtrip serialize deserialize" and "test_settle_payment_channel_roundtrip serialize deserialize"
  by (simp_all add: test_claim_payout_roundtrip_def test_settle_payment_channel_roundtrip_def assms)

section \<open>Tests of merkle.rs\<close>

definition test_empty_merkle_root :: "(bytes \<Rightarrow> key32) \<Rightarrow> bool" where
  "test_empty_merkle_root sha256 \<longleftrightarrow> compute_merkle_root sha256 [] = (Ok (filled 0) :: (unit, key32) outcome)"

definition test_single_leaf :: "(bytes \<Rightarrow> key32) \<Rightarrow> bool" where
  "test_single_leaf sha256 \<longleftrightarrow>
     (let leaf = filled 42 in compute_merkle_root sha256 [leaf] = (Ok leaf :: (unit, key32) outcome))"

definition test_two_leaves :: "(bytes \<Rightarrow> key32) \<Rightarrow> bool" where
  "test_two_leaves sha256 \<longleftrightarrow>
     (let a = filled 1; b = filled 2; expected = sha256 (key_bytes a @ key_bytes b)
      in compute_merkle_root sha256 [a, b] = (Ok expected :: (unit, key32) outcome))"

definition test_three_leaves_pads_to_four :: "(bytes \<Rightarrow> key32) \<Rightarrow> bool" where
  "test_three_leaves_pads_to_four sha256 \<longleftrightarrow>
     (let a = filled 1; b = filled 2; c = filled 3; zero = filled 0;
          left = sha256 (key_bytes a @ key_bytes b); right = sha256 (key_bytes c @ key_bytes zero);
          expected = sha256 (key_bytes left @ key_bytes right)
      in compute_merkle_root sha256 [a, b, c] = (Ok expected :: (unit, key32) outcome))"

definition test_deterministic :: "(bytes \<Rightarrow> key32) \<Rightarrow> bool" where
  "test_deterministic sha256 \<longleftrightarrow>
     (let leaves = map (\<lambda>i. filled (of_nat i)) [0..<5]; r1 = compute_merkle_root sha256 leaves :: (unit, key32) outcome;
          r2 = compute_merkle_root sha256 leaves
      in r1 = r2)"

lemma filled_0: "filled 0 = 0"
  by code_simp

lemma merkle_tests_pass:
  "test_empty_merkle_root sha256" "test_single_leaf sha256" "test_two_leaves sha256"
  "test_three_leaves_pads_to_four sha256" "test_deterministic sha256"
proof -
  have pow: "next_power_of_two 2 = 2" "next_power_of_two 3 = 4"
    by (simp_all add: next_power_of_two.simps)
  show "test_two_leaves sha256"
    using pow(1) by (simp add: test_two_leaves_def compute_merkle_root_def oidx_def merge_loop.simps hash_pair_def
      numeral_2_eq_2)
  have "next_power_of_two (Suc (Suc (Suc 0))) = 4" using pow(2) by (simp only: numeral_3_eq_3)
  moreover have "replicate (4 - 3) (0 :: key32) = [0]" by simp
  ultimately show "test_three_leaves_pads_to_four sha256"
    by (simp add: test_three_leaves_pads_to_four_def compute_merkle_root_def oidx_def merge_loop.simps hash_pair_def filled_0
        numeral_3_eq_3 Let_def)
qed (simp_all add: test_empty_merkle_root_def test_single_leaf_def test_deterministic_def compute_merkle_root_def oidx_def
    filled_0 Let_def)

section \<open>Tests of service.rs\<close>

definition test_align_to_epoch :: bool where
  "test_align_to_epoch \<longleftrightarrow>
     align_to_epoch True 3650 3600 = (Ok 3600 :: (unit, u64) outcome) \<and>
     align_to_epoch True 3600 3600 = (Ok 3600 :: (unit, u64) outcome) \<and>
     align_to_epoch True 7199 3600 = (Ok 3600 :: (unit, u64) outcome) \<and>
     align_to_epoch True 7200 3600 = (Ok 7200 :: (unit, u64) outcome)"

definition test_default_config :: bool where
  "test_default_config \<longleftrightarrow>
     (let cfg = default_aggregator_config
      in epoch_duration_secs cfg = 3600 \<and> grace_period_secs cfg = 300 \<and> max_batch_size cfg = 1000 \<and>
         data_dir cfg = None \<and> solana_rpc_url cfg = None \<and> \<not> submit_claims cfg)"

text \<open>\<open>now\<close> is the clock of the test.\<close>

definition test_service_creation :: "u64 \<Rightarrow> bool" where
  "test_service_creation now \<longleftrightarrow>
     (let config = default_aggregator_config
      in tested (service_new True config now :: (unit, service) outcome) (\<lambda>service. current_epoch service > 0))"

definition test_empty_epoch_processing ::
  "(payload \<Rightarrow> bytes) \<Rightarrow> externals \<Rightarrow> (key32 list \<Rightarrow> key32 list) \<Rightarrow> u64 \<Rightarrow> bool" where
  "test_empty_epoch_processing bincode x order now \<longleftrightarrow>
     (let config = default_aggregator_config
      in tested (service_new True config now :: (unit, service) outcome) (\<lambda>service.
         tested (process_epoch_end True bincode x order service :: (unit, (aggregator_error + built_transaction) list \<times> service) outcome)
           (\<lambda>(results, service). results = [])))"

lemma service_tests_pass: "test_align_to_epoch" "test_default_config"
  by (simp_all add: test_align_to_epoch_def align_to_epoch_def mul64_def test_default_config_def
      default_aggregator_config_def)

text \<open>A service can be made and ends its first, empty epoch unless the clock is within three hours of its end.\<close>

lemma service_new_default:
  assumes "unat now + 10800 < 2 ^ 64"
  obtains service where "service_new True default_aggregator_config now = (Ok service :: (unit, service) outcome)"
    and "unat (current_epoch service) = unat now div 3600" and "svc_config service = default_aggregator_config"
    and "pools (svc_collector service) = []"
proof -
  have d: "unat (now div 3600) = unat now div 3600" by (simp add: unat_div)
  have le: "unat now div 3600 * 3600 \<le> unat now" by simp
  have m: "unat (now div 3600 * 3600) = unat now div 3600 * 3600"
  proof -
    have "unat (now div 3600) * unat (3600 :: u64) < 2 ^ 64"
    proof -
      have "unat now < 2 ^ 64" using unsigned_less [of now, where ?'a = nat] by simp
      then have "unat now div 3600 * 3600 < 2 ^ 64" using le by (rule le_less_trans [rotated])
      then show ?thesis using d by simp
    qed
    then show ?thesis using d unat_mult_lem [of "now div 3600" 3600] by simp
  qed
  have "unat (now div 3600 * 3600 div 3600) = unat now div 3600"
    using m by (simp add: unat_div)
  then show ?thesis
    using assms that d le m
    by (simp add: service_new_def default_aggregator_config_def align_to_epoch_def mul64_def add64_def collector_new_def
      pools_def Let_def)
qed

lemma service_creation_passes_iff:
  "unat now + 10800 < 2 ^ 64 \<Longrightarrow> test_service_creation now \<longleftrightarrow> 3600 \<le> unat now"
proof -
  assume "unat now + 10800 < 2 ^ 64"
  from service_new_default [OF this] obtain service
    where "service_new True default_aggregator_config now = (Ok service :: (unit, service) outcome)"
      and "unat (current_epoch service) = unat now div 3600" by blast
  then show ?thesis
    by (simp add: test_service_creation_def word_less_nat_alt div_greater_zero_iff)
qed

lemma empty_epoch_processing_passes:
  "unat now + 10800 < 2 ^ 64 \<Longrightarrow> order [] = [] \<Longrightarrow> test_empty_epoch_processing bincode x order now"
proof -
  assume now: "unat now + 10800 < 2 ^ 64" and "order [] = []"
  from service_new_default [OF now] obtain service
    where s: "service_new True default_aggregator_config now = (Ok service :: (unit, service) outcome)"
      "unat (current_epoch service) = unat now div 3600" "svc_config service = default_aggregator_config"
      "pools (svc_collector service) = []" by blast
  have "unat now div 3600 * 3600 \<le> unat now" by simp
  then have "(unat (current_epoch service) + 2) * unat (epoch_duration_secs (svc_config service)) < 2 ^ 64"
    using now s(2,3) by (simp add: default_aggregator_config_def add_mult_distrib)
  from advance_epoch_Ok [OF this, of True] s(3) obtain self' where "advance_epoch True service = (Ok self' :: (unit, service) outcome)"
    by (auto simp: default_aggregator_config_def)
  with s \<open>order [] = []\<close> show ?thesis
    by (simp add: test_empty_epoch_processing_def process_epoch_end_def)
qed

end
