(* ===== verification/Wire.thy ===== *)
theory Wire
  imports Prelude
begin

text \<open>
  \<open>crates/network/src/wire.rs\<close>: frames \<open>[seq_id: u64 BE][type: u8][len: u32 BE][payload]\<close> on a byte
  stream. What a reader has not read yet is a byte list that ends where the peer closes the stream;
  a writer's transport is any pair of functions for \<open>write_all\<close> and \<open>flush\<close>, of which \<open>vec_write_all\<close>
  and \<open>vec_flush\<close> (a growing buffer) is the one the round trips use. Timing and logging are left out.
\<close>

section \<open>The code\<close>

datatype io_error = InvalidData string | UnexpectedEof | TransportError string

definition MAX_FRAME_PAYLOAD :: nat where "MAX_FRAME_PAYLOAD = 50 * 1024 * 1024"

record raw_frame =
  seq_id :: u64
  msg_type :: u8
  frame_payload :: bytes

text \<open>\<open>AsyncReadExt::read_exact\<close>: the next \<open>n\<close> bytes, or an error if the stream ends before.\<close>

definition read_exact :: "nat \<Rightarrow> bytes \<Rightarrow> (io_error, bytes \<times> bytes) outcome" where
  "read_exact n s = (if length s < n then Err UnexpectedEof else Ok (take n s, drop n s))"

definition too_large :: "nat \<Rightarrow> string" where
  "too_large n = ''Frame payload too large: '' @ dec_string n @ '' > '' @ dec_string MAX_FRAME_PAYLOAD"

definition read_raw_frame :: "bytes \<Rightarrow> (io_error, raw_frame \<times> bytes) outcome" where
  "read_raw_frame io =
     obind (read_exact 8 io) (\<lambda>(seq_bytes, io).
     obind (read_exact 1 io) (\<lambda>(ty, io).
     obind (read_exact 4 io) (\<lambda>(len_bytes, io).
     let len = unat (of_be len_bytes :: u32)
     in if MAX_FRAME_PAYLOAD < len then Err (InvalidData (too_large len))
        else obind (if 0 < len then read_exact len io else Ok ([], io)) (\<lambda>(payload, io).
          Ok (\<lparr>seq_id = of_be seq_bytes, msg_type = ty ! 0, frame_payload = payload\<rparr>, io)))))"

definition frame_bytes :: "u64 \<Rightarrow> u8 \<Rightarrow> bytes \<Rightarrow> bytes" where
  "frame_bytes seq ty payload =
     be_bytes 8 seq @ [ty] @ be_bytes 4 (of_nat (length payload) :: u32) @ payload"

definition write_raw_frame ::
  "(bytes \<Rightarrow> 's \<Rightarrow> (io_error, 's) outcome) \<Rightarrow> ('s \<Rightarrow> (io_error, 's) outcome) \<Rightarrow>
    's \<Rightarrow> u64 \<Rightarrow> u8 \<Rightarrow> bytes \<Rightarrow> (io_error, 's) outcome" where
  "write_raw_frame write_all flush io seq ty payload =
     (if MAX_FRAME_PAYLOAD < length payload then Err (InvalidData (too_large (length payload)))
      else obind (write_all (frame_bytes seq ty payload) io) flush)"

section \<open>An in-memory transport\<close>

definition vec_write_all :: "bytes \<Rightarrow> bytes \<Rightarrow> (io_error, bytes) outcome" where
  "vec_write_all buf sent = Ok (sent @ buf)"

definition vec_flush :: "bytes \<Rightarrow> (io_error, bytes) outcome" where
  "vec_flush sent = Ok sent"

text \<open>Several frames written one after the other, and as many frames read as asked for.\<close>

fun write_frames :: "raw_frame list \<Rightarrow> bytes \<Rightarrow> (io_error, bytes) outcome" where
  "write_frames [] sent = Ok sent"
| "write_frames (f # fs) sent =
     obind (write_raw_frame vec_write_all vec_flush sent (seq_id f) (msg_type f) (frame_payload f)) (write_frames fs)"

fun read_frames :: "nat \<Rightarrow> bytes \<Rightarrow> (io_error, raw_frame list \<times> bytes) outcome" where
  "read_frames 0 io = Ok ([], io)"
| "read_frames (Suc n) io =
     obind (read_raw_frame io) (\<lambda>(f, io). obind (read_frames n io) (\<lambda>(fs, io). Ok (f # fs, io)))"

definition fits :: "raw_frame \<Rightarrow> bool" where
  "fits f \<longleftrightarrow> length (frame_payload f) \<le> MAX_FRAME_PAYLOAD"

abbreviation bytes_of :: "raw_frame \<Rightarrow> bytes" where
  "bytes_of f \<equiv> frame_bytes (seq_id f) (msg_type f) (frame_payload f)"

section \<open>Reading what was written\<close>

lemma length_field:
  assumes "n \<le> MAX_FRAME_PAYLOAD"
  shows "unat (of_nat n :: u32) = n"
proof -
  have "n < 2 ^ LENGTH(32)" using assms by (simp add: MAX_FRAME_PAYLOAD_def)
  then show ?thesis by (simp add: unsigned_of_nat take_bit_nat_eq_self)
qed

lemma read_exact_append [simp]: "length p = n \<Longrightarrow> read_exact n (p @ s) = Ok (p, s)"
  by (auto simp: read_exact_def)

lemma read_exact_eq_Ok: "read_exact n s = Ok (p, r) \<longleftrightarrow> s = p @ r \<and> length p = n"
  by (auto simp: read_exact_def)

lemma read_frame_bytes:
  assumes "fits f"
  shows "read_raw_frame (bytes_of f @ rest) = Ok (f, rest)"
proof -
  have "\<not> MAX_FRAME_PAYLOAD < length (frame_payload f)"
    using assms by (simp add: fits_def)
  moreover have "unat (of_be (be_bytes 4 (of_nat (length (frame_payload f)) :: u32)) :: u32) = length (frame_payload f)"
    using assms by (simp only: be32.dec_enc length_field fits_def)
  ultimately show ?thesis
    by (simp add: read_raw_frame_def frame_bytes_def be64.dec_enc Let_def append_Cons
        read_exact_append [of "[msg_type f]" 1, simplified])
qed

lemma frame_of_read:
  assumes "read_raw_frame s = Ok (f, rest)"
  shows "fits f \<and> s = bytes_of f @ rest"
proof -
  obtain b8 s1 b1 s2 b4 s3 where r: "read_exact 8 s = Ok (b8, s1)" "read_exact 1 s1 = Ok (b1, s2)"
      "read_exact 4 s2 = Ok (b4, s3)"
    and len: "\<not> MAX_FRAME_PAYLOAD < unat (of_be b4 :: u32)"
    and p: "(if 0 < unat (of_be b4 :: u32) then read_exact (unat (of_be b4 :: u32)) s3 else Ok ([], s3))
        = Ok (frame_payload f, rest)"
    and f: "f = \<lparr>seq_id = of_be b8, msg_type = b1 ! 0, frame_payload = frame_payload f\<rparr>"
    using assms by (auto simp: read_raw_frame_def Let_def split: if_splits)
  from r have l: "length b8 = 8" "length b1 = 1" "length b4 = 4" and s: "s = b8 @ b1 @ b4 @ s3"
    by (auto simp: read_exact_eq_Ok)
  from p have n: "length (frame_payload f) = unat (of_be b4 :: u32)" and s3: "s3 = frame_payload f @ rest"
    by (auto simp: read_exact_eq_Ok split: if_splits)
  have "be_bytes 8 (seq_id f) = b8" "be_bytes 4 (of_nat (length (frame_payload f)) :: u32) = b4"
    using l by (subst f, simp add: be64.enc_dec) (simp add: n be32.enc_dec l)
  moreover have "[msg_type f] = b1"
    using l(2) by (subst f) (cases b1, auto)
  ultimately show ?thesis
    using len n s s3 by (simp add: fits_def frame_bytes_def)
qed

lemma read_raw_frame_iff: "read_raw_frame s = Ok (f, rest) \<longleftrightarrow> fits f \<and> s = bytes_of f @ rest"
  using frame_of_read read_frame_bytes by blast

lemma write_frames_eq: "write_frames fs sent = Ok s \<longleftrightarrow> list_all fits fs \<and> s = sent @ concat (map bytes_of fs)"
proof (induction fs arbitrary: sent)
  case (Cons f fs)
  then show ?case
    by (auto simp: write_raw_frame_def vec_write_all_def vec_flush_def fits_def)
qed auto

lemma read_frames_eq: "read_frames n s = Ok (fs, rest) \<longleftrightarrow>
    length fs = n \<and> list_all fits fs \<and> s = concat (map bytes_of fs) @ rest"
proof (induction n arbitrary: s fs)
  case (Suc n)
  show ?case
    by (cases fs) (auto simp: read_raw_frame_iff Suc.IH)
qed auto

lemma read_exact_prefix: "read_exact n (s @ t) = Ok (p, r) \<Longrightarrow> n \<le> length s \<Longrightarrow> \<exists>u. read_exact n s = Ok (p, u) \<and> r = u @ t"
  by (auto simp: read_exact_def split: if_splits)

lemma read_exact_short: "length s < n \<Longrightarrow> read_exact n s = Err UnexpectedEof"
  by (simp add: read_exact_def)

lemma read_cut_frame:
  assumes "fits f" and "s @ t = bytes_of f" and "t \<noteq> []"
  shows "read_raw_frame s = Err UnexpectedEof"
proof -
  let ?len = "be_bytes 4 (of_nat (length (frame_payload f)) :: u32)"
  have hdr: "bytes_of f = be_bytes 8 (seq_id f) @ [msg_type f] @ ?len @ frame_payload f"
    by (simp add: frame_bytes_def)
  have s: "s = take (length s) (bytes_of f)"
    using assms(2) by (metis append_eq_conv_conj)
  have short: "length s < 13 + length (frame_payload f)"
  proof -
    have "length s + length t = 13 + length (frame_payload f)"
      using arg_cong [OF assms(2), of length] by (simp add: hdr)
    then show ?thesis using assms(3) by (cases t) simp_all
  qed
  consider "length s < 8" | "length s = 8" | "8 < length s" "length s < 13" | "13 \<le> length s"
    by linarith
  then show ?thesis
  proof cases
    case 1
    then show ?thesis by (simp add: read_raw_frame_def read_exact_short)
  next
    case 2
    then show ?thesis by (simp add: read_raw_frame_def read_exact_def)
  next
    case 3
    then show ?thesis by (auto simp: read_raw_frame_def read_exact_def)
  next
    case 4
    then have "s = be_bytes 8 (seq_id f) @ [msg_type f] @ ?len @ take (length s - 13) (frame_payload f)"
      by (subst s) (simp add: hdr take_append take_Cons')
    moreover have "length (take (length s - 13) (frame_payload f)) < length (frame_payload f)"
      using short 4 by simp
    ultimately obtain p where "s = be_bytes 8 (seq_id f) @ [msg_type f] @ ?len @ p"
        "length p < length (frame_payload f)"
      by blast
    moreover have "unat (of_be ?len :: u32) = length (frame_payload f)"
      using assms(1) by (simp only: be32.dec_enc length_field fits_def)
    moreover have "\<not> MAX_FRAME_PAYLOAD < length (frame_payload f)"
      using assms(1) by (simp add: fits_def)
    ultimately show ?thesis
      by (simp add: read_raw_frame_def Let_def read_exact_append [of "[msg_type f]" 1, simplified]
          read_exact_short) auto
  qed
qed

section \<open>The framing is exact\<close>

text \<open>
  C39: reading is the exact inverse of writing. Reading \<open>n\<close> frames from a stream succeeds precisely
  when the stream starts with what writing these frames, none above 50 MB, puts on it, and it leaves
  what follows untouched; frames can therefore neither merge nor split on the wire.
\<close>

theorem frame_stream_exact:
  "read_frames n s = Ok (fs, rest) \<longleftrightarrow> length fs = n \<and> (\<exists>sent. write_frames fs [] = Ok sent \<and> s = sent @ rest)"
  by (auto simp: read_frames_eq write_frames_eq)

text \<open>
  a frame cut short by a closed connection is never taken for a frame: on every proper prefix of
  the bytes of a frame the reader reports the end of the stream, and it never panics.
\<close>

theorem cut_frame_reported:
  assumes "write_raw_frame vec_write_all vec_flush [] seq ty payload = Ok sent" and "sent = s @ t" and "t \<noteq> []"
  shows "read_raw_frame s = Err UnexpectedEof"
proof -
  let ?f = "\<lparr>seq_id = seq, msg_type = ty, frame_payload = payload\<rparr>"
  have "fits ?f" and "s @ t = bytes_of ?f"
    using assms(1,2) by (auto simp: write_raw_frame_def fits_def vec_write_all_def vec_flush_def split: if_splits)
  then show ?thesis using assms(3) by (rule read_cut_frame)
qed

theorem cut_frame_reported_witness:
  "read_raw_frame [0, 0, 0, 0, 0, 0, 0, 7, 2, 0, 0, 0, 2, 9] = Err UnexpectedEof"
proof -
  have "frame_bytes 7 2 [9, 5] = [0, 0, 0, 0, 0, 0, 0, 7, 2, 0, 0, 0, 2, 9] @ [5]"
    by code_simp
  then show ?thesis
    by (intro cut_frame_reported [of 7 2 "[9, 5]" "frame_bytes 7 2 [9, 5]" _ "[5]"])
      (simp_all add: write_raw_frame_def MAX_FRAME_PAYLOAD_def vec_write_all_def vec_flush_def)
qed

end
