(* ===== verification/Pex.thy ===== *)
theory Pex
  imports Prelude "HOL-Library.AList" "HOL-Library.Multiset"
begin

text \<open>
  \<open>crates/network/src/pex.rs\<close> and \<open>pex_wire.rs\<close>: the peer exchange. The two hash maps of \<open>PexManager\<close>
  are association lists without repeated keys (\<open>AList.update\<close>, \<open>AList.delete\<close>); the order in which a
  hash map is iterated is the parameter \<open>order\<close>. Instants and durations are integers (nanoseconds).
  Peer ids and multiaddresses belong to \<open>libp2p\<close>: they are the type parameters \<open>'p\<close> and \<open>'a\<close>, and
  their byte encodings are parameters. \<open>pex_step\<close> is one operation of a manager.
\<close>

section \<open>The manager\<close>

record ('p, 'a) pex_manager =
  known_peers :: "('p \<times> 'a list) list"
  last_sent :: "('p \<times> int) list"
  pex_interval :: int
  pex_max_share :: nat

definition pex_with_config :: "int \<Rightarrow> nat \<Rightarrow> ('p, 'a) pex_manager" where
  "pex_with_config interval max_share =
     \<lparr>known_peers = [], last_sent = [], pex_interval = interval, pex_max_share = max_share\<rparr>"

definition pex_new :: "('p, 'a) pex_manager" where
  "pex_new = \<lparr>known_peers = [], last_sent = [], pex_interval = 60 * 10 ^ 9, pex_max_share = 20\<rparr>"

definition add_peer :: "'p \<Rightarrow> 'a list \<Rightarrow> ('p, 'a) pex_manager \<Rightarrow> ('p, 'a) pex_manager" where
  "add_peer peer_id addrs self =
     (if addrs = [] then self else self\<lparr>known_peers := AList.update peer_id addrs (known_peers self)\<rparr>)"

definition remove_peer :: "'p \<Rightarrow> ('p, 'a) pex_manager \<Rightarrow> ('p, 'a) pex_manager" where
  "remove_peer peer_id self =
     self\<lparr>known_peers := AList.delete peer_id (known_peers self), last_sent := AList.delete peer_id (last_sent self)\<rparr>"

definition peers_to_share ::
  "(('p \<times> 'a list) list \<Rightarrow> ('p \<times> 'a list) list) \<Rightarrow> 'p \<Rightarrow> ('p, 'a) pex_manager \<Rightarrow> ('p \<times> 'a list) list" where
  "peers_to_share order exclude self =
     take (pex_max_share self) (filter (\<lambda>(peer_id, _). peer_id \<noteq> exclude) (order (known_peers self)))"

fun receive_pex :: "('p \<times> 'a list) list \<Rightarrow> ('p, 'a) pex_manager \<Rightarrow> ('p \<times> 'a list) list \<times> ('p, 'a) pex_manager" where
  "receive_pex [] self = ([], self)"
| "receive_pex ((peer_id, addrs) # peers) self =
     (if addrs = [] then receive_pex peers self
      else case receive_pex peers (add_peer peer_id addrs self) of (new_peers, self') \<Rightarrow>
        (if map_of (known_peers self) peer_id = None then ((peer_id, addrs) # new_peers, self')
         else (new_peers, self')))"

text \<open>\<open>Instant::elapsed\<close> saturates at zero.\<close>

definition should_send :: "int \<Rightarrow> 'p \<Rightarrow> ('p, 'a) pex_manager \<Rightarrow> bool" where
  "should_send now peer self =
     (case map_of (last_sent self) peer of
        Some last_time \<Rightarrow> pex_interval self \<le> max 0 (now - last_time)
      | None \<Rightarrow> True)"

definition mark_sent :: "int \<Rightarrow> 'p \<Rightarrow> ('p, 'a) pex_manager \<Rightarrow> ('p, 'a) pex_manager" where
  "mark_sent now peer self = self\<lparr>last_sent := AList.update peer now (last_sent self)\<rparr>"

definition peer_count :: "('p, 'a) pex_manager \<Rightarrow> nat" where
  "peer_count self = length (known_peers self)"

text \<open>\<open>Instant::now() - max_age\<close> panics below the first instant the platform can represent.\<close>

definition cleanup_stale_peers ::
  "int \<Rightarrow> int \<Rightarrow> int \<Rightarrow> ('p, 'a) pex_manager \<Rightarrow> (unit, ('p, 'a) pex_manager) outcome" where
  "cleanup_stale_peers first_instant now max_age self =
     (if now - max_age < first_instant then Panic
      else let stale_peers = map fst (filter (\<lambda>(_, timestamp). timestamp < now - max_age) (last_sent self))
           in Ok (fold remove_peer stale_peers self))"

section \<open>The messages\<close>

record pex_peer =
  peer_id_bytes :: bytes
  addr_bytes :: "bytes list"

datatype pex_wire_error =
    SerializationError string
  | DeserializationError string
  | InvalidPeerId string
  | InvalidAddress string

text \<open>The encodings of \<open>libp2p\<close> and \<open>serde_json\<close>; the decoders return the text of their error.\<close>

record ('p, 'a) libp2p =
  peer_to_bytes :: "'p \<Rightarrow> bytes"
  peer_from_bytes :: "bytes \<Rightarrow> string + 'p"
  addr_to_vec :: "'a \<Rightarrow> bytes"
  addr_try_from :: "bytes \<Rightarrow> string + 'a"
  json_to_vec :: "pex_peer list \<Rightarrow> string + bytes"
  json_from_slice :: "bytes \<Rightarrow> string + pex_peer list"

fun or_err :: "(string \<Rightarrow> 'e) \<Rightarrow> string + 'a \<Rightarrow> ('e, 'a) outcome" where
  "or_err err (Inl e) = Err (err e)"
| "or_err err (Inr v) = Ok v"

definition from_peer :: "('p, 'a) libp2p \<Rightarrow> 'p \<Rightarrow> 'a list \<Rightarrow> pex_peer" where
  "from_peer lib peer_id addrs = \<lparr>peer_id_bytes = peer_to_bytes lib peer_id, addr_bytes = map (addr_to_vec lib) addrs\<rparr>"

definition to_peer :: "('p, 'a) libp2p \<Rightarrow> pex_peer \<Rightarrow> (pex_wire_error, 'p \<times> 'a list) outcome" where
  "to_peer lib self =
     obind (or_err InvalidPeerId (peer_from_bytes lib (peer_id_bytes self))) (\<lambda>peer_id.
     obind (otraverse (\<lambda>b. or_err InvalidAddress (addr_try_from lib b)) (addr_bytes self)) (\<lambda>addrs.
     Ok (peer_id, addrs)))"

definition from_peers :: "('p, 'a) libp2p \<Rightarrow> ('p \<times> 'a list) list \<Rightarrow> pex_peer list" where
  "from_peers lib peers = map (\<lambda>(peer_id, addrs). from_peer lib peer_id addrs) peers"

definition to_peers :: "('p, 'a) libp2p \<Rightarrow> pex_peer list \<Rightarrow> (pex_wire_error, ('p \<times> 'a list) list) outcome" where
  "to_peers lib peers = otraverse (to_peer lib) peers"

definition pex_to_bytes :: "('p, 'a) libp2p \<Rightarrow> pex_peer list \<Rightarrow> (pex_wire_error, bytes) outcome" where
  "pex_to_bytes lib peers = or_err SerializationError (json_to_vec lib peers)"

definition pex_from_bytes :: "('p, 'a) libp2p \<Rightarrow> bytes \<Rightarrow> (pex_wire_error, pex_peer list) outcome" where
  "pex_from_bytes lib data = or_err DeserializationError (json_from_slice lib data)"

section \<open>What a manager knows\<close>

definition knows :: "('p, 'a) pex_manager \<Rightarrow> 'p \<Rightarrow> 'a list option" where
  "knows self = map_of (known_peers self)"

definition pex_inv :: "('p, 'a) pex_manager \<Rightarrow> bool" where
  "pex_inv self \<longleftrightarrow> distinct (map fst (known_peers self)) \<and> distinct (map fst (last_sent self)) \<and>
     [] \<notin> snd ` set (known_peers self)"

lemma knows_add_peer: "knows (add_peer p as self) = (if as = [] then knows self else (knows self)(p \<mapsto> as))"
  by (simp add: knows_def add_peer_def update_conv')

lemma last_sent_add_peer [simp]: "last_sent (add_peer p as self) = last_sent self"
  by (simp add: add_peer_def)

lemma knows_remove_peer: "knows (remove_peer p self) = (knows self)(p := None)"
  by (simp add: knows_def remove_peer_def delete_conv')

lemma sent_remove_peer: "map_of (last_sent (remove_peer p self)) = (map_of (last_sent self))(p := None)"
  by (simp add: remove_peer_def delete_conv')

lemma receive_pex_knows: "knows (snd (receive_pex peers self)) =
    fold (\<lambda>(p, as) m. if as = [] then m else m(p \<mapsto> as)) peers (knows self)"
  by (induction peers self rule: receive_pex.induct) (auto simp: knows_add_peer fun_upd_def split: prod.splits)

lemma snd_update_subset: "snd ` set (AList.update k v xs) \<subseteq> insert v (snd ` set xs)"
  by (induction xs) auto

lemma add_peer_inv: "pex_inv self \<Longrightarrow> pex_inv (add_peer p as self)"
  using snd_update_subset [of p as "known_peers self"]
  by (auto simp: pex_inv_def add_peer_def distinct_update)

lemma snd_delete_subset: "snd ` set (AList.delete k xs) \<subseteq> snd ` set xs"
  by (auto simp: AList.delete_eq)

lemma remove_peer_inv: "pex_inv self \<Longrightarrow> pex_inv (remove_peer p self)"
  using snd_delete_subset [of p "known_peers self"]
  by (auto simp: pex_inv_def remove_peer_def distinct_delete)

lemma fold_remove_inv: "pex_inv self \<Longrightarrow> pex_inv (fold remove_peer ps self)"
  by (induction ps arbitrary: self) (auto simp: remove_peer_inv)

lemma receive_pex_inv: "pex_inv self \<Longrightarrow> pex_inv (snd (receive_pex peers self))"
  by (induction peers self rule: receive_pex.induct) (auto simp: add_peer_inv split: prod.splits)

lemma fold_remove_knows: "knows (fold remove_peer ps self) p = (if p \<in> set ps then None else knows self p)"
  by (induction ps arbitrary: self) (auto simp: knows_remove_peer)

lemma fold_remove_sent:
  "map_of (last_sent (fold remove_peer ps self)) p = (if p \<in> set ps then None else map_of (last_sent self) p)"
  by (induction ps arbitrary: self) (auto simp: sent_remove_peer)

inductive pex_step :: "('p, 'a) pex_manager \<Rightarrow> ('p, 'a) pex_manager \<Rightarrow> bool" where
  add: "pex_step self (add_peer p as self)"
| remove: "pex_step self (remove_peer p self)"
| receive: "receive_pex peers self = (new_peers, self') \<Longrightarrow> pex_step self self'"
| mark: "pex_step self (mark_sent now p self)"
| cleanup: "cleanup_stale_peers first now age self = Ok self' \<Longrightarrow> pex_step self self'"

lemma pex_step_inv: "pex_step self self' \<Longrightarrow> pex_inv self \<Longrightarrow> pex_inv self'"
proof (induction rule: pex_step.induct)
  case (receive peers self new_peers self')
  then show ?case using receive_pex_inv [of self peers] by simp
next
  case (mark self now p)
  then show ?case by (auto simp: pex_inv_def mark_sent_def distinct_update)
next
  case (cleanup first now age self self')
  then show ?case by (auto simp: cleanup_stale_peers_def Let_def fold_remove_inv split: if_splits)
qed (simp_all add: add_peer_inv remove_peer_inv)

lemma pex_reachable_inv: "pex_step\<^sup>*\<^sup>* (pex_with_config interval n) self \<Longrightarrow> pex_inv self"
proof (induction rule: rtranclp_induct)
  case base
  show ?case by (simp add: pex_inv_def pex_with_config_def)
qed (blast intro: pex_step_inv)

section \<open>Receiving\<close>

text \<open>The last announcement of a peer that comes with an address.\<close>

definition announced :: "('p \<times> 'a list) list \<Rightarrow> 'p \<Rightarrow> 'a list option" where
  "announced peers = map_of (rev (filter (\<lambda>(_, addrs). addrs \<noteq> []) peers))"

lemma receive_pex_lookup: "knows (snd (receive_pex peers self)) = knows self ++ announced peers"
  by (induction peers self rule: receive_pex.induct)
    (auto simp: knows_add_peer announced_def map_add_def fun_eq_iff split: prod.splits option.splits)

lemma announced_None_iff: "announced peers p = None \<longleftrightarrow> (\<forall>addrs. (p, addrs) \<in> set peers \<longrightarrow> addrs = [])"
  by (force simp: announced_def map_of_eq_None_iff)

lemma receive_pex_new:
  "distinct (map fst (fst (receive_pex peers self))) \<and>
   set (map fst (fst (receive_pex peers self))) = {p. knows self p = None \<and> announced peers p \<noteq> None}"
proof (induction peers self rule: receive_pex.induct)
  case (2 p addrs peers self)
  have a: "announced ((p, addrs) # peers) q \<noteq> None \<longleftrightarrow> q = p \<and> addrs \<noteq> [] \<or> announced peers q \<noteq> None" for q
    unfolding announced_None_iff by auto
  show ?case
  proof (cases "addrs = []")
    case True
    then have "announced ((p, addrs) # peers) q \<noteq> None \<longleftrightarrow> announced peers q \<noteq> None" for q
      using a [of q] by blast
    with True 2 show ?thesis by simp
  next
    case False
    obtain new_peers self' where r: "receive_pex peers (add_peer p addrs self) = (new_peers, self')"
      by fastforce
    have "distinct (map fst new_peers)" and
      "set (map fst new_peers) = {q. q \<noteq> p \<and> knows self q = None \<and> announced peers q \<noteq> None}"
      using 2(2) [OF False] False by (auto simp: r knows_add_peer)
    moreover have "{q. knows self q = None \<and> announced ((p, addrs) # peers) q \<noteq> None} =
        (if knows self p = None then {p} else {}) \<union> {q. q \<noteq> p \<and> knows self q = None \<and> announced peers q \<noteq> None}"
      using False unfolding a by auto
    ultimately show ?thesis
      using False by (simp add: r knows_def)
  qed
qed (simp add: announced_def)

lemma receive_pex_sent: "last_sent (snd (receive_pex peers self)) = last_sent self"
  by (induction peers self rule: receive_pex.induct) (auto split: prod.splits)

section \<open>Sharing\<close>

lemma order_set: "mset (order xs) = mset xs \<Longrightarrow> set (order xs) = set xs \<and> length (order xs) = length xs"
  using mset_eq_setD mset_eq_length by blast

lemma keys_without: "map fst (filter (\<lambda>(p, _). p \<noteq> q) xs) = removeAll q (map fst xs)"
  by (induction xs) auto

lemma peers_to_share_facts:
  assumes inv: "pex_inv self" and ord: "\<And>xs. mset (order xs) = mset xs"
  shows "length (peers_to_share order q self) =
      min (pex_max_share self) (card (dom (knows self) - {q}))"
    and "distinct (map fst (peers_to_share order q self))"
    and "(p, as) \<in> set (peers_to_share order q self) \<Longrightarrow> p \<noteq> q \<and> knows self p = Some as \<and> as \<noteq> []"
proof -
  let ?k = "known_peers self" and ?f = "filter (\<lambda>(p, _). p \<noteq> q)"
  have d: "distinct (map fst ?k)" and ne: "[] \<notin> snd ` set ?k"
    using inv by (simp_all add: pex_inv_def)
  have o: "mset (map fst (?f (order ?k))) = mset (map fst (?f ?k))"
    using ord by (simp add: mset_filter)
  have df: "distinct (map fst (?f ?k))" "set (map fst (?f ?k)) = dom (knows self) - {q}"
    using d by (simp_all add: keys_without distinct_removeAll knows_def dom_map_of_conv_image_fst)
  then have "length (?f (order ?k)) = card (dom (knows self) - {q})"
    by (metis o distinct_card length_map mset_eq_length)
  then show "length (peers_to_share order q self) = min (pex_max_share self) (card (dom (knows self) - {q}))"
    by (simp add: peers_to_share_def)
  have "distinct (map fst (?f (order ?k)))"
    using o df(1) by (metis mset_eq_imp_distinct_iff)
  then show "distinct (map fst (peers_to_share order q self))"
    by (simp add: peers_to_share_def take_map [symmetric] distinct_take)
  assume "(p, as) \<in> set (peers_to_share order q self)"
  then have "(p, as) \<in> set ?k" and "p \<noteq> q"
    using order_set [of order ?k] ord by (auto simp: peers_to_share_def dest!: in_set_takeD)
  then show "p \<noteq> q \<and> knows self p = Some as \<and> as \<noteq> []"
    using d ne by (auto simp: knows_def image_iff)
qed

lemma wire_roundtrip:
  assumes "\<And>p. peer_from_bytes lib (peer_to_bytes lib p) = Inr p"
    and "\<And>a. addr_try_from lib (addr_to_vec lib a) = Inr a"
  shows "to_peers lib (from_peers lib peers) = Ok peers"
proof -
  have "otraverse (\<lambda>b. or_err InvalidAddress (addr_try_from lib b)) (map (addr_to_vec lib) as) = Ok as" for as
    using assms(2) by (simp add: otraverse_eq_Ok list_all2_conv_all_nth)
  then have "to_peer lib (from_peer lib p as) = Ok (p, as)" for p as
    using assms(1) by (simp add: to_peer_def from_peer_def)
  then show ?thesis
    by (auto simp: to_peers_def from_peers_def otraverse_eq_Ok list_all2_conv_all_nth split: prod.splits)
qed

section \<open>The exchange\<close>

text \<open>
  receiving an announcement, exactly: the peers reported as new are those not known before for
  which some entry has an address, each once; afterwards every announced peer is known under the
  addresses of its last such entry, even if it was known under others before and whoever sent the
  message; no other peer and no sending time changes.
\<close>

theorem receive_pex_exact:
  "distinct (map fst (fst (receive_pex peers self))) \<and>
   fst ` set (fst (receive_pex peers self)) = {p. knows self p = None \<and> announced peers p \<noteq> None} \<and>
   knows (snd (receive_pex peers self)) = knows self ++ announced peers \<and>
   last_sent (snd (receive_pex peers self)) = last_sent self"
  using receive_pex_new [of peers self] by (simp add: receive_pex_lookup receive_pex_sent)

lemma announced_distinct:
  assumes "distinct (map fst peers)" and "(p, as) \<in> set peers" and "as \<noteq> []"
  shows "announced peers p = Some as"
proof -
  have "distinct (map fst (filter (\<lambda>(_, addrs). addrs \<noteq> []) peers))"
    using assms(1) by (rule distinct_map_filter)
  then show ?thesis
    using assms(2,3) unfolding announced_def by (intro map_of_is_SomeI) (auto simp: rev_map [symmetric])
qed

text \<open>
  C20: what one node shares is what the other learns. If the encodings of \<open>libp2p\<close> and JSON decode what
  they encode, then the message a reachable manager makes for a peer decodes to as many of the peers
  it knows as it may share, never the addressee itself, and after receiving it the addressee knows
  each of them under the sender's addresses and knows the others as before.
\<close>

theorem exchange_spreads_knowledge:
  assumes "pex_step\<^sup>*\<^sup>* (pex_with_config interval n) sender" and "\<And>xs. mset (order xs) = mset xs"
    and "\<And>p. peer_from_bytes lib (peer_to_bytes lib p) = Inr p" "\<And>a. addr_try_from lib (addr_to_vec lib a) = Inr a"
    and "\<And>ps data. json_to_vec lib ps = Inr data \<Longrightarrow> json_from_slice lib data = Inr ps"
    and "pex_to_bytes lib (from_peers lib (peers_to_share order me sender)) = Ok data"
  shows "\<exists>peers. obind (pex_from_bytes lib data) (to_peers lib) = Ok peers \<and>
    length peers = min (pex_max_share sender) (card (dom (knows sender) - {me})) \<and>
    (\<forall>(p, as) \<in> set peers. p \<noteq> me \<and> knows sender p = Some as \<and> knows (snd (receive_pex peers receiver)) p = Some as) \<and>
    (\<forall>p. p \<notin> fst ` set peers \<longrightarrow> knows (snd (receive_pex peers receiver)) p = knows receiver p)"
proof -
  let ?peers = "peers_to_share order me sender"
  note facts = peers_to_share_facts [OF pex_reachable_inv [OF assms(1)], of order, OF assms(2)]
  have "json_to_vec lib (from_peers lib ?peers) = Inr data"
    using assms(6) by (cases "json_to_vec lib (from_peers lib ?peers)") (auto simp: pex_to_bytes_def)
  then have "obind (pex_from_bytes lib data) (to_peers lib) = Ok ?peers"
    using assms(5) by (simp add: pex_from_bytes_def wire_roundtrip [of lib, OF assms(3,4)])
  moreover have "p \<noteq> me \<and> knows sender p = Some as \<and> knows (snd (receive_pex ?peers receiver)) p = Some as"
    if "(p, as) \<in> set ?peers" for p as
    using facts(3) [OF that] announced_distinct [OF facts(2) that] by (simp add: receive_pex_lookup map_add_def)
  moreover have "knows (snd (receive_pex ?peers receiver)) p = knows receiver p" if "p \<notin> fst ` set ?peers" for p
    using that announced_None_iff [of ?peers p] by (force simp: receive_pex_lookup map_add_def)
  ultimately show ?thesis
    using facts(1) [of me] by blast
qed

definition sample_lib :: "(u8, u8) libp2p" where
  "sample_lib = \<lparr>peer_to_bytes = \<lambda>p. [p], peer_from_bytes = \<lambda>b. Inr (b ! 0), addr_to_vec = \<lambda>a. [a],
     addr_try_from = \<lambda>b. Inr (b ! 0),
     json_to_vec = \<lambda>ps. if ps = [\<lparr>peer_id_bytes = [3], addr_bytes = [[7]]\<rparr>] then Inr [1] else Inl ''no'',
     json_from_slice = \<lambda>b. Inr [\<lparr>peer_id_bytes = [3], addr_bytes = [[7]]\<rparr>]\<rparr>"

theorem exchange_spreads_knowledge_witness:
  "\<exists>peers. obind (pex_from_bytes sample_lib [1]) (to_peers sample_lib) = Ok peers \<and> length peers = 1 \<and>
    (\<forall>(p, as) \<in> set peers. knows (snd (receive_pex peers (pex_new :: (u8, u8) pex_manager))) p = Some as)"
proof -
  let ?s = "add_peer 3 [7] (add_peer 9 [5] (pex_with_config 60 20)) :: (u8, u8) pex_manager"
  have "pex_step\<^sup>*\<^sup>* (pex_with_config 60 20) ?s"
    by (rule rtranclp.rtrancl_into_rtrancl [OF r_into_rtranclp]) (rule pex_step.add)+
  moreover have "pex_to_bytes sample_lib (from_peers sample_lib (peers_to_share (\<lambda>xs. xs) 9 ?s)) = Ok [1]"
    by (simp add: pex_to_bytes_def from_peers_def from_peer_def peers_to_share_def add_peer_def pex_with_config_def
        sample_lib_def)
  moreover have "dom (knows ?s) - {9} = {3}"
    by (auto simp: knows_def add_peer_def pex_with_config_def split: if_splits)
  then have "min (pex_max_share ?s) (card (dom (knows ?s) - {9})) = 1"
    by (simp add: add_peer_def pex_with_config_def)
  ultimately show ?thesis
    using exchange_spreads_knowledge [of 60 20 ?s "\<lambda>xs. xs" sample_lib 9 "[1]" pex_new]
    by (fastforce simp: sample_lib_def split: if_splits)
qed

text \<open>
  stale peers are judged by when something was last sent to them, not by when they were last seen.
  In every reachable manager the clean-up forgets exactly the peers to which the last exchange was
  sent before the cut-off, even a peer whose addresses were announced a moment ago; a peer to which
  nothing was ever sent is kept for ever.
\<close>

theorem cleanup_judges_by_sending:
  assumes "pex_step\<^sup>*\<^sup>* (pex_with_config interval n) self"
    and "cleanup_stale_peers first_instant now max_age (add_peer q addrs self) = Ok self'"
  shows "knows self' p = (case map_of (last_sent self) p of
      Some t \<Rightarrow> if t < now - max_age then None else knows (add_peer q addrs self) p
    | None \<Rightarrow> knows (add_peer q addrs self) p)"
proof -
  let ?stale = "map fst (filter (\<lambda>(_, t). t < now - max_age) (last_sent self))"
  have "self' = fold remove_peer ?stale (add_peer q addrs self)"
    using assms(2) by (auto simp: cleanup_stale_peers_def Let_def split: if_splits)
  moreover have "distinct (map fst (last_sent self))"
    using pex_reachable_inv [OF assms(1)] by (simp add: pex_inv_def)
  then have "p \<in> set ?stale \<longleftrightarrow> (\<exists>t. map_of (last_sent self) p = Some t \<and> t < now - max_age)"
    by (auto simp: image_iff dest!: map_of_is_SomeI map_of_SomeD)
  ultimately show ?thesis
    by (simp only: fold_remove_knows) (auto split: option.splits)
qed

theorem cleanup_judges_by_sending_witness:
  "knows (case cleanup_stale_peers 0 500 100 (add_peer 3 [8] (mark_sent 10 3 (add_peer 3 [7] (pex_with_config 60 20))))
      of Ok self \<Rightarrow> self) (3 :: u8) = (None :: u8 list option)"
proof -
  let ?s = "mark_sent 10 3 (add_peer 3 [7] (pex_with_config 60 20)) :: (u8, u8) pex_manager"
  have "pex_step\<^sup>*\<^sup>* (pex_with_config 60 20) ?s"
    by (rule rtranclp.rtrancl_into_rtrancl [OF r_into_rtranclp]) (rule pex_step.add pex_step.mark)+
  moreover obtain self' where "cleanup_stale_peers 0 500 100 (add_peer 3 [8] ?s) = Ok self'"
    by (simp add: cleanup_stale_peers_def)
  ultimately show ?thesis
    using cleanup_judges_by_sending [of 60 20 ?s 0 500 100 3 "[8]" self' 3]
    by (simp add: mark_sent_def pex_with_config_def add_peer_def)
qed

end
