(* ===== verification/Network.thy ===== *)
theory Network
  imports Prelude
begin

text \<open>
  \<open>crates/network\<close>: the combined behaviour with one or two Kademlia tables (\<open>behaviour.rs\<close>), the
  building of a swarm (\<open>node.rs\<close>) and bootstrap addresses (\<open>bootstrap.rs\<close>). libp2p is not in the
  repository: a Kademlia table of type \<open>'k\<close> is used through the record \<open>dht_ops\<close> of the calls the code
  makes on it, gossipsub and rendezvous through function arguments, peer ids and multiaddresses are
  type variables, and a multiaddress that is taken apart is the list of its components.
\<close>

section \<open>The behaviour and its tables\<close>

record 'p kad_record =
  record_key :: bytes
  record_value :: bytes
  publisher :: "'p option"
  expires :: "nat option"

record ('p, 'a, 'k, 'q, 'e) dht_ops =
  kad_put_record :: "'p kad_record \<Rightarrow> 'k \<Rightarrow> ('e + 'q) \<times> 'k"
  kad_get_record :: "bytes \<Rightarrow> 'k \<Rightarrow> 'q \<times> 'k"
  kad_start_providing :: "bytes \<Rightarrow> 'k \<Rightarrow> ('e + 'q) \<times> 'k"
  kad_stop_providing :: "bytes \<Rightarrow> 'k \<Rightarrow> 'k"
  kad_get_providers :: "bytes \<Rightarrow> 'k \<Rightarrow> 'q \<times> 'k"
  kad_add_address :: "'p \<Rightarrow> 'a \<Rightarrow> 'k \<Rightarrow> 'k"
  kad_bootstrap :: "'k \<Rightarrow> ('e + 'q) \<times> 'k"

text \<open>The messages of \<open>shared.rs\<close>; \<open>'c\<close> and \<open>'d\<close> are the senders of oneshot channels.\<close>

datatype ('p, 'a, 'c, 'd) shared_swarm_command =
    Dial 'p
  | Disconnect 'p
  | AddAddress 'p 'a
  | PublishGossipsub string bytes
  | SubscribeGossipsub string
  | UnsubscribeGossipsub string
  | GetRecordSecondary bytes
  | GetProvidersSecondary bytes
  | BootstrapSecondary
  | PutRecordSecondary "'p kad_record"
  | StartProvidingSecondary bytes
  | StopProvidingSecondary bytes
  | GetConnectedPeers 'c
  | IsConnected 'p 'd
  | ListenOn 'a

datatype auto_nat_status = PublicNat | PrivateNat | UnknownNat

datatype ('p, 'a, 't) shared_swarm_event =
    ConnectionEstablished 'p
  | ConnectionClosed 'p
  | GossipsubMessage 't bytes "'p option"
  | MdnsDiscovered "('p \<times> 'a) list"
  | MdnsExpired "('p \<times> 'a) list"
  | KademliaSecondaryRecordFound bytes bytes
  | KademliaSecondaryProvidersFound bytes "'p list"
  | AutoNatStatusChanged auto_nat_status

record kad_config =
  kad_protocol :: string
  query_timeout :: nat
  max_packet_size :: "nat option"
  max_value_bytes :: "nat option"
  max_records :: "nat option"
  server_mode :: bool

record autonat_config =
  retry_interval :: nat
  refresh_interval :: nat
  confidence_max :: nat

record identify_config =
  identify_protocol :: string
  agent_version :: string

text \<open>The parts without state of their own are kept with what configures them.\<close>

record ('p, 'k, 'm, 'g, 'c, 'v, 'l) craft_behaviour =
  kademlia :: 'k
  kademlia_secondary :: "'k option"
  identify :: identify_config
  mdns :: "'m option"
  gossipsub :: 'g
  rendezvous_client :: 'c
  rendezvous_server :: 'v
  relay_client :: 'l
  dcutr :: 'p
  autonat :: "'p \<times> autonat_config"

text \<open>
  The constructors libp2p offers: a Kademlia table, mDNS (which opens a socket), gossipsub (which checks
  its configuration), the rendezvous client and server, from the peer id and a key pair.
\<close>

record ('p, 'k, 'm, 'g, 'c, 'v, 'key) parts =
  new_kad :: "'p \<Rightarrow> kad_config \<Rightarrow> 'k"
  new_mdns :: "'p \<Rightarrow> string + 'm"
  new_gossipsub :: "'key \<Rightarrow> nat \<Rightarrow> string + 'g"
  new_rendezvous_client :: "'key \<Rightarrow> 'c"
  new_rendezvous_server :: 'v

text \<open>\<open>StreamProtocol::try_from_owned\<close> accepts the names that begin with a slash.\<close>

definition stream_protocol :: "string \<Rightarrow> (string, string) outcome" where
  "stream_protocol s = (if s \<noteq> [] \<and> hd s = CHR ''/'' then Ok s else Err ''invalid protocol'')"

definition from_result :: "('e \<Rightarrow> 'f) \<Rightarrow> 'e + 'a \<Rightarrow> ('f, 'a) outcome" where
  "from_result f r = (case r of Inl e \<Rightarrow> Err (f e) | Inr x \<Rightarrow> Ok x)"

definition kad_name :: "string \<Rightarrow> string" where
  "kad_name prefix = ''/'' @ prefix @ ''/kad/1.0.0''"

definition build_full ::
    "('p, 'k, 'm, 'g, 'c, 'v, 'key) parts \<Rightarrow> string \<Rightarrow> string \<Rightarrow> string option \<Rightarrow> 'p \<Rightarrow> 'key \<Rightarrow> 'l \<Rightarrow> bool \<Rightarrow>
      (string, ('p, 'k, 'm, 'g, 'c, 'v, 'l) craft_behaviour) outcome" where
  "build_full lib version protocol_prefix secondary_prefix local_peer_id keypair relay enable_mdns =
     obind (stream_protocol (kad_name protocol_prefix)) (\<lambda>protocol.
     let kademlia = new_kad lib local_peer_id \<lparr>kad_protocol = protocol, query_timeout = 60,
           max_packet_size = Some (512 * 1024), max_value_bytes = Some (256 * 1024), max_records = Some 4096,
           server_mode = False\<rparr> in
     obind (case secondary_prefix of
         None \<Rightarrow> Ok None
       | Some sec_prefix \<Rightarrow> obind (stream_protocol (kad_name sec_prefix)) (\<lambda>protocol2.
           Ok (Some (new_kad lib local_peer_id \<lparr>kad_protocol = protocol2, query_timeout = 60,
             max_packet_size = None, max_value_bytes = None, max_records = None, server_mode = True\<rparr>)))) (\<lambda>secondary.
     obind (if enable_mdns then omap Some (from_result id (new_mdns lib local_peer_id)) else Ok None) (\<lambda>mdns.
     obind (from_result id (new_gossipsub lib keypair 10)) (\<lambda>gossipsub.
       Ok \<lparr>kademlia = kademlia, kademlia_secondary = secondary,
           identify = \<lparr>identify_protocol = ''/'' @ protocol_prefix @ ''/id/1.0.0'',
             agent_version = protocol_prefix @ ''/'' @ version\<rparr>,
           mdns = mdns, gossipsub = gossipsub, rendezvous_client = new_rendezvous_client lib keypair,
           rendezvous_server = new_rendezvous_server lib, relay_client = relay, dcutr = local_peer_id,
           autonat = (local_peer_id, \<lparr>retry_interval = 60, refresh_interval = 300, confidence_max = 3\<rparr>)\<rparr>))))"

definition build_with_options where
  "build_with_options lib version protocol_prefix local_peer_id keypair relay enable_mdns =
     build_full lib version protocol_prefix None local_peer_id keypair relay enable_mdns"

definition build where
  "build lib version protocol_prefix local_peer_id keypair relay =
     build_with_options lib version protocol_prefix local_peer_id keypair relay True"

definition build_dual_kad where
  "build_dual_kad lib version primary_prefix secondary_prefix local_peer_id keypair relay enable_mdns =
     build_full lib version primary_prefix (Some secondary_prefix) local_peer_id keypair relay enable_mdns"

text \<open>The id gossipsub knows a message by: the hash of its data and, if it names one, its source.\<close>

record 'p gossip_message =
  msg_data :: bytes
  msg_source :: "'p option"
  sequence_number :: "u64 option"
  msg_topic :: string

definition message_id :: "(bytes \<Rightarrow> 'p option \<Rightarrow> u64) \<Rightarrow> 'p gossip_message \<Rightarrow> bytes" where
  "message_id hash msg = be_bytes 8 (hash (msg_data msg) (msg_source msg))"

section \<open>Operations on the tables\<close>

text \<open>\<open>Instant + Duration\<close>, in seconds, panics where the sum is not representable.\<close>

definition expiry :: "nat \<Rightarrow> nat option \<Rightarrow> ('e, nat option) outcome" where
  "expiry now ttl = (case ttl of None \<Rightarrow> Ok None
     | Some d \<Rightarrow> if now + d < 2 ^ 63 then Ok (Some (now + d)) else Panic)"

definition on_primary :: "('k \<Rightarrow> 'r \<times> 'k) \<Rightarrow> ('p, 'k, 'm, 'g, 'c, 'v, 'l) craft_behaviour \<Rightarrow>
    'r \<times> ('p, 'k, 'm, 'g, 'c, 'v, 'l) craft_behaviour" where
  "on_primary f self = (case f (kademlia self) of (r, k) \<Rightarrow> (r, self\<lparr>kademlia := k\<rparr>))"

text \<open>\<open>Toggle::as_mut().map(..)\<close>: nothing happens if the second table is disabled.\<close>

definition on_secondary :: "('k \<Rightarrow> 'r \<times> 'k) \<Rightarrow> ('p, 'k, 'm, 'g, 'c, 'v, 'l) craft_behaviour \<Rightarrow>
    'r option \<times> ('p, 'k, 'm, 'g, 'c, 'v, 'l) craft_behaviour" where
  "on_secondary f self = (case kademlia_secondary self of
     None \<Rightarrow> (None, self)
   | Some k2 \<Rightarrow> (case f k2 of (r, k) \<Rightarrow> (Some r, self\<lparr>kademlia_secondary := Some k\<rparr>)))"

definition put_record where
  "put_record ops now key value publisher_id ttl self =
     obind (expiry now ttl) (\<lambda>expires.
       Ok (on_primary (kad_put_record ops
         \<lparr>record_key = key, record_value = value, publisher = Some publisher_id, expires = expires\<rparr>) self))"

definition get_record where
  "get_record ops key self = on_primary (kad_get_record ops key) self"

definition start_providing where
  "start_providing ops key self = on_primary (kad_start_providing ops key) self"

definition stop_providing where
  "stop_providing ops key self = snd (on_primary (\<lambda>k. ((), kad_stop_providing ops key k)) self)"

definition get_providers where
  "get_providers ops key self = on_primary (kad_get_providers ops key) self"

definition bootstrap where
  "bootstrap ops self = on_primary (kad_bootstrap ops) self"

definition put_record_secondary where
  "put_record_secondary ops now key value publisher_id ttl self =
     (case kademlia_secondary self of
        None \<Rightarrow> Ok (None, self)
      | Some _ \<Rightarrow> obind (expiry now ttl) (\<lambda>expires.
          Ok (on_secondary (kad_put_record ops
            \<lparr>record_key = key, record_value = value, publisher = Some publisher_id, expires = expires\<rparr>) self)))"

definition get_record_secondary where
  "get_record_secondary ops key self = on_secondary (kad_get_record ops key) self"

definition start_providing_secondary where
  "start_providing_secondary ops key self = on_secondary (kad_start_providing ops key) self"

definition stop_providing_secondary where
  "stop_providing_secondary ops key self = snd (on_secondary (\<lambda>k. ((), kad_stop_providing ops key k)) self)"

definition get_providers_secondary where
  "get_providers_secondary ops key self = on_secondary (kad_get_providers ops key) self"

definition bootstrap_secondary where
  "bootstrap_secondary ops self = on_secondary (kad_bootstrap ops) self"

definition has_secondary_kad where
  "has_secondary_kad self = (kademlia_secondary self \<noteq> None)"

text \<open>The table lent for reading, and for \<open>f\<close> to work on.\<close>

definition kademlia_secondary_ref :: "('p, 'k, 'm, 'g, 'c, 'v, 'l) craft_behaviour \<Rightarrow> 'k option" where
  "kademlia_secondary_ref self = kademlia_secondary self"

definition kademlia_secondary_mut :: "('k \<Rightarrow> 'k) \<Rightarrow> ('p, 'k, 'm, 'g, 'c, 'v, 'l) craft_behaviour \<Rightarrow>
    ('p, 'k, 'm, 'g, 'c, 'v, 'l) craft_behaviour" where
  "kademlia_secondary_mut f self = self\<lparr>kademlia_secondary := map_option f (kademlia_secondary self)\<rparr>"

definition add_address ::
    "('p, 'a, 'k, 'q, 'e) dht_ops \<Rightarrow> 'p \<Rightarrow> 'a \<Rightarrow> ('p, 'k, 'm, 'g, 'c, 'v, 'l) craft_behaviour \<Rightarrow>
      ('p, 'k, 'm, 'g, 'c, 'v, 'l) craft_behaviour" where
  "add_address ops peer_id addr self =
     (let self = self\<lparr>kademlia := kad_add_address ops peer_id addr (kademlia self)\<rparr> in
      case kademlia_secondary self of
        None \<Rightarrow> self
      | Some kad2 \<Rightarrow> self\<lparr>kademlia_secondary := Some (kad_add_address ops peer_id addr kad2)\<rparr>)"

text \<open>The topic is named as it is given; gossipsub does the rest.\<close>

definition on_gossipsub :: "('g \<Rightarrow> 'r \<times> 'g) \<Rightarrow> ('p, 'k, 'm, 'g, 'c, 'v, 'l) craft_behaviour \<Rightarrow>
    'r \<times> ('p, 'k, 'm, 'g, 'c, 'v, 'l) craft_behaviour" where
  "on_gossipsub f self = (case f (gossipsub self) of (r, g) \<Rightarrow> (r, self\<lparr>gossipsub := g\<rparr>))"

definition subscribe_topic where
  "subscribe_topic subscribe topic self = on_gossipsub (subscribe topic) self"

definition unsubscribe_topic where
  "unsubscribe_topic unsubscribe topic self = on_gossipsub (unsubscribe topic) self"

definition publish_to_topic where
  "publish_to_topic publish topic data self = on_gossipsub (publish topic data) self"

definition register_with_rendezvous where
  "register_with_rendezvous new_namespace register ns rendezvous_peer self =
     (case new_namespace ns of
        None \<Rightarrow> Panic
      | Some n \<Rightarrow> (case register n rendezvous_peer (rendezvous_client self) of
          (r, c) \<Rightarrow> Ok (r, self\<lparr>rendezvous_client := c\<rparr>)))"

definition discover_from_rendezvous where
  "discover_from_rendezvous new_namespace discover ns rendezvous_peer cookie self =
     (case new_namespace ns of
        None \<Rightarrow> Panic
      | Some n \<Rightarrow> Ok (self\<lparr>rendezvous_client := discover n cookie rendezvous_peer (rendezvous_client self)\<rparr>))"

lemma kad_name_inject: "kad_name p = kad_name q \<longleftrightarrow> p = q"
  by (simp add: kad_name_def)

lemma stream_protocol_kad [simp]: "stream_protocol (kad_name p) = Ok (kad_name p)"
  by (simp add: stream_protocol_def kad_name_def)

section \<open>Events\<close>

text \<open>
  Events of the parts are converted by the instance of \<open>From\<close> for their type, which is what the derived
  behaviour does with the event of each of its fields; \<open>Toggle\<close> keeps the type of the event.
\<close>

datatype 'x lib_event =
    Kad_event 'x | Identify_event 'x | Mdns_event 'x | Gossipsub_event 'x | Rendezvous_client_event 'x
  | Rendezvous_server_event 'x | Relay_client_event 'x | Dcutr_event 'x | Autonat_event 'x | Unit_event

datatype 'x craft_event =
    Kademlia 'x | KademliaSecondary 'x | Identify 'x | Mdns 'x | Gossipsub 'x | RendezvousClient 'x
  | RendezvousServer 'x | RelayClient 'x | Dcutr 'x | AutoNat 'x | Stream

fun craft_event_from :: "'x lib_event \<Rightarrow> 'x craft_event" where
  "craft_event_from (Kad_event e) = Kademlia e"
| "craft_event_from (Identify_event e) = Identify e"
| "craft_event_from (Mdns_event e) = Mdns e"
| "craft_event_from (Gossipsub_event e) = Gossipsub e"
| "craft_event_from (Rendezvous_client_event e) = RendezvousClient e"
| "craft_event_from (Rendezvous_server_event e) = RendezvousServer e"
| "craft_event_from (Relay_client_event e) = RelayClient e"
| "craft_event_from (Dcutr_event e) = Dcutr e"
| "craft_event_from (Autonat_event e) = AutoNat e"
| "craft_event_from Unit_event = Stream"

datatype part =
  Kademlia_part | Secondary_part | Identify_part | Mdns_part | Gossipsub_part | Rendezvous_client_part
  | Rendezvous_server_part | Relay_client_part | Dcutr_part | Autonat_part | Stream_part

fun part_event :: "part \<Rightarrow> 'x \<Rightarrow> 'x lib_event" where
  "part_event Kademlia_part e = Kad_event e"
| "part_event Secondary_part e = Kad_event e"
| "part_event Identify_part e = Identify_event e"
| "part_event Mdns_part e = Mdns_event e"
| "part_event Gossipsub_part e = Gossipsub_event e"
| "part_event Rendezvous_client_part e = Rendezvous_client_event e"
| "part_event Rendezvous_server_part e = Rendezvous_server_event e"
| "part_event Relay_client_part e = Relay_client_event e"
| "part_event Dcutr_part e = Dcutr_event e"
| "part_event Autonat_part e = Autonat_event e"
| "part_event Stream_part e = Unit_event"

section \<open>Building a swarm\<close>

datatype network_error =
    SwarmBuildError string | ListenError string | DialError string | DhtError string | GossipsubError string
  | BootstrapError string | TransportError string

record ('p, 'a) network_config =
  protocol_prefix :: string
  secondary_protocol_prefix :: "string option"
  listen_addrs :: "'a list"
  bootstrap_peers :: "('p \<times> 'a) list"
  enable_mdns :: bool

definition default_network_config :: "(string \<Rightarrow> 'a option) \<Rightarrow> ('e, ('p, 'a) network_config) outcome" where
  "default_network_config parse = (case parse ''/ip4/0.0.0.0/tcp/0'' of
     None \<Rightarrow> Panic
   | Some addr \<Rightarrow> Ok \<lparr>protocol_prefix = ''craftec'', secondary_protocol_prefix = None, listen_addrs = [addr],
       bootstrap_peers = [], enable_mdns = True\<rparr>)"

record yamux_config =
  max_num_streams :: nat
  receive_window_size :: nat
  max_buffer_size :: nat

definition yamux_settings :: yamux_config where
  "yamux_settings = \<lparr>max_num_streams = 4096, receive_window_size = 16 * 1024 * 1024, max_buffer_size = 16 * 1024 * 1024\<rparr>"

record ('a, 'b) swarm =
  behaviour :: 'b
  listeners :: "'a list"

text \<open>\<open>listen_on\<close> answers \<open>None\<close>, or the error of the transport.\<close>

fun listen_all :: "('a \<Rightarrow> string option) \<Rightarrow> 'a list \<Rightarrow> ('a, 'b) swarm \<Rightarrow> (network_error, ('a, 'b) swarm) outcome" where
  "listen_all listen_on [] s = Ok s"
| "listen_all listen_on (addr # addrs) s =
     (case listen_on addr of
        Some e \<Rightarrow> Err (ListenError e)
      | None \<Rightarrow> listen_all listen_on addrs (s\<lparr>listeners := listeners s @ [addr]\<rparr>))"

definition add_bootstrap_peers where
  "add_bootstrap_peers ops ps s =
     fold (\<lambda>(peer_id, addr) s. s\<lparr>behaviour := add_address ops peer_id addr (behaviour s)\<rparr>) ps s"

text \<open>The steps of the swarm builder that can fail before the behaviour is built are \<open>tcp\<close> and \<open>relay\<close>.\<close>

definition build_swarm where
  "build_swarm lib ops version peer_of debug tcp relay listen_on keypair config =
     (let local_peer_id = peer_of keypair in
      obind (from_result SwarmBuildError tcp) (\<lambda>_ :: unit.
      obind (from_result SwarmBuildError relay) (\<lambda>relay.
      obind (map_err (\<lambda>e. SwarmBuildError (debug e))
        (case secondary_protocol_prefix config of
           Some sec \<Rightarrow> build_dual_kad lib version (protocol_prefix config) sec (peer_of keypair) keypair relay (enable_mdns config)
         | None \<Rightarrow> build_with_options lib version (protocol_prefix config) (peer_of keypair) keypair relay (enable_mdns config)))
        (\<lambda>b.
      obind (listen_all listen_on (listen_addrs config) \<lparr>behaviour = b, listeners = []\<rparr>) (\<lambda>s.
        Ok (add_bootstrap_peers ops (bootstrap_peers config) s, local_peer_id))))))"

section \<open>Bootstrap addresses\<close>

text \<open>The components of a multiaddress: \<open>/p2p/..\<close> and all others.\<close>

datatype ('p, 'o) component = P2p 'p | Other 'o

fun is_p2p :: "('p, 'o) component \<Rightarrow> bool" where
  "is_p2p (P2p p) = True"
| "is_p2p (Other c) = False"

fun first_peer :: "('p, 'o) component list \<Rightarrow> 'p option" where
  "first_peer [] = None"
| "first_peer (P2p p # cs) = Some p"
| "first_peer (Other c # cs) = first_peer cs"

definition parse_bootstrap_addr ::
    "(string \<Rightarrow> ('p, 'o) component list option) \<Rightarrow> string \<Rightarrow> ('p \<times> ('p, 'o) component list) option" where
  "parse_bootstrap_addr parse addr_str =
     (case parse addr_str of
        None \<Rightarrow> None
      | Some addr \<Rightarrow> (case first_peer addr of
          None \<Rightarrow> None
        | Some peer_id \<Rightarrow> Some (peer_id, filter (\<lambda>c. \<not> is_p2p c) addr)))"

definition parse_bootstrap_nodes where
  "parse_bootstrap_nodes parse addrs = List.map_filter (parse_bootstrap_addr parse) addrs"

definition make_bootstrap_addr :: "string \<Rightarrow> u16 \<Rightarrow> string \<Rightarrow> string" where
  "make_bootstrap_addr ip port peer_id =
     ''/ip4/'' @ ip @ ''/tcp/'' @ dec_string (unat port) @ ''/p2p/'' @ peer_id"

definition default_bootstrap_nodes :: "string list" where
  "default_bootstrap_nodes = []"

section \<open>Properties\<close>

lemma listen_all_Ok:
  "listen_all listen_on addrs s = Ok s' \<longleftrightarrow>
    list_all (\<lambda>a. listen_on a = None) addrs \<and> s' = s\<lparr>listeners := listeners s @ addrs\<rparr>"
  by (induction addrs arbitrary: s) (auto split: option.splits)

lemma listen_all_Err:
  "listen_all listen_on addrs s = Err e \<Longrightarrow> \<exists>a \<in> set addrs. \<exists>m. listen_on a = Some m \<and> e = ListenError m"
  by (induction addrs arbitrary: s) (auto split: option.splits)

lemma listen_all_no_panic: "listen_all listen_on addrs s \<noteq> Panic"
  by (induction addrs arbitrary: s) (auto split: option.splits)

lemma on_primary_secondary: "on_primary f b = (r, b') \<Longrightarrow> kademlia_secondary b' = kademlia_secondary b"
  by (cases "f (kademlia b)") (auto simp: on_primary_def)

text \<open>What is done to the borrowed second table is what the operations on that table do.\<close>

lemma kademlia_secondary_mut_ops:
  "snd (on_secondary f self) = kademlia_secondary_mut (\<lambda>k. snd (f k)) self"
  "has_secondary_kad self \<longleftrightarrow> kademlia_secondary_ref self \<noteq> None"
  "kademlia_secondary_ref (kademlia_secondary_mut g self) = map_option g (kademlia_secondary_ref self)"
  by (auto simp: on_secondary_def kademlia_secondary_mut_def kademlia_secondary_ref_def has_secondary_kad_def
      split: option.split prod.split)

lemma on_secondary_primary: "on_secondary f b = (r, b') \<Longrightarrow> kademlia b' = kademlia b"
  by (cases "kademlia_secondary b"; cases "f (the (kademlia_secondary b))") (auto simp: on_secondary_def)

lemma first_peer_eq: "first_peer cs = Some p \<longleftrightarrow> (\<exists>pre post. cs = pre @ P2p p # post \<and> list_all (\<lambda>c. \<not> is_p2p c) pre)"
proof (induction cs rule: first_peer.induct)
  case (3 c cs)
  then show ?case
    by (auto simp: Cons_eq_append_conv) (metis append_Cons list.pred_inject(2) is_p2p.simps(2))
qed (auto simp: Cons_eq_append_conv)

text \<open>
  the two tables are separate. Their protocol names differ exactly if the prefixes do; every
  operation on the primary table leaves the secondary one as it is and the other way round, and
  operations on a disabled secondary table return nothing and change nothing. Only \<open>add_address\<close>
  feeds both. But an event of the secondary table reaches the application as one of the primary:
  no part emits \<open>KademliaSecondary\<close>.
\<close>

theorem tables_separate_but_events_are_not:
  shows "kad_name p = kad_name q \<longleftrightarrow> p = q"
    and "kademlia_secondary (snd (on_primary f b)) = kademlia_secondary b"
    and "kademlia (snd (on_secondary g b)) = kademlia b"
    and "\<not> has_secondary_kad b \<Longrightarrow> on_secondary g b = (None, b) \<and>
      put_record_secondary ops now key value pub ttl b = Ok (None, b)"
    and "put_record ops now key value pub ttl b = Ok (r, b') \<Longrightarrow> kademlia_secondary b' = kademlia_secondary b"
    and "put_record_secondary ops now key value pub ttl b = Ok (r', b') \<Longrightarrow> kademlia b' = kademlia b"
    and "kademlia (add_address ops peer addr b) = kad_add_address ops peer addr (kademlia b)"
    and "kademlia_secondary (add_address ops peer addr b) = map_option (kad_add_address ops peer addr) (kademlia_secondary b)"
    and "craft_event_from (part_event Secondary_part e) = Kademlia e"
    and "craft_event_from (part_event part e) \<noteq> KademliaSecondary e'"
proof -
  show prim: "kademlia_secondary (snd (on_primary f b)) = kademlia_secondary b" for f :: "'a \<Rightarrow> 'r \<times> 'a"
    by (rule on_primary_secondary [OF surjective_pairing])
  show sec: "kademlia (snd (on_secondary g b)) = kademlia b" for g :: "'a \<Rightarrow> 's \<times> 'a"
    by (rule on_secondary_primary [OF surjective_pairing])
  show "kademlia_secondary b' = kademlia_secondary b" if "put_record ops now key value pub ttl b = Ok (r, b')"
    using that by (auto simp: put_record_def dest: on_primary_secondary)
  show "kademlia b' = kademlia b" if "put_record_secondary ops now key value pub ttl b = Ok (r', b')"
    using that by (auto simp: put_record_secondary_def dest: on_secondary_primary split: option.splits)
  show "craft_event_from (part_event part e) \<noteq> KademliaSecondary e'"
    by (cases part) simp_all
qed (simp_all add: kad_name_inject has_secondary_kad_def on_secondary_def put_record_secondary_def add_address_def Let_def
    split: option.split)

text \<open>A table for concrete runs: its configuration and the addresses it was told.\<close>

definition toy_dht :: "(nat, nat, kad_config \<times> (nat \<times> nat) list, nat, string) dht_ops" where
  "toy_dht = \<lparr>kad_put_record = (\<lambda>r k. (Inr 0, k)), kad_get_record = (\<lambda>key k. (0, k)),
     kad_start_providing = (\<lambda>key k. (Inr 0, k)), kad_stop_providing = (\<lambda>key k. k),
     kad_get_providers = (\<lambda>key k. (0, k)), kad_add_address = (\<lambda>p a (c, as). (c, as @ [(p, a)])),
     kad_bootstrap = (\<lambda>k. (Inr 0, k))\<rparr>"

definition toy_parts :: "(nat, kad_config \<times> (nat \<times> nat) list, unit, unit, unit, unit, nat) parts" where
  "toy_parts = \<lparr>new_kad = (\<lambda>p c. (c, [])), new_mdns = (\<lambda>p. Inr ()), new_gossipsub = (\<lambda>key n. Inr ()),
     new_rendezvous_client = (\<lambda>key. ()), new_rendezvous_server = ()\<rparr>"

definition toy_behaviour :: "(nat, kad_config \<times> (nat \<times> nat) list, unit, unit, unit, unit, unit) craft_behaviour" where
  "toy_behaviour = (case build toy_parts ''1'' ''craftobj'' 7 7 () of Ok b \<Rightarrow> b)"

lemma toy_behaviour_single: "\<not> has_secondary_kad toy_behaviour"
  by (simp add: toy_behaviour_def has_secondary_kad_def build_def build_with_options_def build_full_def outcome_simps
      from_result_def toy_parts_def)

lemma tables_separate_but_events_are_not_witness:
  "get_record_secondary toy_dht [1] toy_behaviour = (None, toy_behaviour) \<and>
   put_record_secondary toy_dht 0 [1] [2] 7 (Some 60) toy_behaviour =
     (Ok (None, toy_behaviour) :: (unit, _) outcome)"
  using tables_separate_but_events_are_not(4) [OF toy_behaviour_single] by (simp add: get_record_secondary_def)

lemma build_full_Ok:
  "build_full lib version prefix sec peer key relay mdns_on = Ok b \<Longrightarrow>
    kademlia b = new_kad lib peer \<lparr>kad_protocol = kad_name prefix, query_timeout = 60, max_packet_size = Some (512 * 1024),
      max_value_bytes = Some (256 * 1024), max_records = Some 4096, server_mode = False\<rparr> \<and>
    kademlia_secondary b = map_option (\<lambda>p2. new_kad lib peer \<lparr>kad_protocol = kad_name p2, query_timeout = 60,
      max_packet_size = None, max_value_bytes = None, max_records = None, server_mode = True\<rparr>) sec \<and>
    (mdns b \<noteq> None \<longleftrightarrow> mdns_on)"
  by (auto simp: build_full_def Let_def split: option.splits if_splits)

lemma build_chosen:
  "(case sec of
      Some p2 \<Rightarrow> build_dual_kad lib version prefix p2 peer key relay mdns_on
    | None \<Rightarrow> build_with_options lib version prefix peer key relay mdns_on) =
   build_full lib version prefix sec peer key relay mdns_on"
  by (simp add: build_dual_kad_def build_with_options_def split: option.split)

lemma build_full_no_panic: "build_full lib version prefix sec peer key relay mdns_on \<noteq> Panic"
  by (auto simp: build_full_def from_result_def Let_def outcome_simps split: option.splits sum.splits)

lemma add_bootstrap_peers_tables:
  "kademlia (behaviour (add_bootstrap_peers ops ps s)) =
    fold (\<lambda>(p, a). kad_add_address ops p a) ps (kademlia (behaviour s))"
  "kademlia_secondary (behaviour (add_bootstrap_peers ops ps s)) =
    map_option (fold (\<lambda>(p, a). kad_add_address ops p a) ps) (kademlia_secondary (behaviour s))"
  "mdns (behaviour (add_bootstrap_peers ops ps s)) = mdns (behaviour s)"
  "listeners (add_bootstrap_peers ops ps s) = listeners s"
  by (induction ps arbitrary: s)
    (auto simp: add_bootstrap_peers_def add_address_def Let_def option.map_comp comp_def option.map_id0 split: option.split)

lemma build_swarm_exact_parts:
  shows "build_swarm lib ops version peer_of debug tcp relay listen_on keypair config = Ok (s, peer) \<Longrightarrow>
      peer = peer_of keypair \<and> listeners s = listen_addrs config \<and> (\<forall>a \<in> set (listen_addrs config). listen_on a = None) \<and>
      kademlia (behaviour s) = fold (\<lambda>(p, a). kad_add_address ops p a) (bootstrap_peers config)
        (new_kad lib peer \<lparr>kad_protocol = kad_name (protocol_prefix config), query_timeout = 60,
          max_packet_size = Some (512 * 1024), max_value_bytes = Some (256 * 1024), max_records = Some 4096, server_mode = False\<rparr>) \<and>
      kademlia_secondary (behaviour s) = map_option (\<lambda>p2. fold (\<lambda>(p, a). kad_add_address ops p a) (bootstrap_peers config)
        (new_kad lib peer \<lparr>kad_protocol = kad_name p2, query_timeout = 60,
          max_packet_size = None, max_value_bytes = None, max_records = None, server_mode = True\<rparr>))
        (secondary_protocol_prefix config) \<and>
      (mdns (behaviour s) \<noteq> None \<longleftrightarrow> enable_mdns config)"
    and "build_swarm lib ops version peer_of debug tcp relay listen_on keypair config = Err e \<Longrightarrow>
      (\<exists>m. e = SwarmBuildError m) \<or> (\<exists>a \<in> set (listen_addrs config). \<exists>m. listen_on a = Some m \<and> e = ListenError m)"
    and "build_swarm lib ops version peer_of debug tcp relay listen_on keypair config \<noteq> Panic"
proof -
  note build = build_swarm_def build_chosen Let_def
  show "peer = peer_of keypair \<and> listeners s = listen_addrs config \<and> (\<forall>a \<in> set (listen_addrs config). listen_on a = None) \<and>
      kademlia (behaviour s) = fold (\<lambda>(p, a). kad_add_address ops p a) (bootstrap_peers config)
        (new_kad lib peer \<lparr>kad_protocol = kad_name (protocol_prefix config), query_timeout = 60,
          max_packet_size = Some (512 * 1024), max_value_bytes = Some (256 * 1024), max_records = Some 4096, server_mode = False\<rparr>) \<and>
      kademlia_secondary (behaviour s) = map_option (\<lambda>p2. fold (\<lambda>(p, a). kad_add_address ops p a) (bootstrap_peers config)
        (new_kad lib peer \<lparr>kad_protocol = kad_name p2, query_timeout = 60,
          max_packet_size = None, max_value_bytes = None, max_records = None, server_mode = True\<rparr>))
        (secondary_protocol_prefix config) \<and>
      (mdns (behaviour s) \<noteq> None \<longleftrightarrow> enable_mdns config)"
    if "build_swarm lib ops version peer_of debug tcp relay listen_on keypair config = Ok (s, peer)"
  proof -
    from that obtain r b where b: "build_full lib version (protocol_prefix config) (secondary_protocol_prefix config)
        (peer_of keypair) keypair r (enable_mdns config) = Ok b"
      and "list_all (\<lambda>a. listen_on a = None) (listen_addrs config)"
      and "s = add_bootstrap_peers ops (bootstrap_peers config) \<lparr>behaviour = b, listeners = listen_addrs config\<rparr>"
      and "peer = peer_of keypair"
      by (auto simp: build listen_all_Ok)
    then show ?thesis
      using build_full_Ok [OF b] by (simp add: add_bootstrap_peers_tables list_all_iff option.map_comp comp_def)
  qed
  show "(\<exists>m. e = SwarmBuildError m) \<or> (\<exists>a \<in> set (listen_addrs config). \<exists>m. listen_on a = Some m \<and> e = ListenError m)"
    if "build_swarm lib ops version peer_of debug tcp relay listen_on keypair config = Err e"
    using that by (auto simp: build obind_eq_Err from_result_def map_err_eq_Err dest!: listen_all_Err split: sum.splits)
  show "build_swarm lib ops version peer_of debug tcp relay listen_on keypair config \<noteq> Panic"
    by (auto simp: build obind_eq_Panic from_result_def map_err_eq_Panic build_full_no_panic listen_all_no_panic split: sum.splits)
qed

definition toy_config :: "(nat, nat) network_config" where
  "toy_config = \<lparr>protocol_prefix = ''craftobj'', secondary_protocol_prefix = Some ''craftnet'', listen_addrs = [1, 2],
     bootstrap_peers = [(8, 80), (9, 90)], enable_mdns = False\<rparr>"

text \<open>
  a swarm that was built listens on every configured address, knows every bootstrap peer in
  both of its tables, in the order of the configuration, has a second table exactly if a second
  prefix is configured, under that prefix, and mDNS exactly if it is enabled. What fails is an
  error: of an address that cannot be listened on, or of the builder; nothing panics.
\<close>

theorem build_swarm_exact:
  "(\<forall>s peer. build_swarm lib ops version peer_of debug tcp relay listen_on keypair config = Ok (s, peer) \<longrightarrow>
      peer = peer_of keypair \<and> listeners s = listen_addrs config \<and> (\<forall>a \<in> set (listen_addrs config). listen_on a = None) \<and>
      kademlia (behaviour s) = fold (\<lambda>(p, a). kad_add_address ops p a) (bootstrap_peers config)
        (new_kad lib peer \<lparr>kad_protocol = kad_name (protocol_prefix config), query_timeout = 60,
          max_packet_size = Some (512 * 1024), max_value_bytes = Some (256 * 1024), max_records = Some 4096, server_mode = False\<rparr>) \<and>
      kademlia_secondary (behaviour s) = map_option (\<lambda>p2. fold (\<lambda>(p, a). kad_add_address ops p a) (bootstrap_peers config)
        (new_kad lib peer \<lparr>kad_protocol = kad_name p2, query_timeout = 60,
          max_packet_size = None, max_value_bytes = None, max_records = None, server_mode = True\<rparr>))
        (secondary_protocol_prefix config) \<and>
      (mdns (behaviour s) \<noteq> None \<longleftrightarrow> enable_mdns config)) \<and>
   (\<forall>e. build_swarm lib ops version peer_of debug tcp relay listen_on keypair config = Err e \<longrightarrow>
      (\<exists>m. e = SwarmBuildError m) \<or> (\<exists>a \<in> set (listen_addrs config). \<exists>m. listen_on a = Some m \<and> e = ListenError m)) \<and>
   build_swarm lib ops version peer_of debug tcp relay listen_on keypair config \<noteq> Panic"
  by (intro conjI allI impI build_swarm_exact_parts)

lemma build_swarm_exact_witness:
  "\<exists>s. build_swarm toy_parts toy_dht ''1'' (\<lambda>k. k) (\<lambda>e. e) (Inr ()) (Inr ()) (\<lambda>a. None) 7 toy_config = Ok (s, 7) \<and>
    listeners s = [1, 2] \<and> map_option snd (kademlia_secondary (behaviour s)) = Some [(8, 80), (9, 90)]"
proof -
  obtain s p where run: "build_swarm toy_parts toy_dht ''1'' (\<lambda>k. k) (\<lambda>e. e) (Inr ()) (Inr ()) (\<lambda>a. None) 7 toy_config = Ok (s, p)"
    by (simp add: build_swarm_def build_dual_kad_def build_full_def from_result_def outcome_simps toy_parts_def
        toy_config_def Let_def)
  from build_swarm_exact [of toy_parts toy_dht "''1''" "\<lambda>k. k" "\<lambda>e. e" "Inr ()" "Inr ()" "\<lambda>a. None" 7 toy_config] run show ?thesis
    by (simp add: toy_config_def toy_parts_def toy_dht_def)
qed

text \<open>
  parsing a bootstrap address takes the first peer of the address and what is left without any
  peer, and fails exactly if the text is no multiaddress or names no peer; parsing a list keeps the
  addresses that parse, in order. An address built from parts parses to its peer, given that the
  multiaddress parser reads the text as these three components. Of a relayed address the relay is
  returned, with the circuit to the target left behind without its target.
\<close>

theorem bootstrap_addr_exact:
  shows "parse_bootstrap_addr parse s = Some (p, dial) \<longleftrightarrow>
      (\<exists>pre post. parse s = Some (pre @ P2p p # post) \<and> list_all (\<lambda>c. \<not> is_p2p c) pre \<and>
        dial = pre @ filter (\<lambda>c. \<not> is_p2p c) post)"
    and "parse_bootstrap_nodes parse ss = map the (filter (\<lambda>r. r \<noteq> None) (map (parse_bootstrap_addr parse) ss))"
    and "parse (make_bootstrap_addr ip port peer) = Some [Other a, Other b, P2p q] \<Longrightarrow>
      parse_bootstrap_addr parse (make_bootstrap_addr ip port peer) = Some (q, [Other a, Other b])"
    and "parse s = Some [Other a, Other b, P2p relay, Other circuit, P2p target] \<Longrightarrow>
      parse_bootstrap_addr parse s = Some (relay, [Other a, Other b, Other circuit])"
proof -
  show "parse_bootstrap_addr parse s = Some (p, dial) \<longleftrightarrow>
      (\<exists>pre post. parse s = Some (pre @ P2p p # post) \<and> list_all (\<lambda>c. \<not> is_p2p c) pre \<and>
        dial = pre @ filter (\<lambda>c. \<not> is_p2p c) post)"
  proof (cases "parse s")
    case (Some addr)
    have "filter (\<lambda>c. \<not> is_p2p c) pre = pre" if "list_all (\<lambda>c. \<not> is_p2p c) pre" for pre :: "('a, 'b) component list"
      using that by (simp add: list_all_iff filter_id_conv)
    then have "first_peer addr = Some p \<and> dial = filter (\<lambda>c. \<not> is_p2p c) addr \<longleftrightarrow>
        (\<exists>pre post. addr = pre @ P2p p # post \<and> list_all (\<lambda>c. \<not> is_p2p c) pre \<and>
          dial = pre @ filter (\<lambda>c. \<not> is_p2p c) post)"
      unfolding first_peer_eq by fastforce
    moreover have "parse_bootstrap_addr parse s = Some (p, dial) \<longleftrightarrow>
        first_peer addr = Some p \<and> dial = filter (\<lambda>c. \<not> is_p2p c) addr"
      by (auto simp: parse_bootstrap_addr_def Some split: option.split)
    ultimately show ?thesis by (simp add: Some)
  qed (simp add: parse_bootstrap_addr_def)
  show "parse_bootstrap_nodes parse ss = map the (filter (\<lambda>r. r \<noteq> None) (map (parse_bootstrap_addr parse) ss))"
    by (induction ss) (simp_all add: parse_bootstrap_nodes_def List.map_filter_simps split: option.split)
qed (simp_all add: parse_bootstrap_addr_def)

definition toy_parse :: "string \<Rightarrow> (string, string) component list option" where
  "toy_parse s = (if s = ''/ip4/1.2.3.4/tcp/9000/p2p/Q'' then Some [Other ''ip'', Other ''port'', P2p ''Q''] else None)"

lemma bootstrap_addr_exact_witness:
  "parse_bootstrap_addr toy_parse (make_bootstrap_addr ''1.2.3.4'' 9000 ''Q'') = Some (''Q'', [Other ''ip'', Other ''port''])"
proof (rule bootstrap_addr_exact(3))
  have "make_bootstrap_addr ''1.2.3.4'' 9000 ''Q'' = ''/ip4/1.2.3.4/tcp/9000/p2p/Q''"
    by (simp add: make_bootstrap_addr_def dec_string.simps) code_simp
  then show "toy_parse (make_bootstrap_addr ''1.2.3.4'' 9000 ''Q'') = Some [Other ''ip'', Other ''port'', P2p ''Q'']"
    by (simp only: toy_parse_def if_True simp_thms)
qed

end
