(* ===== verification/Network_Tests.thy ===== *)
theory Network_Tests
  imports Testing Wire Pex Network
begin

text \<open>
  The unit tests of \<open>crates/network\<close> on the model. Peer ids a test generates are arguments, and so are the
  codecs of libp2p, the parser of multiaddresses and the instants the code reads from the clock.
\<close>

section \<open>Tests of pex.rs\<close>

definition test_add_and_remove_peers :: "'p \<Rightarrow> 'a \<Rightarrow> bool" where
  "test_add_and_remove_peers peer_id multiaddr \<longleftrightarrow>
     (let manager = add_peer peer_id [multiaddr] pex_new
      in peer_count manager = 1 \<and> (let manager = remove_peer peer_id manager in peer_count manager = 0))"

definition test_peers_to_share_excludes_self ::
  "(('p \<times> 'a list) list \<Rightarrow> ('p \<times> 'a list) list) \<Rightarrow> 'p \<Rightarrow> 'p \<Rightarrow> 'a \<Rightarrow> bool" where
  "test_peers_to_share_excludes_self order peer1 peer2 multiaddr \<longleftrightarrow>
     (let addrs = [multiaddr]; manager = add_peer peer2 addrs (add_peer peer1 addrs pex_new);
          shared = peers_to_share order peer1 manager
      in length shared = 1 \<and> fst (shared ! 0) = peer2)"

definition test_receive_pex_returns_only_new_peers :: "'p \<Rightarrow> 'p \<Rightarrow> 'a \<Rightarrow> bool" where
  "test_receive_pex_returns_only_new_peers known_peer new_peer multiaddr \<longleftrightarrow>
     (let addrs = [multiaddr]; manager = add_peer known_peer addrs pex_new;
          pex_data = [(known_peer, addrs), (new_peer, addrs)]; (new_peers, manager) = receive_pex pex_data manager
      in length new_peers = 1 \<and> fst (new_peers ! 0) = new_peer \<and> peer_count manager = 2)"

text \<open>The clock is read by \<open>should_send\<close> and \<open>mark_sent\<close>, before (\<open>t0\<close> to \<open>t2\<close>) and after (\<open>t3\<close>) the sleep.\<close>

definition test_should_send_rate_limiting :: "int \<Rightarrow> int \<Rightarrow> int \<Rightarrow> int \<Rightarrow> 'p \<Rightarrow> bool" where
  "test_should_send_rate_limiting t0 t1 t2 t3 peer_id \<longleftrightarrow>
     (let interval = 100 * 10 ^ 6; manager = pex_with_config interval 20 :: ('p, unit) pex_manager
      in should_send t0 peer_id manager \<and>
         (let manager = mark_sent t1 peer_id manager
          in \<not> should_send t2 peer_id manager \<and> should_send t3 peer_id manager))"

definition test_max_share_limit ::
  "(('p \<times> 'a list) list \<Rightarrow> ('p \<times> 'a list) list) \<Rightarrow> 'p \<Rightarrow> 'p list \<Rightarrow> 'a \<Rightarrow> bool" where
  "test_max_share_limit order exclude_peer peers multiaddr \<longleftrightarrow>
     (let max_share = 3; addrs = [multiaddr];
          manager = fold (\<lambda>p. add_peer p addrs) peers (pex_with_config (60 * 10 ^ 9) max_share);
          shared = peers_to_share order exclude_peer manager
      in length shared \<le> max_share)"

lemma pex_tests_pass:
  "test_add_and_remove_peers p a"
  "p \<noteq> q \<Longrightarrow> test_receive_pex_returns_only_new_peers p q a"
  "(\<And>xs. mset (order xs) = mset xs) \<Longrightarrow> p \<noteq> q \<Longrightarrow> test_peers_to_share_excludes_self order p q a"
  "test_max_share_limit order p ps a"
  "t1 \<le> t2 \<Longrightarrow> t1 \<le> t3 \<Longrightarrow> test_should_send_rate_limiting t0 t1 t2 t3 p \<longleftrightarrow> t2 - t1 < 10 ^ 8 \<and> 10 ^ 8 \<le> t3 - t1"
proof -
  have pex_new_share: "pex_max_share (pex_new :: ('p, 'a) pex_manager) = 20" by (simp add: pex_new_def)
  show "test_peers_to_share_excludes_self order p q a"
    if order: "\<And>xs. mset (order xs) = mset xs" and "p \<noteq> q"
  proof -
    let ?m = "add_peer q [a] (add_peer p [a] pex_new)"
    have inv: "pex_inv ?m"
      by (intro add_peer_inv) (simp add: pex_inv_def pex_new_def)
    have dom: "dom (knows ?m) - {p} = {q}"
      using \<open>p \<noteq> q\<close> by (auto simp: knows_add_peer) (simp add: knows_def pex_new_def)
    have "length (peers_to_share order p ?m) = 1"
      using peers_to_share_facts(1) [OF inv, of order p, OF order] dom by (simp add: add_peer_def pex_new_def)
    moreover from this obtain r as where r: "peers_to_share order p ?m = [(r, as)]"
      by (auto simp: length_Suc_conv)
    moreover from r have "r \<noteq> p \<and> knows ?m r = Some as"
      using peers_to_share_facts(3) [OF inv, of order r as p, OF order] by simp
    then have "r \<in> dom (knows ?m) - {p}" by auto
    then have "r = q" unfolding dom by simp
    ultimately show ?thesis by (simp add: test_peers_to_share_excludes_self_def Let_def)
  qed
  show "test_max_share_limit order p ps a"
  proof -
    have "pex_max_share (fold (\<lambda>p. add_peer p [a]) ps m) = pex_max_share m" for m
      by (induction ps arbitrary: m) (simp_all add: add_peer_def)
    then show ?thesis
      by (simp add: test_max_share_limit_def peers_to_share_def pex_with_config_def)
  qed
qed (auto simp: test_add_and_remove_peers_def test_receive_pex_returns_only_new_peers_def
    test_should_send_rate_limiting_def peer_count_def remove_peer_def add_peer_def pex_new_def pex_with_config_def
    should_send_def mark_sent_def max_def Let_def)

section \<open>Tests of pex\_wire.rs\<close>

definition test_pex_peer_round_trip :: "('p, 'a) libp2p \<Rightarrow> 'p \<Rightarrow> 'a list \<Rightarrow> bool" where
  "test_pex_peer_round_trip lib peer_id addrs \<longleftrightarrow>
     (let pex_peer = from_peer lib peer_id addrs
      in tested (to_peer lib pex_peer) (\<lambda>(decoded_id, decoded_addrs). decoded_id = peer_id \<and> decoded_addrs = addrs))"

definition test_pex_message_serialization :: "('p, 'a) libp2p \<Rightarrow> 'p \<Rightarrow> 'p \<Rightarrow> 'a \<Rightarrow> 'a \<Rightarrow> bool" where
  "test_pex_message_serialization lib peer1 peer2 addr1 addr2 \<longleftrightarrow>
     (let peers = [(peer1, [addr1]), (peer2, [addr2, addr1])]; message = from_peers lib peers
      in tested (pex_to_bytes lib message) (\<lambda>bytes. tested (pex_from_bytes lib bytes) (\<lambda>decoded. decoded = message \<and>
         tested (to_peers lib decoded) (\<lambda>decoded_peers. length decoded_peers = 2 \<and>
           fst (decoded_peers ! 0) = peer1 \<and> fst (decoded_peers ! 1) = peer2))))"

definition test_empty_pex_message :: "('p, 'a) libp2p \<Rightarrow> bool" where
  "test_empty_pex_message lib \<longleftrightarrow>
     (let msg = [] in tested (pex_to_bytes lib msg) (\<lambda>bytes.
        tested (pex_from_bytes lib bytes) (\<lambda>decoded. length decoded = 0)))"

definition test_invalid_deserialization :: "('p, 'a) libp2p \<Rightarrow> bool" where
  "test_invalid_deserialization lib \<longleftrightarrow>
     (let result = pex_from_bytes lib (map of_char ''invalid'')
      in case result of Err (DeserializationError _) \<Rightarrow> True | _ \<Rightarrow> False)"

definition test_peer_with_no_addresses :: "('p, 'a) libp2p \<Rightarrow> 'p \<Rightarrow> bool" where
  "test_peer_with_no_addresses lib peer_id \<longleftrightarrow>
     (let pex_peer = from_peer lib peer_id []
      in tested (to_peer lib pex_peer) (\<lambda>(decoded_id, decoded_addrs). decoded_id = peer_id \<and> decoded_addrs = []))"

lemma pex_wire_tests_pass:
  assumes "\<And>p. peer_from_bytes lib (peer_to_bytes lib p) = Inr p" and "\<And>a. addr_try_from lib (addr_to_vec lib a) = Inr a"
    and "\<And>ps. \<exists>data. json_to_vec lib ps = Inr data \<and> json_from_slice lib data = Inr ps"
  shows "test_pex_peer_round_trip lib p as" and "test_pex_message_serialization lib p q a b"
    and "test_empty_pex_message lib" and "test_peer_with_no_addresses lib p"
proof -
  have peer: "to_peer lib (from_peer lib p as) = Ok (p, as)" for p as
    using wire_roundtrip [of lib "[(p, as)]", OF assms(1,2)]
    by (simp add: to_peers_def from_peers_def split: outcome.splits)
  then show "test_pex_peer_round_trip lib p as" and "test_peer_with_no_addresses lib p"
    by (simp_all add: test_pex_peer_round_trip_def test_peer_with_no_addresses_def)
  obtain data where "json_to_vec lib [] = Inr data" "json_from_slice lib data = Inr []" using assms(3) by blast
  then show "test_empty_pex_message lib"
    by (simp add: test_empty_pex_message_def pex_to_bytes_def pex_from_bytes_def)
  let ?ps = "[(p, [a]), (q, [b, a])]"
  obtain data where "json_to_vec lib (from_peers lib ?ps) = Inr data" "json_from_slice lib data = Inr (from_peers lib ?ps)"
    using assms(3) by blast
  then show "test_pex_message_serialization lib p q a b"
    using wire_roundtrip [of lib ?ps, OF assms(1,2)]
    by (simp add: test_pex_message_serialization_def pex_to_bytes_def pex_from_bytes_def Let_def)
qed

section \<open>Tests of wire.rs\<close>

definition test_raw_frame_roundtrip :: bool where
  "test_raw_frame_roundtrip \<longleftrightarrow>
     (let payload = map of_char ''hello world'' in
      tested (write_raw_frame vec_write_all vec_flush [] 42 0x01 payload) (\<lambda>buf.
        tested (read_raw_frame buf) (\<lambda>(frame, _).
          seq_id frame = 42 \<and> msg_type frame = 0x01 \<and> frame_payload frame = payload)))"

definition test_empty_payload :: bool where
  "test_empty_payload \<longleftrightarrow>
     tested (write_raw_frame vec_write_all vec_flush [] 0 0xFF []) (\<lambda>buf.
       tested (read_raw_frame buf) (\<lambda>(frame, _). seq_id frame = 0 \<and> msg_type frame = 0xFF \<and> frame_payload frame = []))"

lemma wire_tests_pass: "test_raw_frame_roundtrip" "test_empty_payload"
proof -
  have rt: "tested (write_raw_frame vec_write_all vec_flush [] s t p) (\<lambda>buf. tested (read_raw_frame buf) (\<lambda>(frame, _).
      seq_id frame = s \<and> msg_type frame = t \<and> frame_payload frame = p))" if "length p \<le> MAX_FRAME_PAYLOAD" for s t p
    using that read_frame_bytes [of "\<lparr>seq_id = s, msg_type = t, frame_payload = p\<rparr>" "[]"]
    by (simp add: write_raw_frame_def vec_write_all_def vec_flush_def fits_def)
  show test_raw_frame_roundtrip
    unfolding test_raw_frame_roundtrip_def Let_def by (rule rt) (simp add: MAX_FRAME_PAYLOAD_def)
  show test_empty_payload
    unfolding test_empty_payload_def by (rule rt) simp
qed

section \<open>Tests of bootstrap.rs and node.rs\<close>

definition PEER :: string where
  "PEER = ''12D3KooWDpJ7As7BWAwRMfu1VU2WCqNjvq387JEYKDBj4kx6nXTN''"

definition test_parse_bootstrap_addr ::
  "(string \<Rightarrow> ('p, 'o) component list option) \<Rightarrow> (('p, 'o) component list \<Rightarrow> string) \<Rightarrow> ('p \<Rightarrow> string) \<Rightarrow> bool" where
  "test_parse_bootstrap_addr parse addr_to_string peer_to_string \<longleftrightarrow>
     (let addr = ''/ip4/127.0.0.1/tcp/9000/p2p/'' @ PEER in
      case parse_bootstrap_addr parse addr of None \<Rightarrow> False
      | Some (peer_id, dial_addr) \<Rightarrow> addr_to_string dial_addr = ''/ip4/127.0.0.1/tcp/9000'' \<and>
          take 8 (peer_to_string peer_id) = ''12D3KooW'')"

definition test_parse_invalid_addr :: "(string \<Rightarrow> ('p, 'o) component list option) \<Rightarrow> bool" where
  "test_parse_invalid_addr parse \<longleftrightarrow>
     parse_bootstrap_addr parse ''invalid'' = None \<and> parse_bootstrap_addr parse ''/ip4/127.0.0.1/tcp/9000'' = None"

definition test_make_bootstrap_addr :: bool where
  "test_make_bootstrap_addr \<longleftrightarrow>
     make_bootstrap_addr ''123.45.67.89'' 9000 PEER = ''/ip4/123.45.67.89/tcp/9000/p2p/'' @ PEER"

definition test_parse_bootstrap_nodes :: "(string \<Rightarrow> ('p, 'o) component list option) \<Rightarrow> bool" where
  "test_parse_bootstrap_nodes parse \<longleftrightarrow>
     (let addrs = [''/ip4/127.0.0.1/tcp/9000/p2p/'' @ PEER]; peers = parse_bootstrap_nodes parse addrs
      in length peers = 1)"

definition test_empty_bootstrap :: "(string \<Rightarrow> ('p, 'o) component list option) \<Rightarrow> bool" where
  "test_empty_bootstrap parse \<longleftrightarrow> (let peers = parse_bootstrap_nodes parse [] in peers = [])"

definition test_default_bootstrap_nodes_empty :: bool where
  "test_default_bootstrap_nodes_empty \<longleftrightarrow> default_bootstrap_nodes = []"

definition test_default_network_config :: "(string \<Rightarrow> 'a option) \<Rightarrow> bool" where
  "test_default_network_config parse \<longleftrightarrow>
     tested (default_network_config parse :: (unit, (unit, 'a) network_config) outcome) (\<lambda>config.
       protocol_prefix config = ''craftec'' \<and> listen_addrs config \<noteq> [] \<and> bootstrap_peers config = [])"

definition test_config_custom_prefix :: "(string \<Rightarrow> 'a option) \<Rightarrow> bool" where
  "test_config_custom_prefix parse \<longleftrightarrow>
     (case parse ''/ip4/0.0.0.0/tcp/9100'' of None \<Rightarrow> False
      | Some addr \<Rightarrow>
          let config = \<lparr>protocol_prefix = ''craftobj'', secondary_protocol_prefix = None, listen_addrs = [addr],
                bootstrap_peers = [] :: (unit \<times> 'a) list, enable_mdns = True\<rparr>
          in protocol_prefix config = ''craftobj'')"

text \<open>The parser takes the addresses apart as their text says.\<close>

lemma bootstrap_tests_pass:
  assumes "parse (''/ip4/127.0.0.1/tcp/9000/p2p/'' @ PEER) = Some (map Other os @ [P2p p])" and "parse ''invalid'' = None"
    and "parse ''/ip4/127.0.0.1/tcp/9000'' = Some (map Other os)"
    and "addr_to_string (map Other os) = ''/ip4/127.0.0.1/tcp/9000''" and "peer_to_string p = PEER"
  shows "test_parse_bootstrap_addr parse addr_to_string peer_to_string" and "test_parse_invalid_addr parse"
    and "test_parse_bootstrap_nodes parse" and "test_empty_bootstrap parse"
proof -
  have first: "first_peer (map Other os @ cs) = first_peer cs" for cs :: "('a, 'b) component list" by (induction os) simp_all
  have "filter (\<lambda>c. \<not> is_p2p c) (map Other os @ [P2p p]) = map Other os" by (induction os) simp_all
  with assms first [of "[P2p p]"] have addr: "parse_bootstrap_addr parse (''/ip4/127.0.0.1/tcp/9000/p2p/'' @ PEER) = Some (p, map Other os)"
    by (simp add: parse_bootstrap_addr_def)
  then show "test_parse_bootstrap_addr parse addr_to_string peer_to_string"
    using assms(4,5) by (simp add: test_parse_bootstrap_addr_def PEER_def Let_def)
  show "test_parse_invalid_addr parse"
    using assms(2,3) first [of "[]"] by (simp add: test_parse_invalid_addr_def parse_bootstrap_addr_def)
  show "test_parse_bootstrap_nodes parse" and "test_empty_bootstrap parse"
    using addr by (simp_all add: test_parse_bootstrap_nodes_def test_empty_bootstrap_def parse_bootstrap_nodes_def map_filter_simps)
qed

lemma port_9000: "dec_string 9000 = ''9000''"
  by (simp add: dec_string.simps char_of_def) code_simp

lemma node_config_tests_pass:
  "test_make_bootstrap_addr" "test_default_bootstrap_nodes_empty"
  "parse ''/ip4/0.0.0.0/tcp/0'' \<noteq> None \<Longrightarrow> test_default_network_config parse"
  "parse ''/ip4/0.0.0.0/tcp/9100'' \<noteq> None \<Longrightarrow> test_config_custom_prefix parse"
  by (auto simp: test_make_bootstrap_addr_def make_bootstrap_addr_def test_default_bootstrap_nodes_empty_def
      default_bootstrap_nodes_def test_default_network_config_def default_network_config_def
      test_config_custom_prefix_def port_9000)

end
