(* ===== verification/Ipc.thy ===== *)
theory Ipc
  imports Prelude
begin

text \<open>
  \<open>crates/ipc\<close>: JSON-RPC requests and responses (\<open>protocol.rs\<close>), routing by namespace
  (\<open>namespace.rs\<close>), the loop that serves one connection (\<open>server.rs\<close>, \<open>ws.rs\<close>) and the client
  (\<open>client.rs\<close>). JSON values are the type parameter \<open>'v\<close> and \<open>serde_json\<close> is the record \<open>json\<close> of the
  functions the code calls. A handler changes the state \<open>'s\<close> of the daemon. Text is ASCII. What
  \<open>tokio::select!\<close> finds ready is the sequence of inputs of a connection: received characters, the end
  of the stream, a read error, or an event to forward.
\<close>

section \<open>Messages\<close>

record 'v rpc_request =
  rq_jsonrpc :: string
  rq_method :: string
  rq_params :: "'v option"
  rq_id :: 'v

record rpc_error =
  err_code :: "32 word"
  err_message :: string

record 'v rpc_response =
  rs_jsonrpc :: string
  rs_result :: "'v option"
  rs_error :: "rpc_error option"
  rs_id :: 'v

record 'v rpc_notification =
  nt_jsonrpc :: string
  nt_method :: string
  nt_params :: "'v option"

record 'v rpc_event =
  ev_event :: string
  ev_data :: 'v

record 'v json =
  json_null :: 'v
  json_u64 :: "u64 \<Rightarrow> 'v"
  print_request :: "'v rpc_request \<Rightarrow> string + string"
  parse_request :: "string \<Rightarrow> string + 'v rpc_request"
  print_response :: "'v rpc_response \<Rightarrow> string option"
  parse_response :: "string \<Rightarrow> string + 'v rpc_response"
  print_notification :: "'v rpc_notification \<Rightarrow> string option"
  print_event :: "string \<Rightarrow> 'v \<Rightarrow> string"

definition request_new :: "string \<Rightarrow> 'v option \<Rightarrow> 'v \<Rightarrow> 'v rpc_request" where
  "request_new method params i = \<lparr>rq_jsonrpc = ''2.0'', rq_method = method, rq_params = params, rq_id = i\<rparr>"

definition response_success :: "'v \<Rightarrow> 'v \<Rightarrow> 'v rpc_response" where
  "response_success i result = \<lparr>rs_jsonrpc = ''2.0'', rs_result = Some result, rs_error = None, rs_id = i\<rparr>"

definition response_error :: "'v \<Rightarrow> 32 word \<Rightarrow> string \<Rightarrow> 'v rpc_response" where
  "response_error i code message =
     \<lparr>rs_jsonrpc = ''2.0'', rs_result = None, rs_error = Some \<lparr>err_code = code, err_message = message\<rparr>, rs_id = i\<rparr>"

text \<open>\<open>to_value(params).unwrap_or_default()\<close> for parameters that may fail to convert.\<close>

definition notification_new :: "'v json \<Rightarrow> string \<Rightarrow> 'v option \<Rightarrow> 'v rpc_notification" where
  "notification_new j method params = \<lparr>nt_jsonrpc = ''2.0'', nt_method = method,
     nt_params = Some (case params of None \<Rightarrow> json_null j | Some v \<Rightarrow> v)\<rparr>"

definition event_new :: "string \<Rightarrow> 'v \<Rightarrow> 'v rpc_event" where
  "event_new event data = \<lparr>ev_event = event, ev_data = data\<rparr>"

definition unwrap_or_default :: "string option \<Rightarrow> string" where
  "unwrap_or_default s = (case s of None \<Rightarrow> [] | Some s \<Rightarrow> s)"

definition event_to_notification :: "'v json \<Rightarrow> string \<Rightarrow> 'v option \<Rightarrow> string" where
  "event_to_notification j method data = unwrap_or_default (print_notification j (notification_new j method data))"

section \<open>Routing\<close>

type_synonym ('v, 's) handler = "string \<Rightarrow> 'v option \<Rightarrow> 's \<Rightarrow> (string + 'v) \<times> 's"

record ('v, 's) namespaced_handler =
  handlers :: "string \<rightharpoonup> ('v, 's) handler"
  default_handler :: "('v, 's) handler option"

definition router_new :: "('v, 's) namespaced_handler" where
  "router_new = \<lparr>handlers = Map.empty, default_handler = None\<rparr>"

definition add_namespace :: "string \<Rightarrow> ('v, 's) handler \<Rightarrow> ('v, 's) namespaced_handler \<Rightarrow> ('v, 's) namespaced_handler" where
  "add_namespace prefix handler self = self\<lparr>handlers := (handlers self)(prefix \<mapsto> handler)\<rparr>"

definition set_default :: "('v, 's) handler \<Rightarrow> ('v, 's) namespaced_handler \<Rightarrow> ('v, 's) namespaced_handler" where
  "set_default handler self = self\<lparr>default_handler := Some handler\<rparr>"

text \<open>\<open>str::split_once\<close> on a character\<close>

fun split_once :: "char \<Rightarrow> string \<Rightarrow> (string \<times> string) option" where
  "split_once c [] = None"
| "split_once c (d # s) =
     (if d = c then Some ([], s)
      else case split_once c s of None \<Rightarrow> None | Some (a, b) \<Rightarrow> Some (d # a, b))"

definition route :: "('v, 's) namespaced_handler \<Rightarrow> string \<Rightarrow> ('v, 's) handler option \<times> string" where
  "route self method =
     (case split_once CHR ''.'' method of
        Some (ns, rest) \<Rightarrow>
          (case handlers self ns of Some h \<Rightarrow> (Some h, rest) | None \<Rightarrow> (default_handler self, method))
      | None \<Rightarrow> (default_handler self, method))"

definition handle_namespaced :: "('v, 's) namespaced_handler \<Rightarrow> ('v, 's) handler" where
  "handle_namespaced self method params st =
     (case route self method of
        (Some h, stripped) \<Rightarrow> h stripped params st
      | (None, stripped) \<Rightarrow> (Inl (''unknown method: '' @ method), st))"

section \<open>One connection\<close>

definition is_whitespace :: "char \<Rightarrow> bool" where
  "is_whitespace c \<longleftrightarrow> c = CHR '' '' \<or> of_char c \<in> {9 ..< (14 :: nat)}"

definition trim :: "string \<Rightarrow> string" where
  "trim s = rev (dropWhile is_whitespace (rev (dropWhile is_whitespace s)))"

definition answer :: "'v json \<Rightarrow> ('v, 's) handler \<Rightarrow> string \<Rightarrow> 's \<Rightarrow> 'v rpc_response \<times> 's" where
  "answer j handler text st =
     (case parse_request j text of
        Inr req \<Rightarrow>
          (case handler (rq_method req) (rq_params req) st of
             (Inr result, st') \<Rightarrow> (response_success (rq_id req) result, st')
           | (Inl msg, st') \<Rightarrow> (response_error (rq_id req) (- 32000) msg, st'))
      | Inl e \<Rightarrow> (response_error (json_null j) (- 32700) (''Parse error: '' @ e), st))"

abbreviation newline :: char where "newline \<equiv> CHR 0x0A"

record 's connection =
  conn_open :: bool
  conn_line :: string
  conn_written :: "string list"
  conn_state :: 's

datatype conn_input = Received string | Event string | Eof | ReadFailed

text \<open>\<open>writer.write_all\<close>; \<open>ok n\<close> tells whether the write after \<open>n\<close> others succeeds.\<close>

definition conn_write :: "(nat \<Rightarrow> bool) \<Rightarrow> string \<Rightarrow> 's connection \<Rightarrow> 's connection" where
  "conn_write ok text c =
     (if ok (length (conn_written c)) then c\<lparr>conn_written := conn_written c @ [text @ [newline]]\<rparr>
      else c\<lparr>conn_open := False\<rparr>)"

definition serve_line :: "'v json \<Rightarrow> ('v, 's) handler \<Rightarrow> (nat \<Rightarrow> bool) \<Rightarrow> string \<Rightarrow> 's connection \<Rightarrow> 's connection" where
  "serve_line j handler ok line c =
     (if trim line = [] then c
      else case answer j handler (trim line) (conn_state c) of (response, st') \<Rightarrow>
        conn_write ok (unwrap_or_default (print_response j response)) (c\<lparr>conn_state := st'\<rparr>))"

text \<open>
  \<open>read_line\<close> collects into the variable \<open>line\<close> of the current round; a round ends with the newline. A
  round that ends with an event instead drops \<open>line\<close> and what it had collected. At the end of the
  stream an unfinished line is served first; the round after it reads 0 bytes and ends the loop.
\<close>

fun receive_chars :: "'v json \<Rightarrow> ('v, 's) handler \<Rightarrow> (nat \<Rightarrow> bool) \<Rightarrow> string \<Rightarrow> 's connection \<Rightarrow> 's connection" where
  "receive_chars j handler ok [] c = c"
| "receive_chars j handler ok (x # xs) c =
     (if \<not> conn_open c then c
      else if x = newline
        then receive_chars j handler ok xs (serve_line j handler ok (conn_line c @ [x]) (c\<lparr>conn_line := []\<rparr>))
      else receive_chars j handler ok xs (c\<lparr>conn_line := conn_line c @ [x]\<rparr>))"

fun conn_step :: "'v json \<Rightarrow> ('v, 's) handler \<Rightarrow> (nat \<Rightarrow> bool) \<Rightarrow> conn_input \<Rightarrow> 's connection \<Rightarrow> 's connection" where
  "conn_step j handler ok (Received text) c = receive_chars j handler ok text c"
| "conn_step j handler ok (Event event) c =
     (if conn_open c then conn_write ok event (c\<lparr>conn_line := []\<rparr>) else c)"
| "conn_step j handler ok Eof c =
     (if \<not> conn_open c then c
      else if conn_line c = [] then c\<lparr>conn_open := False\<rparr>
      else serve_line j handler ok (conn_line c) (c\<lparr>conn_line := []\<rparr>))"
| "conn_step j handler ok ReadFailed c = c\<lparr>conn_open := False\<rparr>"

definition handle_connection :: "'v json \<Rightarrow> ('v, 's) handler \<Rightarrow> (nat \<Rightarrow> bool) \<Rightarrow> conn_input list \<Rightarrow> 's \<Rightarrow> 's connection" where
  "handle_connection j handler ok inputs st =
     fold (conn_step j handler ok) inputs \<lparr>conn_open = True, conn_line = [], conn_written = [], conn_state = st\<rparr>"

text \<open>\<open>IpcServer::send_event\<close> gives every subscriber this text to forward.\<close>

definition send_event :: "'v json \<Rightarrow> string \<Rightarrow> 'v \<Rightarrow> conn_input" where
  "send_event j event data = Event (print_event j event data)"

section \<open>WebSocket connections\<close>

record ws_auth =
  api_key :: "string option"

datatype http_status = SwitchingProtocols | NotFound | Unauthorized

fun split_on :: "char \<Rightarrow> string \<Rightarrow> string list" where
  "split_on c [] = [[]]"
| "split_on c (d # s) = (if d = c then [] # split_on c s else (d # hd (split_on c s)) # tl (split_on c s))"

text \<open>\<open>query.split('&').find_map(..)\<close>: the value of the first parameter called \<open>key\<close>.\<close>

fun find_key :: "string list \<Rightarrow> string option" where
  "find_key [] = None"
| "find_key (pair # pairs) =
     (case split_once CHR ''='' pair of
        Some (k, v) \<Rightarrow> if k = ''key'' then Some v else find_key pairs
      | None \<Rightarrow> find_key pairs)"

definition accept_ws :: "ws_auth \<Rightarrow> string \<Rightarrow> string option \<Rightarrow> http_status" where
  "accept_ws auth path query =
     (if path \<noteq> ''/ws'' \<and> path \<noteq> ''/ws/'' then NotFound
      else case api_key auth of
        None \<Rightarrow> SwitchingProtocols
      | Some expected_key \<Rightarrow>
          (case find_key (split_on CHR ''&'' (unwrap_or_default query)) of
             Some k \<Rightarrow> if k = expected_key then SwitchingProtocols else Unauthorized
           | None \<Rightarrow> Unauthorized))"

datatype ws_input =
    WsText string | WsPing bytes | WsClose | WsOther | WsError | WsEnd
  | WsEvent string | WsLagged nat | WsEventsClosed

datatype ws_output = TextOut string | PongOut bytes

record 's ws_connection =
  ws_open :: bool
  ws_sent :: "ws_output list"
  ws_state :: 's

definition ws_send :: "(nat \<Rightarrow> bool) \<Rightarrow> ws_output \<Rightarrow> 's ws_connection \<Rightarrow> 's ws_connection" where
  "ws_send ok msg c =
     (if ok (length (ws_sent c)) then c\<lparr>ws_sent := ws_sent c @ [msg]\<rparr> else c\<lparr>ws_open := False\<rparr>)"

fun ws_step :: "'v json \<Rightarrow> ('v, 's) handler \<Rightarrow> (nat \<Rightarrow> bool) \<Rightarrow> ws_input \<Rightarrow> 's ws_connection \<Rightarrow> 's ws_connection" where
  "ws_step j handler ok input c =
     (if \<not> ws_open c then c
      else case input of
        WsText text \<Rightarrow>
          (case answer j handler text (ws_state c) of (response, st') \<Rightarrow>
            ws_send ok (TextOut (unwrap_or_default (print_response j response))) (c\<lparr>ws_state := st'\<rparr>))
      | WsPing data \<Rightarrow> ws_send ok (PongOut data) c
      | WsOther \<Rightarrow> c
      | WsEvent notification \<Rightarrow> ws_send ok (TextOut notification) c
      | WsLagged n \<Rightarrow> c
      | _ \<Rightarrow> c\<lparr>ws_open := False\<rparr>)"

definition handle_ws_connection :: "'v json \<Rightarrow> ('v, 's) handler \<Rightarrow> (nat \<Rightarrow> bool) \<Rightarrow> ws_input list \<Rightarrow> 's \<Rightarrow> 's ws_connection" where
  "handle_ws_connection j handler ok inputs st =
     fold (ws_step j handler ok) inputs \<lparr>ws_open = True, ws_sent = [], ws_state = st\<rparr>"

section \<open>The client\<close>

datatype ipc_error =
    DaemonNotRunning
  | ConnectionFailed string
  | InvalidResponse string
  | DaemonError "32 word" string
  | IoError string

record ipc_client =
  client_socket :: string
  next_id :: u64

definition client_new :: "string \<Rightarrow> ipc_client" where
  "client_new socket_path = \<lparr>client_socket = socket_path, next_id = 1\<rparr>"

text \<open>
  \<open>connected\<close> tells whether the daemon's socket can be opened; \<open>exchange\<close> is the line read back after
  a text was written, or the error of either operation.
\<close>

definition send_request ::
  "'v json \<Rightarrow> bool \<Rightarrow> (string \<Rightarrow> string + string) \<Rightarrow> string \<Rightarrow> 'v option \<Rightarrow> ipc_client \<Rightarrow>
    (ipc_error, 'v) outcome \<times> ipc_client" where
  "send_request j connected exchange method params self =
     (if \<not> connected then (Err DaemonNotRunning, self)
      else let request = request_new method params (json_u64 j (next_id self));
               self = self\<lparr>next_id := next_id self + 1\<rparr>
      in case print_request j request of
           Inl e \<Rightarrow> (Err (ConnectionFailed e), self)
         | Inr json \<Rightarrow>
             (case exchange (json @ [newline]) of
                Inl e \<Rightarrow> (Err (ConnectionFailed e), self)
              | Inr line \<Rightarrow>
                  (case parse_response j (trim line) of
                     Inl e \<Rightarrow> (Err (InvalidResponse e), self)
                   | Inr response \<Rightarrow>
                       (case rs_error response of
                          Some err \<Rightarrow> (Err (DaemonError (err_code err) (err_message err)), self)
                        | None \<Rightarrow>
                            (case rs_result response of
                               Some v \<Rightarrow> (Ok v, self)
                             | None \<Rightarrow> (Err (InvalidResponse ''No result in response''), self))))))"

section \<open>Lines and replies\<close>

text \<open>The complete lines of a text that continues the line \<open>acc\<close>, and the unfinished last one.\<close>

fun split_lines :: "string \<Rightarrow> string \<Rightarrow> string list \<times> string" where
  "split_lines acc [] = ([], acc)"
| "split_lines acc (x # xs) =
     (if x = newline then (case split_lines [] xs of (ls, rest) \<Rightarrow> ((acc @ [x]) # ls, rest))
      else split_lines (acc @ [x]) xs)"

text \<open>
  What a connection promises, independently of the code that answers: a line that is no request gets
  an error with code -32700 and a null id, a request gets the handler's value, or the handler's message
  with code -32000, under the id of the request, and version 2.0 either way.
\<close>

definition promised_response :: "'v json \<Rightarrow> ('v, 's) handler \<Rightarrow> string \<Rightarrow> 's \<Rightarrow> 'v rpc_response \<times> 's" where
  "promised_response j handler text st =
     (case parse_request j text of
        Inl e \<Rightarrow>
          (\<lparr>rs_jsonrpc = ''2.0'', rs_result = None,
             rs_error = Some \<lparr>err_code = - 32700, err_message = ''Parse error: '' @ e\<rparr>, rs_id = json_null j\<rparr>, st)
      | Inr req \<Rightarrow>
          (case handler (rq_method req) (rq_params req) st of
             (Inl msg, st') \<Rightarrow>
               (\<lparr>rs_jsonrpc = ''2.0'', rs_result = None,
                  rs_error = Some \<lparr>err_code = - 32000, err_message = msg\<rparr>, rs_id = rq_id req\<rparr>, st')
           | (Inr v, st') \<Rightarrow> (\<lparr>rs_jsonrpc = ''2.0'', rs_result = Some v, rs_error = None, rs_id = rq_id req\<rparr>, st')))"

text \<open>The replies to the lines, one after the other, each in the state the earlier ones left.\<close>

fun replies :: "'v json \<Rightarrow> ('v, 's) handler \<Rightarrow> string list \<Rightarrow> 's \<Rightarrow> string list \<times> 's" where
  "replies j handler [] st = ([], st)"
| "replies j handler (line # ls) st =
     (if trim line = [] then replies j handler ls st
      else case promised_response j handler (trim line) st of (response, st') \<Rightarrow>
        (case replies j handler ls st' of (out, st'') \<Rightarrow>
          (((case print_response j response of Some t \<Rightarrow> t | None \<Rightarrow> []) @ [newline]) # out, st'')))"

lemma answer_promised: "answer j handler text st = promised_response j handler text st"
  by (simp add: answer_def promised_response_def response_success_def response_error_def split: sum.split prod.split)

fun text_of :: "conn_input list \<Rightarrow> string" where
  "text_of [] = []"
| "text_of (Received t # ins) = t @ text_of ins"
| "text_of (_ # ins) = text_of ins"

fun events_of :: "conn_input list \<Rightarrow> string list" where
  "events_of [] = []"
| "events_of (Event e # ins) = e # events_of ins"
| "events_of (_ # ins) = events_of ins"

text \<open>Events come only between lines, and the stream stays open.\<close>

fun quiet :: "string \<Rightarrow> conn_input list \<Rightarrow> bool" where
  "quiet line [] = True"
| "quiet line (Received t # ins) = quiet (snd (split_lines line t)) ins"
| "quiet line (Event e # ins) = (line = [] \<and> quiet [] ins)"
| "quiet line (_ # ins) = False"

lemma split_lines_append: "split_lines acc (s @ t) =
    (fst (split_lines acc s) @ fst (split_lines (snd (split_lines acc s)) t),
     snd (split_lines (snd (split_lines acc s)) t))"
  by (induction acc s rule: split_lines.induct) (auto split: prod.splits)

lemma split_lines_no_newline: "newline \<notin> set t \<Longrightarrow> split_lines acc t = ([], acc @ t)"
  by (induction t arbitrary: acc) auto

lemma replies_append: "replies j handler (ls @ ms) st =
    (fst (replies j handler ls st) @ fst (replies j handler ms (snd (replies j handler ls st))),
     snd (replies j handler ms (snd (replies j handler ls st))))"
  by (induction j handler ls st rule: replies.induct) (auto split: prod.splits)

lemma serve_line_replies:
  "serve_line j handler (\<lambda>_. True) line c =
     c\<lparr>conn_written := conn_written c @ fst (replies j handler [line] (conn_state c)),
       conn_state := snd (replies j handler [line] (conn_state c))\<rparr>"
  by (cases c) (auto simp: serve_line_def conn_write_def answer_promised unwrap_or_default_def split: prod.splits)

lemma replies_Cons: "replies j handler (line # ls) st =
    (fst (replies j handler [line] st) @ fst (replies j handler ls (snd (replies j handler [line] st))),
     snd (replies j handler ls (snd (replies j handler [line] st))))"
  by (simp split: prod.splits)

text \<open>A connection that has served the lines \<open>ls\<close>, wrote \<open>out\<close> and holds the unfinished line \<open>rest\<close>.\<close>

definition after_lines ::
  "'v json \<Rightarrow> ('v, 's) handler \<Rightarrow> string list \<times> string \<Rightarrow> string list \<Rightarrow> 's connection \<Rightarrow> 's connection" where
  "after_lines j handler lines_rest out c =
     c\<lparr>conn_line := snd lines_rest, conn_written := conn_written c @ out,
       conn_state := snd (replies j handler (fst lines_rest) (conn_state c))\<rparr>"

lemma after_lines_sel [simp]:
  "conn_open (after_lines j handler lr out c) = conn_open c"
  "conn_line (after_lines j handler lr out c) = snd lr"
  "conn_state (after_lines j handler lr out c) = snd (replies j handler (fst lr) (conn_state c))"
  by (simp_all add: after_lines_def)

lemma after_lines_after:
  "after_lines j handler lr' out' (after_lines j handler lr out c) =
    after_lines j handler (fst lr @ fst lr', snd lr') (out @ out') c"
  by (simp add: after_lines_def replies_append)

lemma receive_chars_replies:
  assumes "conn_open c"
  shows "receive_chars j handler (\<lambda>_. True) xs c =
    after_lines j handler (split_lines (conn_line c) xs)
      (fst (replies j handler (fst (split_lines (conn_line c) xs)) (conn_state c))) c"
  using assms
proof (induction xs arbitrary: c)
  case Nil
  then show ?case by (simp add: after_lines_def)
next
  case (Cons x xs)
  show ?case
  proof (cases "x = newline")
    case True
    let ?l = "conn_line c @ [x]"
    let ?c = "serve_line j handler (\<lambda>_. True) ?l (c\<lparr>conn_line := []\<rparr>)"
    have c: "?c = after_lines j handler ([?l], []) (fst (replies j handler [?l] (conn_state c))) c"
      by (simp add: serve_line_replies after_lines_def del: replies.simps)
    have "receive_chars j handler (\<lambda>_. True) (x # xs) c = receive_chars j handler (\<lambda>_. True) xs ?c"
      using Cons.prems True by simp
    also have "\<dots> = after_lines j handler (split_lines [] xs)
        (fst (replies j handler (fst (split_lines [] xs)) (conn_state ?c))) ?c"
      using Cons.IH [of ?c] Cons.prems by (simp add: c del: replies.simps)
    also have "\<dots> = after_lines j handler (?l # fst (split_lines [] xs), snd (split_lines [] xs))
        (fst (replies j handler (?l # fst (split_lines [] xs)) (conn_state c))) c"
      unfolding c after_lines_sel
      by (subst replies_Cons) (simp add: after_lines_after del: replies.simps)
    finally show ?thesis using True by (simp split: prod.splits)
  next
    case False
    then show ?thesis using Cons by (simp add: after_lines_def)
  qed
qed

lemma append_in_shuffles: "zs \<in> shuffles xs ys \<Longrightarrow> us @ zs \<in> shuffles (us @ xs) ys"
  by (induction us) (auto intro: Cons_in_shuffles_leftI)

lemma quiet_connection:
  assumes "quiet (conn_line c) ins" and "conn_open c"
  shows "\<exists>out. fold (conn_step j handler (\<lambda>_. True)) ins c =
        after_lines j handler (split_lines (conn_line c) (text_of ins)) out c \<and>
      out \<in> shuffles (fst (replies j handler (fst (split_lines (conn_line c) (text_of ins))) (conn_state c)))
            (map (\<lambda>e. e @ [newline]) (events_of ins))"
  using assms
proof (induction ins arbitrary: c)
  case Nil
  then show ?case by (simp add: after_lines_def)
next
  case (Cons i ins)
  show ?case
  proof (cases i)
    case (Received t)
    let ?c = "receive_chars j handler (\<lambda>_. True) t c" and ?lr = "split_lines (conn_line c) t"
    have c: "?c = after_lines j handler ?lr (fst (replies j handler (fst ?lr) (conn_state c))) c"
      using Cons.prems by (simp add: receive_chars_replies)
    with Cons.IH [of ?c] Cons.prems Received obtain out where
      out: "out \<in> shuffles (fst (replies j handler (fst (split_lines (snd ?lr) (text_of ins)))
              (snd (replies j handler (fst ?lr) (conn_state c))))) (map (\<lambda>e. e @ [newline]) (events_of ins))" and
      f: "fold (conn_step j handler (\<lambda>_. True)) ins ?c = after_lines j handler (split_lines (snd ?lr) (text_of ins)) out ?c"
      by auto
    have "fold (conn_step j handler (\<lambda>_. True)) (i # ins) c =
        after_lines j handler (split_lines (conn_line c) (text_of (i # ins)))
          (fst (replies j handler (fst ?lr) (conn_state c)) @ out) c"
      using Received f c by (simp add: split_lines_append after_lines_after)
    then show ?thesis
      using out by (intro exI [of _ "fst (replies j handler (fst ?lr) (conn_state c)) @ out"] conjI)
        (simp_all add: Received split_lines_append replies_append append_in_shuffles)
  next
    case (Event e)
    let ?c = "conn_step j handler (\<lambda>_. True) i c"
    have c: "?c = after_lines j handler ([], []) [e @ [newline]] c" and l: "conn_line c = []"
      using Cons.prems Event by (simp_all add: conn_write_def after_lines_def)
    with Cons.IH [of ?c] Cons.prems Event obtain out where
      out: "out \<in> shuffles (fst (replies j handler (fst (split_lines [] (text_of ins))) (conn_state c)))
            (map (\<lambda>e. e @ [newline]) (events_of ins))" and
      f: "fold (conn_step j handler (\<lambda>_. True)) ins ?c = after_lines j handler (split_lines [] (text_of ins)) out ?c"
      by auto
    have "fold (conn_step j handler (\<lambda>_. True)) (i # ins) c =
        after_lines j handler (split_lines (conn_line c) (text_of (i # ins))) ((e @ [newline]) # out) c"
      using f by (simp only: fold_Cons comp_apply c after_lines_after) (simp add: Event l)
    then show ?thesis
      using out by (intro exI [of _ "(e @ [newline]) # out"] conjI) (simp_all add: Event l Cons_in_shuffles_rightI)
  qed (use Cons.prems in simp_all)
qed

lemma quiet_handle_connection:
  assumes "quiet [] ins"
  shows "\<exists>out. handle_connection j handler (\<lambda>_. True) ins st =
        \<lparr>conn_open = True, conn_line = snd (split_lines [] (text_of ins)), conn_written = out,
         conn_state = snd (replies j handler (fst (split_lines [] (text_of ins))) st)\<rparr> \<and>
      out \<in> shuffles (fst (replies j handler (fst (split_lines [] (text_of ins))) st))
            (map (\<lambda>e. e @ [newline]) (events_of ins))"
  using quiet_connection [of "\<lparr>conn_open = True, conn_line = [], conn_written = [], conn_state = st\<rparr>" ins j handler] assms
  by (simp add: handle_connection_def after_lines_def)

lemma trim_newline: "trim (t @ [newline]) = trim t"
proof -
  have w: "is_whitespace newline" by (simp add: is_whitespace_def)
  then have "dropWhile is_whitespace (t @ [newline]) =
      (if dropWhile is_whitespace t = [] then [] else dropWhile is_whitespace t @ [newline])"
    by (induction t) auto
  with w show ?thesis by (simp add: trim_def del: dropWhile_eq_Nil_conv)
qed

section \<open>The server\<close>

text \<open>
  C13: on a connection whose stream neither ends nor fails, whose peer takes every write and whose events
  arrive between lines, every request is answered: however the text is cut into pieces on its way,
  one reply is written for each nonblank line, in order, and for nothing else; the reply to a request
  is the value the handler returns for its method and parameters in the state the earlier requests
  left, or the handler's message with code -32000, under the id of the request, and the reply to a
  line that is no request is a parse error with code -32700; the events are written in order between
  the replies.
\<close>

theorem connection_answers_every_line:
  assumes "quiet [] ins"
  shows "conn_written (handle_connection j handler (\<lambda>_. True) ins st)
      \<in> shuffles (fst (replies j handler (fst (split_lines [] (text_of ins))) st)) (map (\<lambda>e. e @ [newline]) (events_of ins)) \<and>
    conn_state (handle_connection j handler (\<lambda>_. True) ins st)
      = snd (replies j handler (fst (split_lines [] (text_of ins))) st)"
  using quiet_handle_connection [OF assms, of j handler st] by auto

text \<open>A toy instance of the JSON functions: values are numbers, a request is its method.\<close>

definition sample_json :: "nat json" where
  "sample_json = \<lparr>json_null = 0, json_u64 = unat,
     print_request = \<lambda>r. if rq_method r = ''a.b'' then Inr ''a.b'' else Inl ''no'',
     parse_request = \<lambda>t. if t = ''a.b'' then Inr (request_new ''a.b'' None 1) else Inl ''bad'',
     print_response = \<lambda>r. case rs_result r of Some n \<Rightarrow> Some (if n = 0 then ''z'' else ''s'') | None \<Rightarrow> Some ''e'',
     parse_response = \<lambda>t. if t = ''s'' then Inr (response_success 1 5)
       else if t = ''z'' then Inr \<lparr>rs_jsonrpc = ''2.0'', rs_result = None, rs_error = None, rs_id = 1\<rparr>
       else if t = ''e'' then Inr (response_error 1 (- 32000) ''m'')
       else Inl ''no response'',
     print_notification = \<lambda>n. Some ''n'', print_event = \<lambda>e v. ''v''\<rparr>"

definition sample_handler :: "(nat, nat) handler" where
  "sample_handler m p st = (if m = ''b'' then Inr 5 else if m = ''z'' then Inr 0 else Inl ''m'', st + 1)"

definition sample_router :: "(nat, nat) namespaced_handler" where
  "sample_router = add_namespace ''a'' sample_handler router_new"

theorem connection_answers_every_line_witness:
  "conn_state (handle_connection sample_json (handle_namespaced sample_router) (\<lambda>_. True)
     [Received ''a.'', Received ''b'', Received [newline], Event ''v'', Received (''a.b'' @ [newline])] 0) = 2"
proof -
  let ?ins = "[Received ''a.'', Received ''b'', Received [newline], Event ''v'', Received (''a.b'' @ [newline])]"
  have "quiet [] ?ins" by simp
  from conjunct2 [OF connection_answers_every_line [OF this, of sample_json "handle_namespaced sample_router" 0]]
  have "conn_state (handle_connection sample_json (handle_namespaced sample_router) (\<lambda>_. True) ?ins 0)
      = snd (replies sample_json (handle_namespaced sample_router) (fst (split_lines [] (text_of ?ins))) 0)" .
  also have "\<dots> = 2" by code_simp
  finally show ?thesis .
qed

text \<open>
  C33: an event that arrives while a request is only partly received destroys the request: the part
  already read is dropped with the round of \<open>select!\<close> it was read in, and the connection goes on as if
  it had never been sent, so that the rest of the request is taken for a request of its own.
\<close>

theorem event_mid_line_drops_request:
  assumes "newline \<notin> set part"
  shows "handle_connection j handler ok (before @ Received part # Event e # after) st =
    handle_connection j handler ok (before @ Event e # after) st"
proof -
  have keep: "receive_chars j handler ok part c = c\<lparr>conn_line := conn_line c @ part\<rparr>" if "conn_open c" for c :: "'a connection"
    using assms that by (induction part arbitrary: c) auto
  have "receive_chars j handler ok part c = c" if "\<not> conn_open c" for c :: "'a connection"
    using that by (cases part) simp_all
  with keep have "conn_step j handler ok (Event e) (conn_step j handler ok (Received part) c) = conn_step j handler ok (Event e) c"
    for c :: "'a connection"
    by (cases "conn_open c") simp_all
  then show ?thesis by (simp add: handle_connection_def)
qed

theorem event_mid_line_drops_request_witness:
  "conn_written (handle_connection sample_json (handle_namespaced sample_router) (\<lambda>_. True)
     [Received ''a.'', Event ''v'', Received (''b'' @ [newline])] 0) = [''v'' @ [newline], ''e'' @ [newline]]"
proof -
  have "handle_connection sample_json (handle_namespaced sample_router) (\<lambda>_. True)
        ([] @ Received ''a.'' # Event ''v'' # [Received (''b'' @ [newline])]) 0 =
      handle_connection sample_json (handle_namespaced sample_router) (\<lambda>_. True)
        ([] @ Event ''v'' # [Received (''b'' @ [newline])]) 0"
    by (rule event_mid_line_drops_request) simp
  moreover have "conn_written (handle_connection sample_json (handle_namespaced sample_router) (\<lambda>_. True)
        ([] @ Event ''v'' # [Received (''b'' @ [newline])]) 0) = [''v'' @ [newline], ''e'' @ [newline]]"
    by code_simp
  ultimately show ?thesis by simp
qed

section \<open>From the client to the handler and back\<close>

text \<open>\<open>serde\<close> reads a \<open>null\<close> in the place of an \<open>Option\<close> as \<open>None\<close>.\<close>

definition drop_null :: "'v json \<Rightarrow> 'v option \<Rightarrow> 'v option" where
  "drop_null j v = (if v = Some (json_null j) then None else v)"

definition reply_to :: "'v \<Rightarrow> string + 'v \<Rightarrow> 'v rpc_response" where
  "reply_to i res = (case res of Inr v \<Rightarrow> response_success i v | Inl msg \<Rightarrow> response_error i (- 32000) msg)"

text \<open>
  The daemon at the other end of the socket: the events that its connection finds before the request, the
  pieces \<open>chunks text\<close> in which the request arrives, and whatever comes later. The client reads the first
  line of what the connection writes.
\<close>

definition first_line :: "string \<Rightarrow> string" where
  "first_line s = (case split_lines [] s of (l # _, _) \<Rightarrow> l | ([], rest) \<Rightarrow> rest)"

definition connection_exchange ::
  "'v json \<Rightarrow> ('v, 's) handler \<Rightarrow> (nat \<Rightarrow> bool) \<Rightarrow> string list \<Rightarrow> (string \<Rightarrow> string list) \<Rightarrow> conn_input list \<Rightarrow> 's \<Rightarrow>
    string \<Rightarrow> string + string" where
  "connection_exchange j handler ok events chunks later st text =
     Inr (first_line (concat (conn_written
       (handle_connection j handler ok (map Event events @ map Received (chunks text) @ later) st))))"

lemma split_once_eq: "split_once c s = Some (a, b) \<longleftrightarrow> s = a @ c # b \<and> c \<notin> set a"
proof (induction s arbitrary: a)
  case (Cons d s)
  show ?case
  proof (cases "d = c")
    case True
    then show ?thesis by (cases a) auto
  next
    case False
    then have "split_once c (d # s) = Some (a, b) \<longleftrightarrow> (\<exists>a'. a = d # a' \<and> split_once c s = Some (a', b))"
      by (cases "split_once c s") auto
    also have "\<dots> \<longleftrightarrow> (\<exists>a'. a = d # a' \<and> s = a' @ c # b \<and> c \<notin> set a')"
      by (simp only: Cons.IH)
    finally show ?thesis using False by (cases a) auto
  qed
qed simp

lemma route_namespace:
  "CHR ''.'' \<notin> set ns \<Longrightarrow> handlers router ns = Some h \<Longrightarrow> route router (ns @ CHR ''.'' # m) = (Some h, m)"
  using split_once_eq [of "CHR ''.''" "ns @ CHR ''.'' # m" ns m] by (simp add: route_def)

text \<open>A connection only ever appends to what it has written.\<close>

lemma serve_line_appends: "\<exists>out. conn_written (serve_line j handler ok line c) = conn_written c @ out"
  by (auto simp: serve_line_def conn_write_def split: prod.split)

lemma receive_chars_appends: "\<exists>out. conn_written (receive_chars j handler ok xs c) = conn_written c @ out"
proof (induction xs arbitrary: c)
  case (Cons x xs)
  let ?l = "conn_line c @ [x]"
  obtain a where a: "conn_written (serve_line j handler ok ?l (c\<lparr>conn_line := []\<rparr>)) = conn_written c @ a"
    using serve_line_appends [of j handler ok ?l "c\<lparr>conn_line := []\<rparr>"] by auto
  obtain b where "conn_written (receive_chars j handler ok xs (serve_line j handler ok ?l (c\<lparr>conn_line := []\<rparr>))) =
      conn_written (serve_line j handler ok ?l (c\<lparr>conn_line := []\<rparr>)) @ b"
    using Cons.IH by blast
  with a Cons.IH [of "c\<lparr>conn_line := ?l\<rparr>"] show ?case by auto
qed simp

lemma conn_steps_append: "\<exists>out. conn_written (fold (conn_step j handler ok) ins c) = conn_written c @ out"
proof (induction ins arbitrary: c)
  case (Cons i ins)
  have "\<exists>a. conn_written (conn_step j handler ok i c) = conn_written c @ a"
    using receive_chars_appends serve_line_appends [of j handler ok "conn_line c" "c\<lparr>conn_line := []\<rparr>"]
    by (cases i) (auto simp: conn_write_def)
  with Cons.IH [of "conn_step j handler ok i c"] show ?case by auto
qed simp

lemma receive_chars_append:
  "receive_chars j handler ok (xs @ ys) c = receive_chars j handler ok ys (receive_chars j handler ok xs c)"
proof (induction xs arbitrary: c)
  case (Cons x xs)
  have "receive_chars j handler ok ys c = c" if "\<not> conn_open c" using that by (cases ys) simp_all
  with Cons show ?case by auto
qed simp

lemma receive_pieces:
  "fold (conn_step j handler ok) (map Received pieces) c = receive_chars j handler ok (concat pieces) c"
  by (induction pieces arbitrary: c) (simp_all add: receive_chars_append)

lemma receive_line:
  assumes "newline \<notin> set t" and "conn_open c"
  shows "receive_chars j handler ok (t @ [newline]) c =
    serve_line j handler ok (conn_line c @ t @ [newline]) (c\<lparr>conn_line := []\<rparr>)"
  using assms by (induction t arbitrary: c) auto

lemma split_lines_fst: "newline \<notin> set t \<Longrightarrow> fst (split_lines [] (t @ newline # s)) = (t @ [newline]) # fst (split_lines [] s)"
  by (subst split_lines_append) (auto simp: split_lines_no_newline split: prod.split)

lemma first_line_eq: "newline \<notin> set t \<Longrightarrow> first_line (t @ newline # s) = t @ [newline]"
  using split_lines_fst [of t s] by (cases "split_lines [] (t @ newline # s)") (simp add: first_line_def)

text \<open>The first line of the written text is the first event if there is one, and otherwise the reply.\<close>

lemma exchange_event:
  assumes "ok 0" and "newline \<notin> set e"
  shows "connection_exchange j handler ok (e # events) chunks later st text = Inr (e @ [newline])"
proof -
  let ?c = "\<lparr>conn_open = True, conn_line = [], conn_written = [e @ [newline]], conn_state = st\<rparr>"
  obtain out where "conn_written (fold (conn_step j handler ok) (map Event events @ map Received (chunks text) @ later) ?c) =
      (e @ [newline]) # out"
    using conn_steps_append [of j handler ok "map Event events @ map Received (chunks text) @ later" ?c] by auto
  moreover have "handle_connection j handler ok (map Event (e # events) @ map Received (chunks text) @ later) st =
      fold (conn_step j handler ok) (map Event events @ map Received (chunks text) @ later) ?c"
    using assms(1) by (simp add: handle_connection_def conn_write_def)
  ultimately show ?thesis
    using first_line_eq [OF assms(2)] by (simp only: connection_exchange_def) simp
qed

lemma exchange_reply:
  assumes "ok 0" and t: "newline \<notin> set t" "trim t = t" "t \<noteq> []" and "concat (chunks (t @ [newline])) = t @ [newline]"
    and "parse_request j t = Inr req"
    and "print_response j (reply_to (rq_id req) (fst (handler (rq_method req) (rq_params req) st))) = Some u" "newline \<notin> set u"
  shows "connection_exchange j handler ok [] chunks later st (t @ [newline]) = Inr (u @ [newline])"
proof -
  let ?c = "\<lparr>conn_open = True, conn_line = [], conn_written = [], conn_state = st\<rparr>"
  let ?st = "snd (handler (rq_method req) (rq_params req) st)"
  have "answer j handler t st = (reply_to (rq_id req) (fst (handler (rq_method req) (rq_params req) st)), ?st)"
    using assms(6) by (simp add: answer_def reply_to_def split: sum.split prod.split)
  then have "receive_chars j handler ok (t @ [newline]) ?c =
      \<lparr>conn_open = True, conn_line = [], conn_written = [u @ [newline]], conn_state = ?st\<rparr>"
    using receive_line [OF t(1), of ?c j handler ok] assms(1) t(2,3) assms(7)
    by (simp add: serve_line_def trim_newline unwrap_or_default_def conn_write_def)
  moreover obtain out where "conn_written (fold (conn_step j handler ok) later
      \<lparr>conn_open = True, conn_line = [], conn_written = [u @ [newline]], conn_state = ?st\<rparr>) = (u @ [newline]) # out"
    using conn_steps_append [of j handler ok later
        "\<lparr>conn_open = True, conn_line = [], conn_written = [u @ [newline]], conn_state = ?st\<rparr>"] by auto
  ultimately have "conn_written (handle_connection j handler ok (map Received (chunks (t @ [newline])) @ later) st) =
      (u @ [newline]) # out"
    by (simp add: handle_connection_def receive_pieces assms(5))
  then show ?thesis
    using first_line_eq [OF assms(8)] by (simp add: connection_exchange_def)
qed

text \<open>
  C19: a call reaches the handler of its namespace and its answer comes back, unless an event comes first.
  Let the first write of the connection succeed, let the request arrive in any pieces and let the two
  messages that are exchanged survive printing and parsing on one line. If the connection finds no event
  before the request, a client calling \<open>ns.m\<close> on a daemon that has a handler for \<open>ns\<close> gets what this
  handler returns for \<open>m\<close>, its value or its error with code -32000, whatever the connection is sent
  later; but a handler that successfully returns \<open>null\<close> is reported to the caller as an invalid
  response. If an event was broadcast before, the client takes the event's line for its response and,
  where an event does not parse as one, reports an invalid response, although the handler may run.
\<close>

theorem call_reaches_handler:
  assumes "CHR ''.'' \<notin> set ns" and "handlers router ns = Some h"
    and req: "req = request_new (ns @ CHR ''.'' # m) params (json_u64 j (next_id client))"
    and "print_request j req = Inr t" "newline \<notin> set t" "trim t = t" "t \<noteq> []"
    and "parse_request j t = Inr (req\<lparr>rq_params := drop_null j params\<rparr>)"
    and res: "res = fst (h m (drop_null j params) st)"
    and "print_response j (reply_to (rq_id req) res) = Some u" "newline \<notin> set u" "trim u = u"
    and "parse_response j u =
      Inr ((reply_to (rq_id req) res)\<lparr>rs_result := drop_null j (rs_result (reply_to (rq_id req) res))\<rparr>)"
    and "ok 0" and "concat (chunks (t @ [newline])) = t @ [newline]"
    and event: "events \<noteq> [] \<Longrightarrow> newline \<notin> set (hd events) \<and> parse_response j (trim (hd events)) = Inl e"
  shows "send_request j True (connection_exchange j (handle_namespaced router) ok events chunks later st)
      (ns @ CHR ''.'' # m) params client =
    (if events = [] then
       case res of
         Inr v \<Rightarrow> if v = json_null j then Err (InvalidResponse ''No result in response'') else Ok v
       | Inl msg \<Rightarrow> Err (DaemonError (- 32000) msg)
     else Err (InvalidResponse e), client\<lparr>next_id := next_id client + 1\<rparr>)"
proof (cases events)
  case Nil
  have "handle_namespaced router (ns @ CHR ''.'' # m) (drop_null j params) st = h m (drop_null j params) st"
    by (simp add: handle_namespaced_def route_namespace [OF assms(1,2)])
  then have "connection_exchange j (handle_namespaced router) ok events chunks later st (t @ [newline]) = Inr (u @ [newline])"
    using exchange_reply [where ok = ok and chunks = chunks and handler = "handle_namespaced router" and st = st and u = u and later = later,
        OF assms(14,5-7,15,8)] assms(10,11) res req Nil
    by (simp add: request_new_def)
  then show ?thesis
    using assms(4,12,13) req Nil
    by (cases res) (simp_all add: send_request_def Let_def trim_newline reply_to_def response_success_def
        response_error_def drop_null_def)
next
  case (Cons ev evs)
  then show ?thesis
    using event assms(4) req exchange_event [of ok, OF assms(14), of ev j "handle_namespaced router" evs chunks later st "t @ [newline]"]
    by (simp add: send_request_def Let_def trim_newline)
qed

theorem call_reaches_handler_witness:
  "fst (send_request sample_json True
      (connection_exchange sample_json (handle_namespaced sample_router) (\<lambda>n. n = 0) [] (map (\<lambda>c. [c])) [Event ''v''] 0)
      ''a.b'' None (client_new ''sock'')) = Ok 5 \<and>
   fst (send_request sample_json True
      (connection_exchange sample_json (handle_namespaced sample_router) (\<lambda>n. n = 0) [''v''] (map (\<lambda>c. [c])) [] 0)
      ''a.b'' None (client_new ''sock'')) = Err (InvalidResponse ''no response'')"
proof -
  let ?req = "request_new ''a.b'' None 1 :: nat rpc_request"
  have single: "concat (map (\<lambda>c. [c]) (xs :: string)) = xs" for xs by (induction xs) simp_all
  have trims: "trim ''a.b'' = ''a.b''" "trim ''s'' = ''s''" "trim ''v'' = ''v''" by code_simp+
  note call = call_reaches_handler [of "''a''" sample_router sample_handler ?req "''b''" None sample_json
      "client_new ''sock''" "''a.b''" "Inr 5" 0 "''s''" "\<lambda>n. n = 0" "map (\<lambda>c. [c])" _ "''no response''", unfolded single]
  note sample = sample_router_def add_namespace_def client_new_def sample_json_def sample_handler_def request_new_def
    reply_to_def response_success_def drop_null_def
  show ?thesis
    using call [of "[]" "[Event ''v'']"] call [of "[''v'']" "[]"] trims by (simp add: sample)
qed

section \<open>Admission to the WebSocket\<close>

lemma key_pair: "split_once CHR ''='' pair = Some (''key'', v) \<longleftrightarrow> pair = ''key='' @ v"
  by (simp add: split_once_eq)

lemma find_key_skip: "\<forall>v. pair \<noteq> ''key='' @ v \<Longrightarrow> find_key (pair # pairs) = find_key pairs"
  using key_pair [of pair] by (auto split: option.splits)

lemma find_key_hit: "find_key ((''key='' @ v) # pairs) = Some v"
  by (simp only: find_key.simps iffD2 [OF key_pair refl]) simp

lemma find_key_first:
  "\<forall>pair \<in> set before. \<forall>v. pair \<noteq> ''key='' @ v \<Longrightarrow> find_key (before @ (''key='' @ k) # after) = Some k"
proof (induction before)
  case Nil
  show ?case by (simp only: append_Nil find_key_hit)
next
  case (Cons pair before)
  have "find_key (pair # (before @ (''key='' @ k) # after)) = find_key (before @ (''key='' @ k) # after)"
    using Cons.prems by (intro find_key_skip) simp
  with Cons.IH Cons.prems show ?case
    by (simp only: append_Cons) (meson list.set_intros(2))
qed

lemma find_key_found: "find_key pairs = Some k \<Longrightarrow>
    \<exists>before after. pairs = before @ (''key='' @ k) # after \<and> (\<forall>pair \<in> set before. \<forall>v. pair \<noteq> ''key='' @ v)"
proof (induction pairs)
  case (Cons pair pairs)
  show ?case
  proof (cases "\<exists>v. pair = ''key='' @ v")
    case True
    then obtain v where p: "pair = ''key='' @ v" by blast
    then have "v = k" using Cons.prems by (simp only: find_key_hit option.inject)
    then show ?thesis using p by (intro exI [of _ "[]"] exI [of _ pairs]) simp
  next
    case False
    then have "find_key pairs = Some k"
      using Cons.prems find_key_skip [of pair pairs] by metis
    from Cons.IH [OF this] obtain before after where
      "pairs = before @ (''key='' @ k) # after" "\<forall>pair \<in> set before. \<forall>v. pair \<noteq> ''key='' @ v" by blast
    with False show ?thesis by (intro exI [of _ "pair # before"] exI [of _ after]) auto
  qed
qed simp

lemma find_key_eq: "find_key pairs = Some k \<longleftrightarrow>
    (\<exists>before after. pairs = before @ (''key='' @ k) # after \<and> (\<forall>pair \<in> set before. \<forall>v. pair \<noteq> ''key='' @ v))"
  by (metis find_key_first find_key_found)

text \<open>
  a WebSocket handshake is accepted exactly at the paths \<open>/ws\<close> and \<open>/ws/\<close> and, when a key is
  configured, only if the first parameter of the query that is called \<open>key\<close> has this key as its value,
  compared as it stands, without URL decoding.
\<close>

theorem ws_admission_exact:
  "accept_ws auth path query = SwitchingProtocols \<longleftrightarrow> path \<in> {''/ws'', ''/ws/''} \<and>
    (\<forall>k. api_key auth = Some k \<longrightarrow>
      (\<exists>before after. split_on CHR ''&'' (unwrap_or_default query) = before @ (''key='' @ k) # after \<and>
        (\<forall>pair \<in> set before. \<forall>v. pair \<noteq> ''key='' @ v)))"
  unfolding find_key_eq [symmetric] by (auto simp: accept_ws_def split: option.splits)

theorem ws_admission_exact_witness:
  "accept_ws \<lparr>api_key = Some ''s''\<rparr> ''/ws'' (Some ''x=1&key=s&key=t'') = SwitchingProtocols"
proof -
  have "split_on CHR ''&'' (unwrap_or_default (Some ''x=1&key=s&key=t'')) = [''x=1''] @ (''key='' @ ''s'') # [''key=t'']"
    by code_simp
  moreover have "\<forall>pair \<in> set [''x=1'']. \<forall>v. pair \<noteq> ''key='' @ v" by simp
  ultimately show ?thesis
    by (subst ws_admission_exact) (simp only: ws_auth.select_convs option.inject insert_iff, blast)
qed

end
