(* ===== verification/Daemon.thy ===== *)
theory Daemon
  imports Ipc "HOL-Library.Sublist"
begin

text \<open>
  The servers of \<open>crates/ipc/src/server.rs\<close> and \<open>ws.rs\<close> around the loop of one connection (\<open>Ipc\<close>): the
  socket file, the builder and its start, and the daemon as a whole, a step relation in which
  connections are accepted, receive, and are sent events in any interleaving while they share one
  handler. A handler runs as one step; socket files and ports are the state \<open>sockets\<close> and the
  parameters \<open>removable\<close>, \<open>bind_error\<close> and \<open>tcp_error\<close>, which tell which operations fail and how.
\<close>

section \<open>Socket files\<close>

text \<open>The listener a path leads to, and the listeners that still accept.\<close>

record sockets =
  socket_at :: "string \<rightharpoonup> nat"
  listening :: "nat set"

text \<open>\<open>let _ = std::fs::remove_file(..)\<close>\<close>

definition remove_socket :: "(string \<Rightarrow> bool) \<Rightarrow> string \<Rightarrow> sockets \<Rightarrow> sockets" where
  "remove_socket removable path s =
     (if removable path then s\<lparr>socket_at := (socket_at s)(path := None)\<rparr> else s)"

text \<open>\<open>UnixListener::bind\<close>, which never replaces a file; \<open>l\<close> is the new listener.\<close>

definition bind_socket :: "(string \<Rightarrow> string option) \<Rightarrow> string \<Rightarrow> nat \<Rightarrow> sockets \<Rightarrow> (string, sockets) outcome" where
  "bind_socket bind_error path l s =
     (case bind_error path of
        Some e \<Rightarrow> Err e
      | None \<Rightarrow>
          if path \<in> dom (socket_at s) then Err ''Address already in use''
          else Ok (s\<lparr>socket_at := (socket_at s)(path \<mapsto> l), listening := insert l (listening s)\<rparr>))"

text \<open>\<open>IpcServer\<close>: \<open>run\<close> up to its loop, the end of a server whose future is dropped, and \<open>Drop\<close>.\<close>

record ipc_server =
  server_socket :: string

definition server_new :: "string \<Rightarrow> ipc_server" where
  "server_new socket_path = \<lparr>server_socket = socket_path\<rparr>"

definition server_run :: "(string \<Rightarrow> bool) \<Rightarrow> (string \<Rightarrow> string option) \<Rightarrow> ipc_server \<Rightarrow> nat \<Rightarrow> sockets \<Rightarrow>
    (string, sockets) outcome" where
  "server_run removable bind_error self l s =
     bind_socket bind_error (server_socket self) l (remove_socket removable (server_socket self) s)"

definition stop_listening :: "nat \<Rightarrow> sockets \<Rightarrow> sockets" where
  "stop_listening l s = s\<lparr>listening := listening s - {l}\<rparr>"

definition server_drop :: "(string \<Rightarrow> bool) \<Rightarrow> ipc_server \<Rightarrow> sockets \<Rightarrow> sockets" where
  "server_drop removable self s = remove_socket removable (server_socket self) s"

text \<open>\<open>IpcClient::is_daemon_running\<close>: a connection can be opened.\<close>

definition is_daemon_running :: "ipc_client \<Rightarrow> sockets \<Rightarrow> bool" where
  "is_daemon_running self s =
     (case socket_at s (client_socket self) of Some l \<Rightarrow> l \<in> listening s | None \<Rightarrow> False)"

text \<open>\<open>default_socket_path\<close> as compiled for Linux; \<open>runtime_dir\<close> is \<open>XDG_RUNTIME_DIR\<close>.\<close>

definition default_socket_path :: "string option \<Rightarrow> string \<Rightarrow> string" where
  "default_socket_path runtime_dir service =
     (case runtime_dir of
        Some dir \<Rightarrow> dir @ ''/'' @ service @ ''.sock''
      | None \<Rightarrow> ''/tmp/'' @ service @ ''.sock'')"

text \<open>As compiled for Windows (the name of a pipe) and for the remaining systems.\<close>

definition windows_socket_path :: "string \<Rightarrow> string" where
  "windows_socket_path service = [CHR 0x5C, CHR 0x5C, CHR ''.'', CHR 0x5C] @ ''pipe'' @ CHR 0x5C # service"

definition other_socket_path :: "string \<Rightarrow> string" where
  "other_socket_path service = ''/tmp/'' @ service @ ''.sock''"

definition default_socket_path_buf :: "string option \<Rightarrow> string \<Rightarrow> string" where
  "default_socket_path_buf runtime_dir service = default_socket_path runtime_dir service"

section \<open>The builder\<close>

record ('v, 's) server_builder =
  sb_socket_path :: string
  sb_ws_port :: "u16 option"
  sb_ws_auth :: "ws_auth option"
  sb_handler :: "('v, 's) namespaced_handler"

definition server_builder_new :: "string \<Rightarrow> ('v, 's) server_builder" where
  "server_builder_new socket_path =
     \<lparr>sb_socket_path = socket_path, sb_ws_port = None, sb_ws_auth = None, sb_handler = router_new\<rparr>"

definition with_websocket :: "u16 \<Rightarrow> ('v, 's) server_builder \<Rightarrow> ('v, 's) server_builder" where
  "with_websocket port self = self\<lparr>sb_ws_port := Some port\<rparr>"

definition with_api_key :: "string \<Rightarrow> ('v, 's) server_builder \<Rightarrow> ('v, 's) server_builder" where
  "with_api_key key self = self\<lparr>sb_ws_auth := Some \<lparr>api_key = Some key\<rparr>\<rparr>"

definition builder_namespace :: "string \<Rightarrow> ('v, 's) handler \<Rightarrow> ('v, 's) server_builder \<Rightarrow> ('v, 's) server_builder" where
  "builder_namespace ns handler self = self\<lparr>sb_handler := add_namespace ns handler (sb_handler self)\<rparr>"

definition builder_default_handler :: "('v, 's) handler \<Rightarrow> ('v, 's) server_builder \<Rightarrow> ('v, 's) server_builder" where
  "builder_default_handler handler self = self\<lparr>sb_handler := set_default handler (sb_handler self)\<rparr>"

text \<open>The address and the access control of a WebSocket transport, \<open>ws_auth.unwrap_or_default()\<close>.\<close>

definition ws_address :: "u16 \<Rightarrow> string" where
  "ws_address port = ''0.0.0.0:'' @ dec_string (unat port)"

definition ws_access :: "('v, 's) server_builder \<Rightarrow> ws_auth" where
  "ws_access self = (case sb_ws_auth self of None \<Rightarrow> \<lparr>api_key = None\<rparr> | Some auth \<Rightarrow> auth)"

text \<open>
  \<open>ServerBuilder::run\<close> up to the loops of its transports, of which the result tells the access control
  of the WebSocket, if there is one. A transport that cannot be bound ends both.
\<close>

definition builder_run ::
  "(string \<Rightarrow> bool) \<Rightarrow> (string \<Rightarrow> string option) \<Rightarrow> (string \<Rightarrow> string option) \<Rightarrow> ('v, 's) server_builder \<Rightarrow>
    nat \<Rightarrow> sockets \<Rightarrow> (string, ws_auth option) outcome \<times> sockets" where
  "builder_run removable bind_error tcp_error self l s =
     (let s = remove_socket removable (sb_socket_path self) s in
      case bind_socket bind_error (sb_socket_path self) l s of
        Ok s' \<Rightarrow>
          (case sb_ws_port self of
             None \<Rightarrow> (Ok None, s')
           | Some port \<Rightarrow>
               (case tcp_error (ws_address port) of
                  None \<Rightarrow> (Ok (Some (ws_access self)), s')
                | Some e \<Rightarrow> (Err e, stop_listening l (remove_socket removable (sb_socket_path self) s'))))
      | Err e \<Rightarrow> (Err e, s)
      | Panic \<Rightarrow> (Panic, s))"

section \<open>The daemon\<close>

text \<open>
  \<open>links\<close> are the accepted connections in their order. Each subscribes to the broadcast channel when it
  is accepted: \<open>backlog\<close> is what the channel still holds for it, at most the last 256 events; \<open>queue\<close> is
  what the forwarding task of a Unix connection has taken from there, one event in its hand and 64 in
  its channel. When the loop of a connection has ended nothing is taken over or delivered any more. The
  state of the handler is shared; \<open>conn_state\<close> of a connection is its last view of it.
\<close>

datatype 's transport = Unix "'s connection" | Handshake | Ws "'s ws_connection" | Refused http_status

record 's link =
  transport :: "'s transport"
  backlog :: "string list"
  queue :: "string list"

record 's daemon_state =
  links :: "'s link list"
  shared :: 's

record ('v, 's) daemon_env =
  env_json :: "'v json"
  env_handler :: "('v, 's) handler"
  env_ws :: "ws_auth option"
  env_ok :: "nat \<Rightarrow> nat \<Rightarrow> bool"

definition event_capacity :: nat where
  "event_capacity = 256"

definition local_capacity :: nat where
  "local_capacity = 65"

definition conn_start :: "'s \<Rightarrow> 's connection" where
  "conn_start st = \<lparr>conn_open = True, conn_line = [], conn_written = [], conn_state = st\<rparr>"

definition ws_start :: "'s \<Rightarrow> 's ws_connection" where
  "ws_start st = \<lparr>ws_open = True, ws_sent = [], ws_state = st\<rparr>"

definition new_link :: "'s transport \<Rightarrow> 's link" where
  "new_link t = \<lparr>transport = t, backlog = [], queue = []\<rparr>"

definition add_link :: "'s transport \<Rightarrow> 's daemon_state \<Rightarrow> 's daemon_state" where
  "add_link t d = d\<lparr>links := links d @ [new_link t]\<rparr>"

definition set_link :: "nat \<Rightarrow> 's link \<Rightarrow> 's daemon_state \<Rightarrow> 's daemon_state" where
  "set_link i l d = d\<lparr>links := (links d)[i := l]\<rparr>"

text \<open>An input of connection \<open>i\<close>, served in the shared state.\<close>

definition unix_input :: "('v, 's) daemon_env \<Rightarrow> nat \<Rightarrow> conn_input \<Rightarrow> 's connection \<Rightarrow> 's link \<Rightarrow> 's daemon_state \<Rightarrow> 's daemon_state" where
  "unix_input env i input c l d =
     (let c' = conn_step (env_json env) (env_handler env) (env_ok env i) input (c\<lparr>conn_state := shared d\<rparr>)
      in set_link i (l\<lparr>transport := Unix c'\<rparr>) (d\<lparr>shared := conn_state c'\<rparr>))"

definition socket_input :: "('v, 's) daemon_env \<Rightarrow> nat \<Rightarrow> ws_input \<Rightarrow> 's ws_connection \<Rightarrow> 's link \<Rightarrow> 's daemon_state \<Rightarrow> 's daemon_state" where
  "socket_input env i input c l d =
     (let c' = ws_step (env_json env) (env_handler env) (env_ok env i) input (c\<lparr>ws_state := shared d\<rparr>)
      in set_link i (l\<lparr>transport := Ws c'\<rparr>) (d\<lparr>shared := ws_state c'\<rparr>))"

definition send_all :: "string \<Rightarrow> 's daemon_state \<Rightarrow> 's daemon_state" where
  "send_all event d = d\<lparr>links := map (\<lambda>l. l\<lparr>backlog := backlog l @ [event]\<rparr>) (links d)\<rparr>"

text \<open>The task \<open>run_ws_server\<close> spawns for a connection, up to the loop of an accepted one.\<close>

definition upgraded :: "ws_auth \<Rightarrow> string \<Rightarrow> string option \<Rightarrow> 's \<Rightarrow> 's transport" where
  "upgraded auth path query st =
     (case accept_ws auth path query of SwitchingProtocols \<Rightarrow> Ws (ws_start st) | status \<Rightarrow> Refused status)"

text \<open>The forwarding task: it takes an event over, or learns that it lagged.\<close>

definition forward_event :: "'s link \<Rightarrow> 's link" where
  "forward_event l = (case backlog l of [] \<Rightarrow> l | event # rest \<Rightarrow> l\<lparr>backlog := rest, queue := queue l @ [event]\<rparr>)"

definition drop_lagged :: "'s link \<Rightarrow> 's link" where
  "drop_lagged l = l\<lparr>backlog := drop (length (backlog l) - event_capacity) (backlog l)\<rparr>"

fun sent_by_peer :: "conn_input \<Rightarrow> bool" where
  "sent_by_peer (Event e) = False"
| "sent_by_peer _ = True"

fun ws_sent_by_peer :: "ws_input \<Rightarrow> bool" where
  "ws_sent_by_peer (WsEvent e) = False"
| "ws_sent_by_peer (WsLagged n) = False"
| "ws_sent_by_peer WsEventsClosed = False"
| "ws_sent_by_peer _ = True"

datatype daemon_label =
    AcceptUnix | AcceptTcp
  | Upgrade nat string "string option"
  | UnixInput nat conn_input | SocketInput nat ws_input
  | Broadcast string
  | Forward nat | Lag nat
  | DeliverUnix nat string | DeliverSocket nat string

inductive daemon_step :: "('v, 's) daemon_env \<Rightarrow> 's daemon_state \<Rightarrow> daemon_label \<Rightarrow> 's daemon_state \<Rightarrow> bool"
  for env where
  accept_unix: "daemon_step env d AcceptUnix (add_link (Unix (conn_start (shared d))) d)"
| accept_tcp: "env_ws env = Some auth \<Longrightarrow> daemon_step env d AcceptTcp (add_link Handshake d)"
| upgrade: "i < length (links d) \<Longrightarrow> transport (links d ! i) = Handshake \<Longrightarrow> env_ws env = Some auth \<Longrightarrow>
    daemon_step env d (Upgrade i path query)
      (set_link i ((links d ! i)\<lparr>transport := upgraded auth path query (shared d)\<rparr>) d)"
| unix_input: "i < length (links d) \<Longrightarrow> transport (links d ! i) = Unix c \<Longrightarrow> sent_by_peer input \<Longrightarrow>
    daemon_step env d (UnixInput i input) (unix_input env i input c (links d ! i) d)"
| socket_input: "i < length (links d) \<Longrightarrow> transport (links d ! i) = Ws c \<Longrightarrow> ws_sent_by_peer input \<Longrightarrow>
    daemon_step env d (SocketInput i input) (socket_input env i input c (links d ! i) d)"
| broadcast: "daemon_step env d (Broadcast event) (send_all event d)"
| forward: "i < length (links d) \<Longrightarrow> transport (links d ! i) = Unix c \<Longrightarrow> conn_open c \<Longrightarrow> backlog (links d ! i) \<noteq> [] \<Longrightarrow>
    length (backlog (links d ! i)) \<le> event_capacity \<Longrightarrow> length (queue (links d ! i)) < local_capacity \<Longrightarrow>
    daemon_step env d (Forward i) (set_link i (forward_event (links d ! i)) d)"
| lag: "i < length (links d) \<Longrightarrow> event_capacity < length (backlog (links d ! i)) \<Longrightarrow>
    daemon_step env d (Lag i) (set_link i (drop_lagged (links d ! i)) d)"
| deliver_unix: "i < length (links d) \<Longrightarrow> transport (links d ! i) = Unix c \<Longrightarrow> conn_open c \<Longrightarrow> queue (links d ! i) = event # rest \<Longrightarrow>
    daemon_step env d (DeliverUnix i event)
      (unix_input env i (Event event) c ((links d ! i)\<lparr>queue := rest\<rparr>) d)"
| deliver_socket: "i < length (links d) \<Longrightarrow> transport (links d ! i) = Ws c \<Longrightarrow> ws_open c \<Longrightarrow> backlog (links d ! i) = event # rest \<Longrightarrow>
    length (backlog (links d ! i)) \<le> event_capacity \<Longrightarrow>
    daemon_step env d (DeliverSocket i event)
      (socket_input env i (WsEvent event) c ((links d ! i)\<lparr>backlog := rest\<rparr>) d)"

inductive_cases daemon_stepE: "daemon_step env d l d'"

text \<open>Runs, with the latest label first.\<close>

inductive daemon_run :: "('v, 's) daemon_env \<Rightarrow> 's \<Rightarrow> daemon_label list \<Rightarrow> 's daemon_state \<Rightarrow> bool"
  for env st where
  start: "daemon_run env st [] \<lparr>links = [], shared = st\<rparr>"
| step: "daemon_run env st tr d \<Longrightarrow> daemon_step env d l d' \<Longrightarrow> daemon_run env st (l # tr) d'"

text \<open>What a run tells about connection \<open>i\<close>: its inputs, the events sent since it was accepted, and those delivered.\<close>

definition is_accept :: "daemon_label \<Rightarrow> bool" where
  "is_accept l \<longleftrightarrow> l = AcceptUnix \<or> l = AcceptTcp"

definition accepted :: "daemon_label list \<Rightarrow> nat" where
  "accepted tr = length (filter is_accept tr)"

primrec inputs_of :: "nat \<Rightarrow> daemon_label list \<Rightarrow> conn_input list" where
  "inputs_of i [] = []"
| "inputs_of i (l # tr) = inputs_of i tr @
     (case l of UnixInput k input \<Rightarrow> if k = i then [input] else []
      | DeliverUnix k event \<Rightarrow> if k = i then [Event event] else [] | _ \<Rightarrow> [])"

primrec ws_inputs_of :: "nat \<Rightarrow> daemon_label list \<Rightarrow> ws_input list" where
  "ws_inputs_of i [] = []"
| "ws_inputs_of i (l # tr) = ws_inputs_of i tr @
     (case l of SocketInput k input \<Rightarrow> if k = i then [input] else []
      | DeliverSocket k event \<Rightarrow> if k = i then [WsEvent event] else [] | _ \<Rightarrow> [])"

primrec events_since :: "nat \<Rightarrow> daemon_label list \<Rightarrow> string list" where
  "events_since i [] = []"
| "events_since i (l # tr) = events_since i tr @
     (case l of Broadcast event \<Rightarrow> if i < accepted tr then [event] else [] | _ \<Rightarrow> [])"

primrec delivered :: "nat \<Rightarrow> daemon_label list \<Rightarrow> string list" where
  "delivered i [] = []"
| "delivered i (l # tr) = delivered i tr @
     (case l of DeliverUnix k event \<Rightarrow> if k = i then [event] else []
      | DeliverSocket k event \<Rightarrow> if k = i then [event] else [] | _ \<Rightarrow> [])"

section \<open>Links of a run\<close>

lemma links_simps [simp]:
  "length (links (set_link i l d)) = length (links d)"
  "length (links (add_link t d)) = Suc (length (links d))"
  "length (links (send_all event d)) = length (links d)"
  "shared (set_link i l d) = shared d" "shared (add_link t d) = shared d" "shared (send_all event d) = shared d"
  by (simp_all add: set_link_def add_link_def send_all_def)

lemma length_input [simp]:
  "length (links (unix_input env i input c l d)) = length (links d)"
  "length (links (socket_input env i ws c' l d)) = length (links d)"
  by (simp_all add: unix_input_def socket_input_def set_link_def Let_def)

lemma nth_links [simp]:
  "k < length (links d) \<Longrightarrow> links (set_link i l d) ! k = (if k = i then l else links d ! k)"
  "k < length (links d) \<Longrightarrow> links (send_all event d) ! k = (links d ! k)\<lparr>backlog := backlog (links d ! k) @ [event]\<rparr>"
  "k < Suc (length (links d)) \<Longrightarrow> links (add_link t d) ! k = (if k = length (links d) then new_link t else links d ! k)"
  by (auto simp: set_link_def send_all_def add_link_def nth_append less_Suc_eq)

lemma nth_unix_input:
  "k < length (links d) \<Longrightarrow> links (unix_input env i input c l d) ! k =
    (if k = i then l\<lparr>transport := Unix (conn_step (env_json env) (env_handler env) (env_ok env i) input (c\<lparr>conn_state := shared d\<rparr>))\<rparr>
     else links d ! k)"
  by (simp add: unix_input_def set_link_def Let_def)

lemma nth_socket_input:
  "k < length (links d) \<Longrightarrow> links (socket_input env i input c l d) ! k =
    (if k = i then l\<lparr>transport := Ws (ws_step (env_json env) (env_handler env) (env_ok env i) input (c\<lparr>ws_state := shared d\<rparr>))\<rparr>
     else links d ! k)"
  by (simp add: socket_input_def set_link_def Let_def)

lemmas nth_input = nth_unix_input nth_socket_input

lemma accepted_simps [simp]:
  "accepted [] = 0" "accepted (l # tr) = (if is_accept l then Suc (accepted tr) else accepted tr)"
  by (simp_all add: accepted_def)

lemma step_length: "daemon_step env d l d' \<Longrightarrow> length (links d') = (if is_accept l then Suc (length (links d)) else length (links d))"
  by (erule daemon_stepE) (simp_all add: is_accept_def)

lemma run_length: "daemon_run env st tr d \<Longrightarrow> length (links d) = accepted tr"
  by (induction rule: daemon_run.induct) (simp_all add: step_length)

text \<open>The connection a label is about.\<close>

fun label_link :: "daemon_label \<Rightarrow> nat option" where
  "label_link (Upgrade i p q) = Some i"
| "label_link (UnixInput i input) = Some i"
| "label_link (SocketInput i input) = Some i"
| "label_link (Forward i) = Some i"
| "label_link (Lag i) = Some i"
| "label_link (DeliverUnix i e) = Some i"
| "label_link (DeliverSocket i e) = Some i"
| "label_link _ = None"

lemma step_label: "daemon_step env d l d' \<Longrightarrow> label_link l = Some i \<Longrightarrow> i < length (links d)"
  by (erule daemon_stepE) simp_all

lemma projections_other:
  assumes "label_link l \<noteq> Some i"
  shows "inputs_of i (l # tr) = inputs_of i tr" and "ws_inputs_of i (l # tr) = ws_inputs_of i tr"
    and "delivered i (l # tr) = delivered i tr"
  using assms by (cases l; simp)+

lemma run_fresh:
  "daemon_run env st tr d \<Longrightarrow> accepted tr \<le> i \<Longrightarrow>
    inputs_of i tr = [] \<and> ws_inputs_of i tr = [] \<and> delivered i tr = [] \<and> events_since i tr = []"
proof (induction rule: daemon_run.induct)
  case (step tr d l d')
  have "label_link l \<noteq> Some i"
    using step_label [OF step.hyps(2)] step.prems run_length [OF step.hyps(1)] by (auto split: if_splits)
  moreover have "accepted tr \<le> i" using step.prems by (auto split: if_splits)
  ultimately show ?case
    using step.IH projections_other [of l i tr] by (auto split: daemon_label.splits)
qed simp

lemma step_other:
  assumes "daemon_step env d l d'" and "label_link l \<noteq> Some k" and "k < length (links d)"
  shows "transport (links d' ! k) = transport (links d ! k) \<and> queue (links d' ! k) = queue (links d ! k) \<and>
    backlog (links d' ! k) = backlog (links d ! k) @ (case l of Broadcast event \<Rightarrow> [event] | _ \<Rightarrow> [])"
  using assms by (cases rule: daemon_step.cases) (auto simp: nth_input)

section \<open>Connections do not disturb one another\<close>

text \<open>A handler whose answers do not depend on its state.\<close>

definition answers_regardless :: "('v, 's) handler \<Rightarrow> bool" where
  "answers_regardless h \<longleftrightarrow> (\<forall>m p st st'. fst (h m p st) = fst (h m p st'))"

text \<open>All of a connection but its view of the shared state.\<close>

definition conn_view :: "'s connection \<Rightarrow> bool \<times> string \<times> string list" where
  "conn_view c = (conn_open c, conn_line c, conn_written c)"

definition ws_view :: "'s ws_connection \<Rightarrow> bool \<times> ws_output list" where
  "ws_view c = (ws_open c, ws_sent c)"

lemma conn_view_eq: "conn_view c = conn_view c' \<longleftrightarrow> (\<exists>st. c' = c\<lparr>conn_state := st\<rparr>)"
  by (cases c; cases c') (auto simp: conn_view_def)

lemma ws_view_eq: "ws_view c = ws_view c' \<longleftrightarrow> (\<exists>st. c' = c\<lparr>ws_state := st\<rparr>)"
  by (cases c; cases c') (auto simp: ws_view_def)

lemma answer_view: "answers_regardless h \<Longrightarrow> fst (answer j h t st) = fst (answer j h t st')"
  unfolding answers_regardless_def answer_def
  by (auto split: sum.splits prod.splits) (metis fst_conv sum.inject sum.distinct(1))+

lemma conn_view_sel:
  "conn_view c = conn_view c' \<Longrightarrow> conn_open c = conn_open c' \<and> conn_line c = conn_line c' \<and>
    conn_view (c\<lparr>conn_line := line\<rparr>) = conn_view (c'\<lparr>conn_line := line\<rparr>) \<and>
    conn_view (c\<lparr>conn_open := False\<rparr>) = conn_view (c'\<lparr>conn_open := False\<rparr>) \<and>
    conn_view (conn_write ok text c) = conn_view (conn_write ok text c')"
  by (simp add: conn_view_def conn_write_def)

lemma conn_view_state [simp]: "conn_view (c\<lparr>conn_state := st\<rparr>) = conn_view c"
  by (simp add: conn_view_def)

lemma serve_line_view:
  assumes "answers_regardless h" and "conn_view c = conn_view c'"
  shows "conn_view (serve_line j h ok line c) = conn_view (serve_line j h ok line c')"
proof -
  obtain r s where r: "answer j h (trim line) (conn_state c) = (r, s)" by fastforce
  obtain r' s' where r': "answer j h (trim line) (conn_state c') = (r', s')" by fastforce
  have "r' = r"
    using answer_view [OF assms(1), of j "trim line" "conn_state c" "conn_state c'"] r r' by simp
  moreover have "conn_view (c\<lparr>conn_state := s\<rparr>) = conn_view (c'\<lparr>conn_state := s'\<rparr>)" using assms(2) by simp
  then have "conn_view (conn_write ok t (c\<lparr>conn_state := s\<rparr>)) = conn_view (conn_write ok t (c'\<lparr>conn_state := s'\<rparr>))" for t
    using conn_view_sel by blast
  ultimately show ?thesis
    using assms(2) by (simp add: serve_line_def r r')
qed

lemma receive_chars_view:
  assumes "answers_regardless h"
  shows "conn_view c = conn_view c' \<Longrightarrow> conn_view (receive_chars j h ok xs c) = conn_view (receive_chars j h ok xs c')"
proof (induction xs arbitrary: c c')
  case (Cons x xs)
  note view = conn_view_sel [OF Cons.prems]
  have 1: "conn_view (serve_line j h ok (conn_line c @ [x]) (c\<lparr>conn_line := []\<rparr>)) =
      conn_view (serve_line j h ok (conn_line c' @ [x]) (c'\<lparr>conn_line := []\<rparr>))"
    using serve_line_view [OF assms, of "c\<lparr>conn_line := []\<rparr>" "c'\<lparr>conn_line := []\<rparr>"] view by metis
  have 2: "conn_view (c\<lparr>conn_line := conn_line c @ [x]\<rparr>) = conn_view (c'\<lparr>conn_line := conn_line c' @ [x]\<rparr>)"
    using view by metis
  have "conn_open c = conn_open c'" using view by blast
  with Cons.IH [OF 1] Cons.IH [OF 2] Cons.prems show ?case by (simp only: receive_chars.simps split: if_split) blast
qed simp

lemma conn_step_view:
  assumes "answers_regardless h" and "conn_view c = conn_view c'"
  shows "conn_view (conn_step j h ok input c) = conn_view (conn_step j h ok input c')"
proof (cases input)
  case (Received t)
  then show ?thesis using receive_chars_view [OF assms] by simp
next
  case (Event e)
  note view = conn_view_sel [OF assms(2)]
  then have "conn_view (c\<lparr>conn_line := []\<rparr>) = conn_view (c'\<lparr>conn_line := []\<rparr>)" by blast
  from conn_view_sel [OF this] view assms(2) Event show ?thesis by simp
next
  case Eof
  note view = conn_view_sel [OF assms(2)]
  then show ?thesis
    using Eof assms serve_line_view [OF assms(1), of "c\<lparr>conn_line := []\<rparr>" "c'\<lparr>conn_line := []\<rparr>"] by simp
next
  case ReadFailed
  with conn_view_sel [OF assms(2)] show ?thesis by simp
qed

lemma ws_step_view:
  assumes "answers_regardless h" and "ws_view c = ws_view c'"
  shows "ws_view (ws_step j h ok input c) = ws_view (ws_step j h ok input c')"
  using assms(2) answer_view [OF assms(1), of j _ "ws_state c" "ws_state c'"]
  by (cases input) (auto simp: ws_view_def ws_send_def split: prod.splits, (metis fst_conv)+)

text \<open>An invariant of every connection: it holds of a new one, and every step keeps it.\<close>

lemma run_link_invariant:
  assumes run: "daemon_run env st tr d" and "i < length (links d)"
    and new: "\<And>tr l t. inputs_of i tr = [] \<Longrightarrow> ws_inputs_of i tr = [] \<Longrightarrow> delivered i tr = [] \<Longrightarrow> events_since i tr = [] \<Longrightarrow>
      is_accept l \<Longrightarrow> t = Handshake \<or> (\<exists>s. t = Unix (conn_start s)) \<Longrightarrow> P (l # tr) (new_link t)"
    and own: "\<And>tr d l d'. P tr (links d ! i) \<Longrightarrow> daemon_step env d l d' \<Longrightarrow> label_link l = Some i \<Longrightarrow>
      i < length (links d) \<Longrightarrow> P (l # tr) (links d' ! i)"
    and other: "\<And>tr link link' l. P tr link \<Longrightarrow> label_link l \<noteq> Some i \<Longrightarrow> i < accepted tr \<Longrightarrow>
      transport link' = transport link \<Longrightarrow> queue link' = queue link \<Longrightarrow>
      backlog link' = backlog link @ (case l of Broadcast event \<Rightarrow> [event] | _ \<Rightarrow> []) \<Longrightarrow> P (l # tr) link'"
  shows "P tr (links d ! i)"
  using run assms(2)
proof (induction rule: daemon_run.induct)
  case (step tr d l d')
  show ?case
  proof (cases "i < length (links d)")
    case True
    show ?thesis
    proof (cases "label_link l = Some i")
      case own_label: True
      show ?thesis by (rule own [OF step.IH [OF True] step.hyps(2) own_label True])
    next
      case False
      from step_other [OF step.hyps(2) this True] show ?thesis
        using True run_length [OF step.hyps(1)] by (intro other [OF step.IH [OF True] False]) simp_all
    qed
  next
    case False
    then have acc: "is_accept l" and i: "i = length (links d)"
      using step.prems step_length [OF step.hyps(2)] by (simp_all split: if_splits)
    have "accepted tr \<le> i" using False run_length [OF step.hyps(1)] by simp
    note fresh = run_fresh [OF step.hyps(1) this]
    from step.hyps(2) acc i obtain t where "links d' ! i = new_link t" "t = Handshake \<or> (\<exists>s. t = Unix (conn_start s))"
      by (cases rule: daemon_step.cases) (auto simp: is_accept_def)
    with fresh acc show ?thesis by (auto intro: new)
  qed
qed simp

lemma handle_connection_snoc:
  "handle_connection j h ok (ins @ [i]) st = conn_step j h ok i (handle_connection j h ok ins st)"
  by (simp add: handle_connection_def)

lemma handle_ws_connection_snoc:
  "handle_ws_connection j h ok (ins @ [i]) st = ws_step j h ok i (handle_ws_connection j h ok ins st)"
  by (simp add: handle_ws_connection_def)

lemma handle_start:
  "conn_view (conn_start s) = conn_view (handle_connection j h ok [] st)"
  "ws_view (ws_start s) = ws_view (handle_ws_connection j h ok [] st)"
  by (simp_all add: conn_view_def conn_start_def handle_connection_def ws_view_def ws_start_def handle_ws_connection_def)

text \<open>Connection \<open>i\<close> after a run, as it would be if it had been the only one.\<close>

definition runs_alone :: "('v, 's) daemon_env \<Rightarrow> 's \<Rightarrow> nat \<Rightarrow> daemon_label list \<Rightarrow> 's transport \<Rightarrow> bool" where
  "runs_alone env st i tr t =
     (case t of
        Unix c \<Rightarrow> conn_view c = conn_view (handle_connection (env_json env) (env_handler env) (env_ok env i) (inputs_of i tr) st)
      | Ws c \<Rightarrow> ws_view c = ws_view (handle_ws_connection (env_json env) (env_handler env) (env_ok env i) (ws_inputs_of i tr) st)
      | _ \<Rightarrow> inputs_of i tr = [] \<and> ws_inputs_of i tr = [])"

lemma step_runs_alone:
  assumes h: "answers_regardless (env_handler env)" and alone: "runs_alone env st i tr (transport (links d ! i))"
    and "daemon_step env d l d'" and "label_link l = Some i" and i: "i < length (links d)"
  shows "runs_alone env st i (l # tr) (transport (links d' ! i))"
  using assms(3)
proof (cases rule: daemon_step.cases)
  case (upgrade k auth path query)
  with assms(4) have "k = i" by simp
  with upgrade alone i handle_start show ?thesis
    by (auto simp: runs_alone_def upgraded_def split: http_status.splits)
next
  case (unix_input k c input)
  with assms(4) have "k = i" by simp
  with unix_input alone i show ?thesis
    by (auto simp: runs_alone_def nth_input handle_connection_snoc simp del: conn_step.simps intro!: conn_step_view [OF h])
next
  case (socket_input k c input)
  with assms(4) have k: "k = i" by simp
  have "ws_view (c\<lparr>ws_state := shared d\<rparr>) = ws_view c" by (simp add: ws_view_def)
  with k socket_input alone i show ?thesis
    by (auto simp: runs_alone_def nth_input handle_ws_connection_snoc simp del: ws_step.simps intro!: ws_step_view [OF h])
next
  case (deliver_unix k c event rest)
  with assms(4) have "k = i" by simp
  with deliver_unix alone i show ?thesis
    by (auto simp: runs_alone_def nth_input handle_connection_snoc simp del: conn_step.simps intro!: conn_step_view [OF h])
next
  case (deliver_socket k c event rest)
  with assms(4) have k: "k = i" by simp
  have "ws_view (c\<lparr>ws_state := shared d\<rparr>) = ws_view c" by (simp add: ws_view_def)
  with k deliver_socket alone i show ?thesis
    by (auto simp: runs_alone_def nth_input handle_ws_connection_snoc simp del: ws_step.simps intro!: ws_step_view [OF h])
qed (use assms(4) alone i in \<open>auto simp: runs_alone_def forward_event_def drop_lagged_def split: transport.splits list.splits\<close>)

lemma run_alone:
  assumes "answers_regardless (env_handler env)" and "daemon_run env st tr d" and "i < length (links d)"
  shows "runs_alone env st' i tr (transport (links d ! i))"
proof (rule run_link_invariant [where P = "\<lambda>tr link. runs_alone env st' i tr (transport link)", OF assms(2,3)])
  fix tr l and t :: "'b transport"
  assume fresh: "inputs_of i tr = []" "ws_inputs_of i tr = []" "is_accept l"
    and "t = Handshake \<or> (\<exists>s. t = Unix (conn_start s))"
  then have none: "inputs_of i (l # tr) = []" "ws_inputs_of i (l # tr) = []" by (auto simp: is_accept_def)
  from \<open>t = Handshake \<or> _\<close> show "runs_alone env st' i (l # tr) (transport (new_link t))"
    unfolding new_link_def runs_alone_def none using handle_start(1) by auto
next
  fix tr and link link' :: "'b link" and l
  assume "runs_alone env st' i tr (transport link)" and other: "label_link l \<noteq> Some i"
    and same: "transport link' = transport link"
  then show "runs_alone env st' i (l # tr) (transport link')"
    unfolding runs_alone_def projections_other [OF other] same by blast
qed (rule step_runs_alone [OF assms(1)])

text \<open>
  What a WebSocket whose peer takes every message is sent, independently of the code: the promised
  response to every text, a pong with the same bytes for every ping and every event, in the order of
  what comes in, until the peer closes, fails or is gone.
\<close>

fun ws_replies :: "'v json \<Rightarrow> ('v, 's) handler \<Rightarrow> ws_input list \<Rightarrow> 's \<Rightarrow> ws_output list" where
  "ws_replies j handler [] st = []"
| "ws_replies j handler (WsText text # ins) st =
     (case promised_response j handler text st of (response, st') \<Rightarrow>
       TextOut (case print_response j response of Some t \<Rightarrow> t | None \<Rightarrow> []) # ws_replies j handler ins st')"
| "ws_replies j handler (WsPing data # ins) st = PongOut data # ws_replies j handler ins st"
| "ws_replies j handler (WsEvent event # ins) st = TextOut event # ws_replies j handler ins st"
| "ws_replies j handler (WsOther # ins) st = ws_replies j handler ins st"
| "ws_replies j handler (WsLagged n # ins) st = ws_replies j handler ins st"
| "ws_replies j handler (WsClose # ins) st = []"
| "ws_replies j handler (WsError # ins) st = []"
| "ws_replies j handler (WsEnd # ins) st = []"
| "ws_replies j handler (WsEventsClosed # ins) st = []"

lemma ws_closed: "\<not> ws_open c \<Longrightarrow> fold (ws_step j handler ok) ins c = c"
  by (induction ins) simp_all

lemma ws_loop_replies:
  "ws_open c \<Longrightarrow> ws_sent (fold (ws_step j handler (\<lambda>_. True)) ins c) = ws_sent c @ ws_replies j handler ins (ws_state c)"
proof (induction ins arbitrary: c)
  case (Cons input ins)
  note here = ws_step.simps [of j handler "\<lambda>_. True" input c]
  from Cons here show ?case
    by (cases input)
      (simp_all add: ws_send_def ws_closed answer_promised unwrap_or_default_def split: prod.split del: ws_step.simps)
qed simp

lemma ws_connection_replies:
  "ws_sent (handle_ws_connection j handler (\<lambda>_. True) ins st) = ws_replies j handler ins st"
  by (simp add: handle_ws_connection_def ws_loop_replies)

section \<open>Events\<close>

text \<open>Nothing is between the events sent and those delivered but the two queues; only lagging loses some.\<close>

definition events_kept :: "nat \<Rightarrow> daemon_label list \<Rightarrow> 's link \<Rightarrow> bool" where
  "events_kept i tr link \<longleftrightarrow>
     subseq (delivered i tr @ queue link @ backlog link) (events_since i tr) \<and>
     (Lag i \<in> set tr \<or> delivered i tr @ queue link @ backlog link = events_since i tr) \<and>
     (queue link = [] \<or> (\<exists>c. transport link = Unix c))"

lemma subseq_drop_middle: "subseq (xs @ ys @ zs) us \<Longrightarrow> subseq (xs @ ys @ drop n zs) us"
proof -
  have "subseq (drop n zs) zs" by (metis append_take_drop_id list_emb_append2 subseq_order.refl)
  then have "subseq (xs @ ys @ drop n zs) (xs @ ys @ zs)" by (simp add: subseq_append')
  then show "subseq (xs @ ys @ zs) us \<Longrightarrow> subseq (xs @ ys @ drop n zs) us" by (rule subseq_order.trans)
qed

lemma step_events_kept:
  assumes "events_kept i tr (links d ! i)" and "daemon_step env d l d'" and "label_link l = Some i" and "i < length (links d)"
  shows "events_kept i (l # tr) (links d' ! i)"
  using assms(2)
proof (cases rule: daemon_step.cases)
  case (lag k)
  with assms(3) have "k = i" by simp
  with lag assms(1,4) show ?thesis by (auto simp: events_kept_def drop_lagged_def intro: subseq_drop_middle)
qed (use assms(1,3,4) in \<open>auto simp: events_kept_def nth_input forward_event_def upgraded_def split: list.splits\<close>)

lemma run_events_kept:
  assumes "daemon_run env st tr d" and "i < length (links d)"
  shows "events_kept i tr (links d ! i)"
proof (rule run_link_invariant [where P = "events_kept i", OF assms])
  fix tr l and t :: "'b transport"
  assume "delivered i tr = []" "events_since i tr = []" "is_accept l"
  then show "events_kept i (l # tr) (new_link t)" by (auto simp: events_kept_def new_link_def is_accept_def)
next
  fix tr and link link' :: "'b link" and l
  assume kept: "events_kept i tr link" and other: "label_link l \<noteq> Some i" and i: "i < accepted tr"
    and link': "transport link' = transport link" "queue link' = queue link"
      "backlog link' = backlog link @ (case l of Broadcast event \<Rightarrow> [event] | _ \<Rightarrow> [])"
  let ?e = "case l of Broadcast event \<Rightarrow> [event] | _ \<Rightarrow> []"
  have since: "events_since i (l # tr) = events_since i tr @ ?e" using i by (auto split: daemon_label.splits)
  have "subseq ((delivered i tr @ queue link @ backlog link) @ ?e) (events_since i tr @ ?e)"
    using kept by (intro list_emb_append_mono) (auto simp: events_kept_def)
  then show "events_kept i (l # tr) link'"
    using kept unfolding events_kept_def projections_other(3) [OF other] since link' by auto
qed (rule step_events_kept)

text \<open>The forwarding task of an open Unix connection can always hand over what is queued.\<close>

lemma drain_queue:
  assumes "\<And>n. env_ok env i n"
  shows "daemon_run env st tr d \<Longrightarrow> i < length (links d) \<Longrightarrow> transport (links d ! i) = Unix c \<Longrightarrow> conn_open c \<Longrightarrow>
    queue (links d ! i) = es \<Longrightarrow>
    \<exists>tr' d' c'. daemon_run env st (tr' @ tr) d' \<and> set tr' \<subseteq> range (DeliverUnix i) \<and> length (links d') = length (links d) \<and>
      links d' ! i = \<lparr>transport = Unix c', backlog = backlog (links d ! i), queue = []\<rparr> \<and> conn_open c' \<and>
      conn_written c' = conn_written c @ map (\<lambda>e. e @ [newline]) es \<and> delivered i (tr' @ tr) = delivered i tr @ es"
proof (induction es arbitrary: tr d c)
  case Nil
  then show ?case by (intro exI [of _ "[]"] exI [of _ d] exI [of _ c]) (cases "links d ! i", simp)
next
  case (Cons e es)
  let ?d = "unix_input env i (Event e) c ((links d ! i)\<lparr>queue := es\<rparr>) d"
  let ?c = "c\<lparr>conn_state := shared d, conn_line := [], conn_written := conn_written c @ [e @ [newline]]\<rparr>"
  have s: "daemon_step env d (DeliverUnix i e) ?d"
    using Cons.prems by (intro daemon_step.deliver_unix) simp_all
  have link: "links ?d ! i = (links d ! i)\<lparr>queue := es, transport := Unix ?c\<rparr>"
    using Cons.prems assms by (simp add: nth_input conn_write_def)
  obtain tr' d' c' where "daemon_run env st (tr' @ DeliverUnix i e # tr) d'" "set tr' \<subseteq> range (DeliverUnix i)"
    "length (links d') = length (links d)" "links d' ! i = \<lparr>transport = Unix c', backlog = backlog (links d ! i), queue = []\<rparr>"
    "conn_open c'" "conn_written c' = conn_written c @ [e @ [newline]] @ map (\<lambda>e. e @ [newline]) es"
    "delivered i (tr' @ DeliverUnix i e # tr) = delivered i tr @ e # es"
    using Cons.IH [OF daemon_run.step [OF Cons.prems(1) s], of ?c] Cons.prems link by auto
  then show ?case
    by (intro exI [of _ "tr' @ [DeliverUnix i e]"] exI [of _ d'] exI [of _ c']) auto
qed

lemma drain_backlog:
  assumes ok: "\<And>n. env_ok env i n"
  shows "daemon_run env st tr d \<Longrightarrow> i < length (links d) \<Longrightarrow> links d ! i = \<lparr>transport = Unix c, backlog = es, queue = []\<rparr> \<Longrightarrow>
    conn_open c \<Longrightarrow> length es \<le> event_capacity \<Longrightarrow>
    \<exists>tr' d' c'. daemon_run env st (tr' @ tr) d' \<and> set tr' \<subseteq> insert (Forward i) (range (DeliverUnix i)) \<and> length (links d') = length (links d) \<and>
      links d' ! i = \<lparr>transport = Unix c', backlog = [], queue = []\<rparr> \<and> conn_open c' \<and>
      conn_written c' = conn_written c @ map (\<lambda>e. e @ [newline]) es \<and> delivered i (tr' @ tr) = delivered i tr @ es"
proof (induction es arbitrary: tr d c)
  case Nil
  then show ?case by (intro exI [of _ "[]"] exI [of _ d] exI [of _ c]) simp
next
  case (Cons e es)
  let ?d = "set_link i (forward_event (links d ! i)) d"
  have "daemon_step env d (Forward i) ?d"
    using Cons.prems by (intro daemon_step.forward) (simp_all add: local_capacity_def)
  note run = daemon_run.step [OF Cons.prems(1) this]
  obtain tr' d' c' where *: "daemon_run env st (tr' @ Forward i # tr) d'" "set tr' \<subseteq> range (DeliverUnix i)"
    "length (links d') = length (links d)" "links d' ! i = \<lparr>transport = Unix c', backlog = es, queue = []\<rparr>"
    "conn_open c'" "conn_written c' = conn_written c @ [e @ [newline]]"
    "delivered i (tr' @ Forward i # tr) = delivered i tr @ [e]"
    using drain_queue [OF ok run, of c "[e]"] Cons.prems by (auto simp: forward_event_def)
  obtain tr'' d'' c'' where "daemon_run env st (tr'' @ tr' @ Forward i # tr) d''"
    "set tr'' \<subseteq> insert (Forward i) (range (DeliverUnix i))" "length (links d'') = length (links d)"
    "links d'' ! i = \<lparr>transport = Unix c'', backlog = [], queue = []\<rparr>" "conn_open c''"
    "conn_written c'' = conn_written c @ (e @ [newline]) # map (\<lambda>e. e @ [newline]) es"
    "delivered i (tr'' @ tr' @ Forward i # tr) = delivered i tr @ e # es"
    using Cons.IH [OF *(1)] * Cons.prems by auto
  then show ?case using *(2)
    by (intro exI [of _ "tr'' @ tr' @ [Forward i]"] exI [of _ d''] exI [of _ c'']) auto
qed

section \<open>Admission\<close>

definition admitted :: "('v, 's) daemon_env \<Rightarrow> nat \<Rightarrow> daemon_label list \<Rightarrow> bool" where
  "admitted env i tr \<longleftrightarrow> (\<exists>auth path query. env_ws env = Some auth \<and> Upgrade i path query \<in> set tr \<and>
     accept_ws auth path query = SwitchingProtocols)"

definition admission :: "('v, 's) daemon_env \<Rightarrow> nat \<Rightarrow> daemon_label list \<Rightarrow> 's link \<Rightarrow> bool" where
  "admission env i tr link \<longleftrightarrow> admitted env i tr \<or> ws_inputs_of i tr = [] \<and> (\<forall>c. transport link \<noteq> Ws c)"

lemma run_admission:
  assumes "daemon_run env st tr d" and "i < length (links d)"
  shows "admission env i tr (links d ! i)"
proof (rule run_link_invariant [where P = "admission env i", OF assms])
  fix tr l and t :: "'b transport"
  assume "ws_inputs_of i tr = []" "is_accept l" "t = Handshake \<or> (\<exists>s. t = Unix (conn_start s))"
  then show "admission env i (l # tr) (new_link t)" by (auto simp: admission_def new_link_def is_accept_def)
next
  fix tr and d :: "'b daemon_state" and l d'
  assume "admission env i tr (links d ! i)" and s: "daemon_step env d l d'" and l: "label_link l = Some i" "i < length (links d)"
  moreover have "admitted env i tr \<Longrightarrow> admitted env i (l # tr)" by (auto simp: admitted_def)
  moreover from s l have "admitted env i (l # tr)" if "ws_inputs_of i tr = []" "\<forall>c. transport (links d ! i) \<noteq> Ws c"
    "\<not> (ws_inputs_of i (l # tr) = [] \<and> (\<forall>c. transport (links d' ! i) \<noteq> Ws c))"
    using that by (cases rule: daemon_step.cases) (auto simp: admitted_def upgraded_def forward_event_def drop_lagged_def nth_input split: http_status.splits list.splits)
  ultimately show "admission env i (l # tr) (links d' ! i)" unfolding admission_def by blast
next
  fix tr and link link' :: "'b link" and l
  assume "admission env i tr link" and other: "label_link l \<noteq> Some i" and same: "transport link' = transport link"
  then show "admission env i (l # tr) link'"
    unfolding admission_def projections_other(2) [OF other] same by (auto simp: admitted_def)
qed

text \<open>On a Unix connection the events among the inputs are those delivered.\<close>

lemma events_of_append: "events_of (xs @ ys) = events_of xs @ events_of ys"
  by (induction xs rule: events_of.induct) simp_all

lemma run_delivered:
  assumes "daemon_run env st tr d" and "i < length (links d)" and "transport (links d ! i) = Unix c"
  shows "events_of (inputs_of i tr) = delivered i tr"
proof -
  have "(\<forall>c. transport (links d ! i) \<noteq> Unix c) \<or> events_of (inputs_of i tr) = delivered i tr"
  proof (rule run_link_invariant [where P = "\<lambda>tr link. (\<forall>c. transport link \<noteq> Unix c) \<or> events_of (inputs_of i tr) = delivered i tr",
      OF assms(1,2)])
    fix tr and d :: "'b daemon_state" and l d'
    assume inv: "(\<forall>c. transport (links d ! i) \<noteq> Unix c) \<or> events_of (inputs_of i tr) = delivered i tr"
      and l: "label_link l = Some i" "i < length (links d)" and s: "daemon_step env d l d'"
    have "events_of [input] = []" if "sent_by_peer input" for input using that by (cases input) simp_all
    with s inv l show "(\<forall>c. transport (links d' ! i) \<noteq> Unix c) \<or> events_of (inputs_of i (l # tr)) = delivered i (l # tr)"
      by (cases rule: daemon_step.cases)
        (auto simp: nth_input events_of_append upgraded_def forward_event_def drop_lagged_def split: http_status.splits list.splits)
  next
    fix tr and link link' :: "'b link" and l
    assume inv: "(\<forall>c. transport link \<noteq> Unix c) \<or> events_of (inputs_of i tr) = delivered i tr"
      and other: "label_link l \<noteq> Some i" and same: "transport link' = transport link"
    show "(\<forall>c. transport link' \<noteq> Unix c) \<or> events_of (inputs_of i (l # tr)) = delivered i (l # tr)"
      using inv unfolding projections_other [OF other] same .
  qed (auto simp: is_accept_def)
  with assms(3) show ?thesis by auto
qed

section \<open>Properties\<close>

text \<open>
  C14: the connections of a daemon do not disturb one another. Whatever the interleaving of accepts,
  handshakes, requests, events and deliveries of all its connections, when the answers of the handler do
  not depend on its state, every connection behaves as if it were alone. A Unix connection is open,
  holds and has written what its own inputs alone, in their order, lead to; and if its peer takes
  every write and its stream stays open with events between its lines, it has written exactly the promised
  replies to its own lines, in order, mixed only with the events delivered to it, in theirs. A
  WebSocket is open and has sent what its own inputs alone lead to; and if its peer takes every message,
  this is the promised response to each of its own texts, a pong for each ping and each event it was
  delivered, in the order they came, until it closed. A connection that is still in its handshake or
  was refused has been served nothing.
\<close>

theorem daemon_isolates_connections:
  assumes "answers_regardless (env_handler env)" and "daemon_run env st tr d" and "i < length (links d)"
  shows "case transport (links d ! i) of
      Unix c \<Rightarrow>
        conn_view c = conn_view (handle_connection (env_json env) (env_handler env) (env_ok env i) (inputs_of i tr) st') \<and>
        (env_ok env i = (\<lambda>_. True) \<and> quiet [] (inputs_of i tr) \<longrightarrow>
          conn_written c \<in> shuffles
            (fst (replies (env_json env) (env_handler env) (fst (split_lines [] (text_of (inputs_of i tr)))) st'))
            (map (\<lambda>e. e @ [newline]) (delivered i tr)))
    | Ws c \<Rightarrow>
        ws_view c = ws_view (handle_ws_connection (env_json env) (env_handler env) (env_ok env i) (ws_inputs_of i tr) st') \<and>
        (env_ok env i = (\<lambda>_. True) \<longrightarrow> ws_sent c = ws_replies (env_json env) (env_handler env) (ws_inputs_of i tr) st')
    | _ \<Rightarrow> inputs_of i tr = [] \<and> ws_inputs_of i tr = []"
proof -
  have alone: "runs_alone env st' i tr (transport (links d ! i))" by (rule run_alone [OF assms])
  show ?thesis
  proof (cases "transport (links d ! i)")
    case (Unix c)
    with alone have view: "conn_view c =
        conn_view (handle_connection (env_json env) (env_handler env) (env_ok env i) (inputs_of i tr) st')"
      by (simp add: runs_alone_def)
    then have "conn_written c =
        conn_written (handle_connection (env_json env) (env_handler env) (env_ok env i) (inputs_of i tr) st')"
      by (simp add: conn_view_def)
    then show ?thesis
      using view Unix run_delivered [OF assms(2,3) Unix]
        quiet_handle_connection [of "inputs_of i tr" "env_json env" "env_handler env" st'] by auto
  next
    case (Ws c)
    with alone have view: "ws_view c =
        ws_view (handle_ws_connection (env_json env) (env_handler env) (env_ok env i) (ws_inputs_of i tr) st')"
      by (simp add: runs_alone_def)
    then show ?thesis
      using Ws ws_connection_replies [of "env_json env" "env_handler env" "ws_inputs_of i tr" st'] by (simp add: ws_view_def)
  qed (use alone in \<open>simp_all add: runs_alone_def\<close>)
qed

definition sample_daemon_env :: "(nat, nat) daemon_env" where
  "sample_daemon_env = \<lparr>env_json = sample_json, env_handler = handle_namespaced sample_router,
     env_ws = Some \<lparr>api_key = Some ''s''\<rparr>, env_ok = \<lambda>_ _. True\<rparr>"

lemma sample_regardless: "answers_regardless (env_handler sample_daemon_env)"
  by (auto simp: answers_regardless_def sample_daemon_env_def handle_namespaced_def sample_router_def router_new_def
      add_namespace_def route_def sample_handler_def split: option.splits prod.splits)

lemma sample_run: "\<exists>d c. daemon_run sample_daemon_env 0 [Broadcast ''v'', UnixInput 0 (Received (''a.b'' @ [newline])), AcceptUnix] d \<and>
    length (links d) = 1 \<and> links d ! 0 = \<lparr>transport = Unix c, backlog = [''v''], queue = []\<rparr> \<and> conn_open c"
proof -
  let ?d0 = "\<lparr>links = [], shared = 0\<rparr> :: nat daemon_state"
  let ?d1 = "add_link (Unix (conn_start 0)) ?d0"
  let ?i = "Received (''a.b'' @ [newline])"
  let ?d2 = "unix_input sample_daemon_env 0 ?i (conn_start 0) (links ?d1 ! 0) ?d1"
  have "daemon_run sample_daemon_env 0 [] ?d0" by (rule daemon_run.start)
  from daemon_run.step [OF this daemon_step.accept_unix] have r: "daemon_run sample_daemon_env 0 [AcceptUnix] ?d1" by simp
  have "daemon_step sample_daemon_env ?d1 (UnixInput 0 ?i) ?d2"
    by (rule daemon_step.unix_input) (simp_all add: new_link_def)
  from daemon_run.step [OF daemon_run.step [OF r this] daemon_step.broadcast]
  have "daemon_run sample_daemon_env 0 [Broadcast ''v'', UnixInput 0 ?i, AcceptUnix] (send_all ''v'' ?d2)" .
  moreover have "conn_open (conn_step (env_json sample_daemon_env) (env_handler sample_daemon_env) (env_ok sample_daemon_env 0) ?i (conn_start 0))"
    by code_simp
  ultimately show ?thesis
    by (intro exI conjI) (auto simp: nth_input new_link_def conn_start_def)
qed

lemma sample_ws_run:
  "\<exists>d c. daemon_run sample_daemon_env 0 [SocketInput 0 (WsText ''a.b''), Upgrade 0 ''/ws'' (Some ''key=s''), AcceptTcp] d \<and>
    length (links d) = 1 \<and> transport (links d ! 0) = Ws c"
proof -
  let ?d0 = "\<lparr>links = [], shared = 0\<rparr> :: nat daemon_state"
  let ?d1 = "add_link Handshake ?d0"
  let ?d2 = "set_link 0 ((links ?d1 ! 0)\<lparr>transport := upgraded \<lparr>api_key = Some ''s''\<rparr> ''/ws'' (Some ''key=s'') 0\<rparr>) ?d1"
  let ?d3 = "socket_input sample_daemon_env 0 (WsText ''a.b'') (ws_start 0) (links ?d2 ! 0) ?d2"
  have ws: "env_ws sample_daemon_env = Some \<lparr>api_key = Some ''s''\<rparr>" by (simp add: sample_daemon_env_def)
  have r1: "daemon_run sample_daemon_env 0 [AcceptTcp] ?d1"
    by (rule daemon_run.step [OF daemon_run.start daemon_step.accept_tcp [OF ws]])
  have "accept_ws \<lparr>api_key = Some ''s''\<rparr> ''/ws'' (Some ''key=s'') = SwitchingProtocols" by code_simp
  then have up: "upgraded \<lparr>api_key = Some ''s''\<rparr> ''/ws'' (Some ''key=s'') 0 = Ws (ws_start 0)"
    by (simp add: upgraded_def)
  have "daemon_step sample_daemon_env ?d1 (Upgrade 0 ''/ws'' (Some ''key=s'')) ?d2"
    using daemon_step.upgrade [where d = ?d1 and i = 0 and path = "''/ws''" and query = "Some ''key=s''", OF _ _ ws]
    by (simp add: new_link_def)
  note r2 = daemon_run.step [OF r1 this]
  have "daemon_step sample_daemon_env ?d2 (SocketInput 0 (WsText ''a.b'')) ?d3"
    by (rule daemon_step.socket_input) (simp_all only: up nth_links links_simps list.size, simp_all)
  note r3 = daemon_run.step [OF r2 this]
  then show ?thesis by (intro exI conjI) (assumption, simp_all add: nth_input)
qed

theorem daemon_isolates_connections_witness:
  "(\<exists>d c. daemon_run sample_daemon_env 0 [Broadcast ''v'', UnixInput 0 (Received (''a.b'' @ [newline])), AcceptUnix] d \<and>
      transport (links d ! 0) = Unix c \<and> conn_view c = (True, [], [''s'' @ [newline]])) \<and>
   (\<exists>d c. daemon_run sample_daemon_env 0 [SocketInput 0 (WsText ''a.b''), Upgrade 0 ''/ws'' (Some ''key=s''), AcceptTcp] d \<and>
      transport (links d ! 0) = Ws c \<and> ws_sent c = [TextOut ''s''])"
proof
  let ?tr = "[Broadcast ''v'', UnixInput 0 (Received (''a.b'' @ [newline])), AcceptUnix]"
  obtain d c where run: "daemon_run sample_daemon_env 0 ?tr d"
    and "length (links d) = 1" and c: "links d ! 0 = \<lparr>transport = Unix c, backlog = [''v''], queue = []\<rparr>"
    using sample_run by blast
  from daemon_isolates_connections [OF sample_regardless run, of 0 0] \<open>length (links d) = 1\<close> c
  have "conn_view c = conn_view (handle_connection sample_json (handle_namespaced sample_router) (\<lambda>_. True) [Received (''a.b'' @ [newline])] 0)"
    by (simp add: sample_daemon_env_def)
  also have "\<dots> = (True, [], [''s'' @ [newline]])" by code_simp
  finally show "\<exists>d c. daemon_run sample_daemon_env 0 ?tr d \<and> transport (links d ! 0) = Unix c \<and>
      conn_view c = (True, [], [''s'' @ [newline]])" using run c by auto
next
  let ?tr = "[SocketInput 0 (WsText ''a.b''), Upgrade 0 ''/ws'' (Some ''key=s''), AcceptTcp]"
  obtain d c where run: "daemon_run sample_daemon_env 0 ?tr d" and "length (links d) = 1" and c: "transport (links d ! 0) = Ws c"
    using sample_ws_run by blast
  from daemon_isolates_connections [OF sample_regardless run, of 0 0] \<open>length (links d) = 1\<close> c
  have "ws_sent c = ws_replies sample_json (handle_namespaced sample_router) [WsText ''a.b''] 0"
    by (simp add: sample_daemon_env_def)
  also have "\<dots> = [TextOut ''s'']" by code_simp
  finally show "\<exists>d c. daemon_run sample_daemon_env 0 ?tr d \<and> transport (links d ! 0) = Ws c \<and> ws_sent c = [TextOut ''s'']"
    using run c by auto
qed

text \<open>
  C16: events reach a connection in the order they were sent, none invented or repeated; and as long
  as it has not lagged more than 256 events behind, none is lost: what was delivered, what its
  forwarding task holds and what the channel still holds for it are together the events sent since
  it was accepted.
\<close>

theorem events_arrive_in_order:
  assumes "daemon_run env st tr d" and "i < length (links d)"
  shows "subseq (delivered i tr @ queue (links d ! i) @ backlog (links d ! i)) (events_since i tr) \<and>
    (Lag i \<in> set tr \<or> delivered i tr @ queue (links d ! i) @ backlog (links d ! i) = events_since i tr)"
  using run_events_kept [OF assms] by (simp add: events_kept_def)

theorem events_arrive_in_order_witness:
  "\<exists>d. daemon_run sample_daemon_env 0 [Broadcast ''v'', UnixInput 0 (Received (''a.b'' @ [newline])), AcceptUnix] d \<and>
    queue (links d ! 0) @ backlog (links d ! 0) = [''v'']"
proof -
  obtain d c where "daemon_run sample_daemon_env 0 [Broadcast ''v'', UnixInput 0 (Received (''a.b'' @ [newline])), AcceptUnix] d"
    and "length (links d) = 1" using sample_run by blast
  with events_arrive_in_order [OF this(1), of 0] show ?thesis by (auto simp: is_accept_def)
qed

text \<open>
  C15: no event stays behind for ever: from every state a run can reach, an open Unix connection that
  has not lagged and whose peer takes what is written can be brought, by steps of its forwarding task
  and of its own loop only, to where every event sent since it was accepted has been delivered, each
  written as one line after what had been written before.
\<close>

theorem events_can_be_delivered:
  assumes "daemon_run env st tr d" and "i < length (links d)" and "transport (links d ! i) = Unix c" and "conn_open c"
    and "\<And>n. env_ok env i n" and "Lag i \<notin> set tr" and "length (backlog (links d ! i)) \<le> event_capacity"
  shows "\<exists>tr' d' c'. daemon_run env st (tr' @ tr) d' \<and> set tr' \<subseteq> insert (Forward i) (range (DeliverUnix i)) \<and>
    transport (links d' ! i) = Unix c' \<and> conn_open c' \<and> delivered i (tr' @ tr) = events_since i tr \<and>
    conn_written c' = conn_written c @ map (\<lambda>e. e @ [newline]) (queue (links d ! i) @ backlog (links d ! i))"
proof -
  note kept = run_events_kept [OF assms(1,2)]
  obtain tr1 d1 c1 where 1: "daemon_run env st (tr1 @ tr) d1" "set tr1 \<subseteq> range (DeliverUnix i)" "length (links d1) = length (links d)"
    "links d1 ! i = \<lparr>transport = Unix c1, backlog = backlog (links d ! i), queue = []\<rparr>" "conn_open c1"
    "conn_written c1 = conn_written c @ map (\<lambda>e. e @ [newline]) (queue (links d ! i))"
    "delivered i (tr1 @ tr) = delivered i tr @ queue (links d ! i)"
    using drain_queue [where es = "queue (links d ! i)", OF assms(5,1-4)] by blast
  have "i < length (links d1)" using 1(3) assms(2) by simp
  with drain_backlog [OF assms(5) 1(1) _ 1(4,5) assms(7)] obtain tr2 d2 c2 where
    "daemon_run env st (tr2 @ tr1 @ tr) d2" "set tr2 \<subseteq> insert (Forward i) (range (DeliverUnix i))"
    "transport (links d2 ! i) = Unix c2" "conn_open c2"
    "conn_written c2 = conn_written c1 @ map (\<lambda>e. e @ [newline]) (backlog (links d ! i))"
    "delivered i (tr2 @ tr1 @ tr) = delivered i (tr1 @ tr) @ backlog (links d ! i)" by auto
  with 1 assms(6) kept show ?thesis
    by (intro exI [of _ "tr2 @ tr1"] exI [of _ d2] exI [of _ c2]) (auto simp: events_kept_def)
qed

theorem events_can_be_delivered_witness:
  "\<exists>tr d. daemon_run sample_daemon_env 0 tr d \<and> delivered 0 tr = [''v'']"
proof -
  let ?tr = "[Broadcast ''v'', UnixInput 0 (Received (''a.b'' @ [newline])), AcceptUnix]"
  obtain d c where d: "daemon_run sample_daemon_env 0 ?tr d" "length (links d) = 1"
    "links d ! 0 = \<lparr>transport = Unix c, backlog = [''v''], queue = []\<rparr>" "conn_open c" using sample_run by blast
  have "env_ok sample_daemon_env 0 n" for n by (simp add: sample_daemon_env_def)
  with events_can_be_delivered [OF d(1), of 0 c] d(2-4) obtain tr' d' where "daemon_run sample_daemon_env 0 (tr' @ ?tr) d'"
    "delivered 0 (tr' @ ?tr) = events_since 0 ?tr"
    by (auto simp: event_capacity_def)
  then show ?thesis by (intro exI [of _ "tr' @ ?tr"] exI [of _ d']) (simp add: is_accept_def)
qed

text \<open>
  C34: nothing that is received over a WebSocket is served before its handshake was accepted: in every
  run a connection that is an open WebSocket, or of which anything has been served, was upgraded by a
  request for the right path whose \<open>key\<close>, if the daemon has one, is the daemon's.
\<close>

theorem websocket_requests_admitted:
  assumes "daemon_run env st tr d" and "i < length (links d)"
    and "ws_inputs_of i tr \<noteq> [] \<or> (\<exists>c. transport (links d ! i) = Ws c)"
  shows "\<exists>auth path query. env_ws env = Some auth \<and> Upgrade i path query \<in> set tr \<and> path \<in> {''/ws'', ''/ws/''} \<and>
    (api_key auth = None \<or> find_key (split_on CHR ''&'' (unwrap_or_default query)) = api_key auth)"
proof -
  from run_admission [OF assms(1,2)] assms(3) obtain auth path query where
    "env_ws env = Some auth" "Upgrade i path query \<in> set tr" "accept_ws auth path query = SwitchingProtocols"
    by (auto simp: admission_def admitted_def)
  then show ?thesis
    by (intro exI [of _ auth] exI [of _ path] exI [of _ query]) (auto simp: accept_ws_def split: if_splits option.splits)
qed

theorem websocket_requests_admitted_witness:
  "\<exists>d. daemon_run sample_daemon_env 0 [SocketInput 0 (WsText ''a.b''), Upgrade 0 ''/ws'' (Some ''key=s''), AcceptTcp] d \<and>
    find_key (split_on CHR ''&'' ''key=s'') = Some ''s''"
proof -
  have ws: "env_ws sample_daemon_env = Some \<lparr>api_key = Some ''s''\<rparr>" by (simp add: sample_daemon_env_def)
  obtain d c where run: "daemon_run sample_daemon_env 0 [SocketInput 0 (WsText ''a.b''), Upgrade 0 ''/ws'' (Some ''key=s''), AcceptTcp] d"
    "length (links d) = 1" using sample_ws_run by blast
  from websocket_requests_admitted [OF run(1), of 0] ws run show ?thesis
    by (auto simp: unwrap_or_default_def)
qed

text \<open>
  how a daemon built with \<open>ServerBuilder\<close> starts, exactly. It takes over the path of its socket,
  also from a daemon that still listens, unless the old file cannot be removed or the path cannot be
  bound; a WebSocket port that cannot be bound ends the Unix transport too, and a failed start leaves
  no socket behind that can be removed; and a WebSocket whose key was not set is bound to all interfaces and admits everybody.
\<close>

theorem builder_run_exact:
  "(fst (builder_run removable bind_error tcp_error b l s) = Ok ws \<longleftrightarrow>
     bind_error (sb_socket_path b) = None \<and> (removable (sb_socket_path b) \<or> sb_socket_path b \<notin> dom (socket_at s)) \<and>
     (case sb_ws_port b of None \<Rightarrow> ws = None
      | Some port \<Rightarrow> tcp_error (ws_address port) = None \<and> ws = Some (ws_access b))) \<and>
   (fst (builder_run removable bind_error tcp_error b l s) \<in> {Panic} \<union> range Err \<or>
     socket_at (snd (builder_run removable bind_error tcp_error b l s)) (sb_socket_path b) = Some l) \<and>
   (fst (builder_run removable bind_error tcp_error b l s) \<in> range Ok \<or> removable (sb_socket_path b) = False \<or>
     socket_at (snd (builder_run removable bind_error tcp_error b l s)) (sb_socket_path b) = None) \<and>
   fst (builder_run removable bind_error tcp_error b l s) \<noteq> Panic \<and>
   listening (snd (builder_run removable bind_error tcp_error b l s)) - {l} = listening s - {l} \<and>
   ws_access (with_websocket port (server_builder_new path)) = \<lparr>api_key = None\<rparr> \<and>
   accept_ws (ws_access (with_websocket port (server_builder_new path))) ''/ws'' query = SwitchingProtocols"
proof (intro conjI)
  let ?p = "sb_socket_path b"
  show "fst (builder_run removable bind_error tcp_error b l s) = Ok ws \<longleftrightarrow>
     bind_error ?p = None \<and> (removable ?p \<or> ?p \<notin> dom (socket_at s)) \<and>
     (case sb_ws_port b of None \<Rightarrow> ws = None
      | Some port \<Rightarrow> tcp_error (ws_address port) = None \<and> ws = Some (ws_access b))"
    by (auto simp: builder_run_def bind_socket_def remove_socket_def Let_def split: option.splits)
  show "fst (builder_run removable bind_error tcp_error b l s) \<in> {Panic} \<union> range Err \<or>
     socket_at (snd (builder_run removable bind_error tcp_error b l s)) ?p = Some l"
    by (auto simp: builder_run_def bind_socket_def remove_socket_def Let_def split: option.splits)
  show "fst (builder_run removable bind_error tcp_error b l s) \<in> range Ok \<or> removable ?p = False \<or>
     socket_at (snd (builder_run removable bind_error tcp_error b l s)) ?p = None"
    by (auto simp: builder_run_def bind_socket_def remove_socket_def stop_listening_def Let_def split: option.splits)
  show "fst (builder_run removable bind_error tcp_error b l s) \<noteq> Panic"
    by (auto simp: builder_run_def bind_socket_def remove_socket_def Let_def split: option.splits)
  show "listening (snd (builder_run removable bind_error tcp_error b l s)) - {l} = listening s - {l}"
    by (auto simp: builder_run_def bind_socket_def remove_socket_def stop_listening_def Let_def split: option.splits)
qed (simp_all add: ws_access_def with_websocket_def server_builder_new_def accept_ws_def)

text \<open>
  two servers at one path: the second takes the path from the first without an error, though the
  first still listens; and when the first is dropped it removes the socket of the second, so that no
  client finds a daemon although one listens.
\<close>

theorem second_server_takes_socket:
  assumes "removable path" and "bind_error path = None" and "l \<noteq> l'"
  shows "\<exists>s1 s2. server_run removable bind_error (server_new path) l s = Ok s1 \<and>
    is_daemon_running (client_new path) s1 \<and>
    server_run removable bind_error (server_new path) l' s1 = Ok s2 \<and>
    socket_at s2 path = Some l' \<and> l \<in> listening s2 \<and>
    (let s3 = server_drop removable (server_new path) (stop_listening l s2)
     in l' \<in> listening s3 \<and> \<not> is_daemon_running (client_new path) s3)"
  using assms by (auto simp: server_run_def bind_socket_def remove_socket_def server_new_def client_new_def is_daemon_running_def
      server_drop_def stop_listening_def Let_def)

theorem second_server_takes_socket_witness:
  "\<exists>s1. server_run (\<lambda>_. True) (\<lambda>_. None) (server_new ''/tmp/a.sock'') 1 \<lparr>socket_at = Map.empty, listening = {}\<rparr> = Ok s1 \<and>
    is_daemon_running (client_new ''/tmp/a.sock'') s1"
  using second_server_takes_socket [of "\<lambda>_. True" "''/tmp/a.sock''" "\<lambda>_. None" 1 2 "\<lparr>socket_at = Map.empty, listening = {}\<rparr>"]
  by auto

end
