(* ===== verification/Keys.thy ===== *)
theory Keys
  imports Prelude
begin

text \<open>
  \<open>crates/crypto\<close> (key pairs, signatures, sealed messages) and \<open>crates/identity\<close> (decentralised
  identifiers, their documents, identities). The primitives of ed25519-dalek, x25519-dalek, sha2 and
  chacha20poly1305 are the record \<open>primitives\<close>, base58 the pair \<open>bs58_encode\<close>, \<open>bs58_decode\<close>; the
  laws the code relies on are \<open>signature_law\<close>, \<open>exchange_law\<close>, \<open>aead_law\<close> and \<open>base58_law\<close>. What
  the operating system's generator supplies is an argument, \<open>None\<close> when it fails and the call panics.
\<close>

type_synonym signature = "512 word"
type_synonym nonce = "96 word"

interpretation nonce: full_codec "be_bytes 12 :: nonce \<Rightarrow> bytes" of_be 12
proof
  fix bs :: bytes assume "length bs = 12"
  then show "be_bytes 12 (of_be bs :: nonce) = bs"
    using le_bytes_of_le [of "rev bs", where ?'a = 96] by (simp add: be_bytes_def of_be_def)
qed (simp_all add: be_bytes_def of_be_def of_le_le_bytes take_bit_word_eq_self)

record primitives =
  ed_public :: "key32 \<Rightarrow> key32"
  ed_point :: "key32 \<Rightarrow> bool"
  ed_sign :: "key32 \<Rightarrow> bytes \<Rightarrow> signature"
  ed_check :: "key32 \<Rightarrow> bytes \<Rightarrow> signature \<Rightarrow> bool"
  x_public :: "key32 \<Rightarrow> key32"
  x_shared :: "key32 \<Rightarrow> key32 \<Rightarrow> key32"
  sha256_of :: "bytes \<Rightarrow> key32"
  aead_seal :: "key32 \<Rightarrow> nonce \<Rightarrow> bytes \<Rightarrow> bytes option"
  aead_open :: "key32 \<Rightarrow> nonce \<Rightarrow> bytes \<Rightarrow> bytes option"

definition signature_law :: "primitives \<Rightarrow> bool" where
  "signature_law ops \<longleftrightarrow>
     (\<forall>sk m. ed_point ops (ed_public ops sk) \<and> ed_check ops (ed_public ops sk) m (ed_sign ops sk m))"

definition exchange_law :: "primitives \<Rightarrow> bool" where
  "exchange_law ops \<longleftrightarrow> (\<forall>a b. x_shared ops a (x_public ops b) = x_shared ops b (x_public ops a))"

definition aead_law :: "primitives \<Rightarrow> bool" where
  "aead_law ops \<longleftrightarrow> (\<forall>k n m c. aead_seal ops k n m = Some c \<longrightarrow> aead_open ops k n c = Some m)"

section \<open>Key pairs\<close>

datatype key_error = InvalidPublicKey | InvalidSecretKey | DerivationFailed

record signing_keypair =
  signing_key :: key32
  verifying_key :: key32

record encryption_keypair =
  secret :: key32
  public :: key32

definition from_random :: "('r \<Rightarrow> 'a) \<Rightarrow> 'r option \<Rightarrow> ('e, 'a) outcome" where
  "from_random f r = (case r of None \<Rightarrow> Panic | Some x \<Rightarrow> Ok (f x))"

definition signing_from_secret_bytes :: "primitives \<Rightarrow> key32 \<Rightarrow> signing_keypair" where
  "signing_from_secret_bytes ops s = \<lparr>signing_key = s, verifying_key = ed_public ops s\<rparr>"

definition signing_generate :: "primitives \<Rightarrow> key32 option \<Rightarrow> ('e, signing_keypair) outcome" where
  "signing_generate ops = from_random (\<lambda>s. \<lparr>signing_key = s, verifying_key = ed_public ops s\<rparr>)"

definition signing_clone :: "signing_keypair \<Rightarrow> signing_keypair" where
  "signing_clone self = \<lparr>signing_key = signing_key self, verifying_key = verifying_key self\<rparr>"

definition signing_public_key_bytes :: "signing_keypair \<Rightarrow> key32" where
  "signing_public_key_bytes self = verifying_key self"

definition signing_secret_key_bytes :: "signing_keypair \<Rightarrow> key32" where
  "signing_secret_key_bytes self = signing_key self"

definition encryption_from_secret_bytes :: "primitives \<Rightarrow> key32 \<Rightarrow> encryption_keypair" where
  "encryption_from_secret_bytes ops s = \<lparr>secret = s, public = x_public ops s\<rparr>"

definition encryption_generate :: "primitives \<Rightarrow> key32 option \<Rightarrow> ('e, encryption_keypair) outcome" where
  "encryption_generate ops = from_random (\<lambda>s. \<lparr>secret = s, public = x_public ops s\<rparr>)"

definition encryption_clone :: "primitives \<Rightarrow> encryption_keypair \<Rightarrow> encryption_keypair" where
  "encryption_clone ops self = \<lparr>secret = secret self, public = x_public ops (secret self)\<rparr>"

definition encryption_public_key_bytes :: "encryption_keypair \<Rightarrow> key32" where
  "encryption_public_key_bytes self = public self"

definition encryption_secret_key_bytes :: "encryption_keypair \<Rightarrow> key32" where
  "encryption_secret_key_bytes self = secret self"

definition diffie_hellman :: "primitives \<Rightarrow> encryption_keypair \<Rightarrow> key32 \<Rightarrow> key32" where
  "diffie_hellman ops self their_public = x_shared ops (secret self) their_public"

record node_keys =
  signing :: signing_keypair
  encryption :: encryption_keypair

definition node_keys_generate :: "primitives \<Rightarrow> key32 option \<Rightarrow> key32 option \<Rightarrow> ('e, node_keys) outcome" where
  "node_keys_generate ops r1 r2 =
     obind (signing_generate ops r1) (\<lambda>s. obind (encryption_generate ops r2) (\<lambda>e.
       Ok \<lparr>signing = s, encryption = e\<rparr>))"

definition node_keys_pubkey :: "node_keys \<Rightarrow> key32" where
  "node_keys_pubkey self = signing_public_key_bytes (signing self)"

definition generate_one_time_keypair :: "primitives \<Rightarrow> key32 option \<Rightarrow> ('e, signing_keypair) outcome" where
  "generate_one_time_keypair = signing_generate"

definition hash_data :: "primitives \<Rightarrow> bytes \<Rightarrow> key32" where
  "hash_data ops data = sha256_of ops data"

definition generate_random_secret :: "key32 option \<Rightarrow> ('e, key32) outcome" where
  "generate_random_secret = from_random (\<lambda>s. s)"

text \<open>A key pair is coherent when its public half belongs to its secret half; all constructors see to it.\<close>

definition signing_coherent :: "primitives \<Rightarrow> signing_keypair \<Rightarrow> bool" where
  "signing_coherent ops kp \<longleftrightarrow> verifying_key kp = ed_public ops (signing_key kp)"

definition encryption_coherent :: "primitives \<Rightarrow> encryption_keypair \<Rightarrow> bool" where
  "encryption_coherent ops kp \<longleftrightarrow> public kp = x_public ops (secret kp)"

lemma from_random_eq_Ok [simp]: "from_random f r = Ok y \<longleftrightarrow> (\<exists>x. r = Some x \<and> y = f x)"
  by (auto simp: from_random_def split: option.splits)

lemma signing_generate_coherent: "signing_generate ops r = Ok kp \<Longrightarrow> signing_coherent ops kp"
  by (auto simp: signing_generate_def signing_coherent_def)

lemma encryption_generate_coherent: "encryption_generate ops r = Ok kp \<Longrightarrow> encryption_coherent ops kp"
  by (auto simp: encryption_generate_def encryption_coherent_def)

lemma from_secret_bytes_coherent [simp]:
  "signing_coherent ops (signing_from_secret_bytes ops s)"
  "encryption_coherent ops (encryption_from_secret_bytes ops s)"
  by (simp_all add: signing_coherent_def encryption_coherent_def signing_from_secret_bytes_def
      encryption_from_secret_bytes_def)

lemma signing_restored:
  "signing_coherent ops kp \<Longrightarrow> signing_from_secret_bytes ops (signing_secret_key_bytes kp) = kp"
  by (cases kp) (simp add: signing_coherent_def signing_from_secret_bytes_def signing_secret_key_bytes_def)

lemma signing_clone_same: "signing_clone kp = kp"
  by (simp add: signing_clone_def)

lemma encryption_clone_restores:
  "encryption_coherent ops kp \<Longrightarrow>
    encryption_clone ops kp = kp \<and> encryption_from_secret_bytes ops (encryption_secret_key_bytes kp) = kp"
  by (cases kp) (simp add: encryption_coherent_def encryption_clone_def encryption_from_secret_bytes_def
      encryption_secret_key_bytes_def)

lemma diffie_hellman_commutes:
  assumes "exchange_law ops" and "encryption_coherent ops a" and "encryption_coherent ops b"
  shows "diffie_hellman ops a (encryption_public_key_bytes b) = diffie_hellman ops b (encryption_public_key_bytes a)"
  using assms
  by (simp add: diffie_hellman_def encryption_public_key_bytes_def exchange_law_def encryption_coherent_def)

section \<open>Signatures\<close>

definition sign_data :: "primitives \<Rightarrow> signing_keypair \<Rightarrow> bytes \<Rightarrow> signature" where
  "sign_data ops keypair data = ed_sign ops (signing_key keypair) data"

definition verify_signature :: "primitives \<Rightarrow> key32 \<Rightarrow> bytes \<Rightarrow> signature \<Rightarrow> bool" where
  "verify_signature ops pubkey data sig = (if ed_point ops pubkey then ed_check ops pubkey data sig else False)"

section \<open>Sealed messages\<close>

datatype encrypt_error = EncryptionFailed | DecryptionFailed | InvalidKey | InvalidNonce | CiphertextTooShort

definition encrypt_symmetric ::
    "primitives \<Rightarrow> key32 \<Rightarrow> nonce option \<Rightarrow> bytes \<Rightarrow> (encrypt_error, bytes) outcome" where
  "encrypt_symmetric ops key r plaintext =
     obind (from_random (\<lambda>n. n) r) (\<lambda>n.
       case aead_seal ops key n plaintext of
         None \<Rightarrow> Err EncryptionFailed
       | Some ciphertext \<Rightarrow> Ok (be_bytes 12 n @ ciphertext))"

definition decrypt_symmetric :: "primitives \<Rightarrow> key32 \<Rightarrow> bytes \<Rightarrow> (encrypt_error, bytes) outcome" where
  "decrypt_symmetric ops key ciphertext =
     (if length ciphertext < 12 then Err CiphertextTooShort
      else case aead_open ops key (of_be (take 12 ciphertext)) (drop 12 ciphertext) of
          None \<Rightarrow> Err DecryptionFailed
        | Some plaintext \<Rightarrow> Ok plaintext)"

definition encrypt_for_recipient ::
    "primitives \<Rightarrow> key32 \<Rightarrow> key32 \<Rightarrow> nonce option \<Rightarrow> bytes \<Rightarrow> (encrypt_error, bytes) outcome" where
  "encrypt_for_recipient ops recipient_pubkey sender_secret r plaintext =
     (let shared_secret = x_shared ops sender_secret recipient_pubkey;
          symmetric_key = hash_data ops (key_bytes shared_secret)
      in obind (from_random (\<lambda>n. n) r) (\<lambda>n.
           case aead_seal ops symmetric_key n plaintext of
             None \<Rightarrow> Err EncryptionFailed
           | Some ciphertext \<Rightarrow> Ok (be_bytes 12 n @ ciphertext)))"

definition decrypt_from_sender ::
    "primitives \<Rightarrow> key32 \<Rightarrow> key32 \<Rightarrow> bytes \<Rightarrow> (encrypt_error, bytes) outcome" where
  "decrypt_from_sender ops sender_pubkey recipient_secret ciphertext =
     (if length ciphertext < 12 then Err CiphertextTooShort
      else let shared_secret = x_shared ops recipient_secret sender_pubkey;
               symmetric_key = hash_data ops (key_bytes shared_secret)
           in case aead_open ops symmetric_key (of_be (take 12 ciphertext)) (drop 12 ciphertext) of
                None \<Rightarrow> Err DecryptionFailed
              | Some plaintext \<Rightarrow> Ok plaintext)"

lemma encrypt_is_symmetric:
  "encrypt_for_recipient ops pk s r m = encrypt_symmetric ops (hash_data ops (key_bytes (x_shared ops s pk))) r m"
  by (simp add: encrypt_for_recipient_def encrypt_symmetric_def)

lemma decrypt_is_symmetric:
  "decrypt_from_sender ops pk s c = decrypt_symmetric ops (hash_data ops (key_bytes (x_shared ops s pk))) c"
  by (simp add: decrypt_from_sender_def decrypt_symmetric_def Let_def)

lemma symmetric_roundtrip:
  assumes "aead_law ops" and "encrypt_symmetric ops key r m = Ok c"
  shows "decrypt_symmetric ops key c = Ok m"
proof -
  from assms(2) obtain n body where c: "c = be_bytes 12 n @ body" and seal: "aead_seal ops key n m = Some body"
    by (auto simp: encrypt_symmetric_def split: option.splits)
  from seal assms(1) have "aead_open ops key n body = Some m" by (simp add: aead_law_def)
  then show ?thesis
    by (simp add: decrypt_symmetric_def c nonce.dec_enc)
qed

text \<open>The length of a sealed message is 12 bytes more than what the cipher makes of it.\<close>

lemma encrypt_symmetric_eq_Err:
  "encrypt_symmetric ops key r m = Err e \<longleftrightarrow> e = EncryptionFailed \<and> (\<exists>n. r = Some n \<and> aead_seal ops key n m = None)"
  by (auto simp: encrypt_symmetric_def from_random_def split: option.splits)

lemma decrypt_symmetric_total: "decrypt_symmetric ops key c \<noteq> Panic"
  by (simp add: decrypt_symmetric_def split: option.splits)

text \<open>A cipher for the witnesses: the text shifted by the key's low byte, with one byte of checksum.\<close>

definition toy_ops :: primitives where
  "toy_ops = \<lparr>ed_public = (\<lambda>s. s + 1), ed_point = (\<lambda>p. True),
     ed_sign = (\<lambda>s m. ucast s + of_nat (length m)),
     ed_check = (\<lambda>p m g. g = ucast (p - 1) + of_nat (length m)),
     x_public = (\<lambda>s. 3 * s), x_shared = (\<lambda>a p. a * p),
     sha256_of = (\<lambda>bs. of_key_bytes bs),
     aead_seal = (\<lambda>k n m. Some (ucast k # map (\<lambda>b. b + ucast k) m)),
     aead_open = (\<lambda>k n c. case c of [] \<Rightarrow> None | t # bs \<Rightarrow> if t = ucast k then Some (map (\<lambda>b. b - ucast k) bs) else None)\<rparr>"

lemma toy_laws: "signature_law toy_ops" "exchange_law toy_ops" "aead_law toy_ops"
  by (simp_all add: toy_ops_def signature_law_def exchange_law_def aead_law_def mult.left_commute comp_def)

lemma sealed_message_opens_both_ways_parts:
  assumes "exchange_law ops" and "aead_law ops"
    and "encryption_coherent ops sender" and "encryption_coherent ops recipient"
    and "encrypt_for_recipient ops (encryption_public_key_bytes recipient) (encryption_secret_key_bytes sender) r m = Ok c"
  shows "decrypt_from_sender ops (encryption_public_key_bytes sender) (encryption_secret_key_bytes recipient) c = Ok m"
    and "decrypt_from_sender ops (encryption_public_key_bytes recipient) (encryption_secret_key_bytes sender) c = Ok m"
    and "\<exists>n body. r = Some n \<and> c = be_bytes 12 n @ body"
proof -
  let ?key = "hash_data ops (key_bytes (diffie_hellman ops sender (encryption_public_key_bytes recipient)))"
  have sealed: "encrypt_symmetric ops ?key r m = Ok c"
    using assms(5) by (simp add: encrypt_is_symmetric diffie_hellman_def encryption_secret_key_bytes_def)
  note opened = symmetric_roundtrip [OF assms(2) sealed]
  from opened show "decrypt_from_sender ops (encryption_public_key_bytes recipient) (encryption_secret_key_bytes sender) c = Ok m"
    by (simp add: decrypt_is_symmetric diffie_hellman_def encryption_secret_key_bytes_def)
  from opened show "decrypt_from_sender ops (encryption_public_key_bytes sender) (encryption_secret_key_bytes recipient) c = Ok m"
    unfolding diffie_hellman_commutes [OF assms(1,3,4)]
    by (simp add: decrypt_is_symmetric diffie_hellman_def encryption_secret_key_bytes_def)
  from sealed show "\<exists>n body. r = Some n \<and> c = be_bytes 12 n @ body"
    by (auto simp: encrypt_symmetric_def split: option.splits)
qed

text \<open>
  C26: what is sealed for a recipient with coherent key pairs on both sides is opened by the recipient
  to the same text, the message carrying the 12 bytes of the nonce in front; the shared key does not
  depend on the direction, so that the sender opens the message too, as if the recipient had sent it.
\<close>

theorem sealed_message_opens_both_ways:
  assumes "exchange_law ops" and "aead_law ops"
    and "encryption_coherent ops sender" and "encryption_coherent ops recipient"
    and "encrypt_for_recipient ops (encryption_public_key_bytes recipient) (encryption_secret_key_bytes sender) r m = Ok c"
  shows "decrypt_from_sender ops (encryption_public_key_bytes sender) (encryption_secret_key_bytes recipient) c = Ok m \<and>
    decrypt_from_sender ops (encryption_public_key_bytes recipient) (encryption_secret_key_bytes sender) c = Ok m \<and>
    (\<exists>n body. r = Some n \<and> c = be_bytes 12 n @ body)"
  using sealed_message_opens_both_ways_parts [OF assms] by blast

lemma sealed_message_opens_both_ways_witness:
  "\<exists>c. encrypt_for_recipient toy_ops (encryption_public_key_bytes (encryption_from_secret_bytes toy_ops 7))
        (encryption_secret_key_bytes (encryption_from_secret_bytes toy_ops 5)) (Some 9) [1, 2] = Ok c \<and>
      decrypt_from_sender toy_ops (encryption_public_key_bytes (encryption_from_secret_bytes toy_ops 5))
        (encryption_secret_key_bytes (encryption_from_secret_bytes toy_ops 7)) c = Ok [1, 2]"
proof -
  let ?s = "encryption_from_secret_bytes toy_ops 5" and ?r = "encryption_from_secret_bytes toy_ops 7"
  obtain c where c: "encrypt_for_recipient toy_ops (encryption_public_key_bytes ?r)
      (encryption_secret_key_bytes ?s) (Some 9) [1, 2] = Ok c"
    by (simp add: encrypt_is_symmetric encrypt_symmetric_def from_random_def toy_ops_def)
  show ?thesis
    using c sealed_message_opens_both_ways [OF toy_laws(2,3) from_secret_bytes_coherent(2)
        from_secret_bytes_coherent(2) c] by blast
qed

section \<open>Decentralised identifiers\<close>

datatype did = Did string

definition did_display :: "did \<Rightarrow> string" where
  "did_display self = (case self of Did s \<Rightarrow> s)"

text \<open>\<open>reputation.rs\<close>; the ratio is given by the bits of the \<open>f64\<close>.\<close>

record reputation_score =
  storage_receipts_count :: u64
  uptime_ratio :: u64
  challenges_passed :: u64
  challenges_failed :: u64
  peer_endorsements :: u64

definition reputation_default :: reputation_score where
  "reputation_default = \<lparr>storage_receipts_count = 0, uptime_ratio = 0, challenges_passed = 0, challenges_failed = 0, peer_endorsements = 0\<rparr>"

datatype did_error = InvalidFormat string | InvalidBase58 string | InvalidKeyLength nat

definition DID_PREFIX :: string where
  "DID_PREFIX = ''did:craftec:''"

type_synonym bs58_encode = "bytes \<Rightarrow> string"
type_synonym bs58_decode = "string \<Rightarrow> string + bytes"

definition base58_law :: "bs58_encode \<Rightarrow> bs58_decode \<Rightarrow> bool" where
  "base58_law enc dec \<longleftrightarrow>
     (\<forall>b. dec (enc b) = Inr b \<and> (enc b = [] \<longrightarrow> b = []) \<and> (\<forall>c \<in> set (enc b). of_char c < (128 :: u8)))"

fun did_as_str :: "did \<Rightarrow> string" where
  "did_as_str (Did s) = s"

definition did_from_pubkey :: "bs58_encode \<Rightarrow> key32 \<Rightarrow> did" where
  "did_from_pubkey enc pubkey = Did (DID_PREFIX @ enc (key_bytes pubkey))"

definition did_to_pubkey :: "bs58_decode \<Rightarrow> did \<Rightarrow> ('e, key32) outcome" where
  "did_to_pubkey dec self =
     obind (str_from (did_as_str self) (length DID_PREFIX)) (\<lambda>encoded.
       case dec encoded of
         Inl _ \<Rightarrow> Panic
       | Inr b \<Rightarrow> if length b = 32 then Ok (of_key_bytes b) else Panic)"

definition did_from_str :: "bs58_decode \<Rightarrow> string \<Rightarrow> (did_error, did) outcome" where
  "did_from_str dec s =
     (if take (length DID_PREFIX) s \<noteq> DID_PREFIX
      then Err (InvalidFormat (''must start with '' @ [CHR 0x27] @ DID_PREFIX @ [CHR 0x27]))
      else obind (str_from s (length DID_PREFIX)) (\<lambda>encoded.
        if encoded = [] then Err (InvalidFormat ''missing key portion'')
        else case dec encoded of
            Inl e \<Rightarrow> Err (InvalidBase58 e)
          | Inr b \<Rightarrow> if length b \<noteq> 32 then Err (InvalidKeyLength (length b)) else Ok (Did s)))"

lemma utf8_ascii_prefix:
  "\<forall>c \<in> set p. of_char c < (128 :: u8) \<Longrightarrow> utf8_valid (map of_char (p @ s)) = utf8_valid (map of_char s)"
  by (induction p) auto

lemma utf8_first: "utf8_valid (b # bs) \<Longrightarrow> \<not> continuation b"
  by (auto simp: continuation_def word_less_nat_alt word_le_nat_alt split: if_splits)

lemma did_prefix_ascii: "\<forall>c \<in> set DID_PREFIX. of_char c < (128 :: u8)"
  by (simp add: DID_PREFIX_def)

lemma length_did_prefix [simp]: "length DID_PREFIX = 12"
  by (simp add: DID_PREFIX_def)

lemma after_prefix:
  assumes "utf8_valid (map of_char (DID_PREFIX @ e))"
  shows "str_from (DID_PREFIX @ e) 12 = Ok e"
  using assms utf8_ascii_prefix [OF did_prefix_ascii, of e]
  unfolding length_did_prefix [symmetric]
  by (intro str_from_append) (auto simp del: utf8_valid.simps dest: utf8_first split: list.split)

lemma did_from_str_eq_Ok:
  assumes "utf8_valid (map of_char s)"
  shows "did_from_str dec s = Ok d \<longleftrightarrow>
    d = Did s \<and> (\<exists>e b. s = DID_PREFIX @ e \<and> e \<noteq> [] \<and> dec e = Inr b \<and> length b = 32)"
proof (cases "take (length DID_PREFIX) s = DID_PREFIX")
  case True
  then obtain e where s: "s = DID_PREFIX @ e"
    by (metis append_take_drop_id)
  show ?thesis
    using assms unfolding s
    by (auto simp: did_from_str_def after_prefix split: sum.splits if_splits)
qed (auto simp: did_from_str_def)
lemma did_use_exact_parts:
  assumes "utf8_valid (map of_char s)"
  shows "did_from_str dec s \<noteq> Panic"
    and "did_from_str dec s = Ok d \<longleftrightarrow>
      d = Did s \<and> (\<exists>e b. s = DID_PREFIX @ e \<and> e \<noteq> [] \<and> dec e = Inr b \<and> length b = 32)"
    and "did_from_str dec s = Ok d \<Longrightarrow> \<exists>b. dec (drop 12 s) = Inr b \<and> did_to_pubkey dec d = Ok (of_key_bytes b)"
    and "did_to_pubkey dec (Did s) = Ok k \<longleftrightarrow> is_char_boundary s 12 \<and> dec (drop 12 s) = Inr (key_bytes k)"
    and "did_to_pubkey dec (Did s) \<noteq> Err e"
proof -
  show "did_from_str dec s \<noteq> Panic"
  proof (cases "take (length DID_PREFIX) s = DID_PREFIX")
    case True
    then obtain e where s: "s = DID_PREFIX @ e"
      by (metis append_take_drop_id)
    show ?thesis
      using assms unfolding s by (simp add: did_from_str_def after_prefix outcome_simps split: sum.splits)
  qed (simp add: did_from_str_def)
  show ok: "did_from_str dec s = Ok d \<longleftrightarrow>
      d = Did s \<and> (\<exists>e b. s = DID_PREFIX @ e \<and> e \<noteq> [] \<and> dec e = Inr b \<and> length b = 32)"
    by (rule did_from_str_eq_Ok [OF assms])
  show "\<exists>b. dec (drop 12 s) = Inr b \<and> did_to_pubkey dec d = Ok (of_key_bytes b)" if d: "did_from_str dec s = Ok d"
  proof -
    from d obtain e b where s: "s = DID_PREFIX @ e" and e: "dec e = Inr b" "length b = 32" and "d = Did s"
      unfolding ok by blast
    moreover have "str_from s 12 = Ok e"
      using assms unfolding s by (rule after_prefix)
    ultimately show ?thesis by (auto simp: did_to_pubkey_def)
  qed
  have "length b = 32 \<and> of_key_bytes b = k \<longleftrightarrow> b = key_bytes k" for b
    by (auto simp: key.enc_dec key.dec_enc)
  then show "did_to_pubkey dec (Did s) = Ok k \<longleftrightarrow> is_char_boundary s 12 \<and> dec (drop 12 s) = Inr (key_bytes k)"
    by (cases "dec (drop 12 s)") (auto simp: did_to_pubkey_def str_from_def length_did_prefix split: if_splits)
  show "did_to_pubkey dec (Did s) \<noteq> Err e"
    by (auto simp: did_to_pubkey_def str_from_def outcome_simps split: sum.splits)
qed

section \<open>Documents\<close>

record verification_method =
  method_id :: string
  method_type :: string
  public_key_multibase :: string

record did_document =
  document_id :: did
  verification_methods :: "verification_method list"
  created :: u64

definition did_document_derive :: "bs58_encode \<Rightarrow> key32 \<Rightarrow> did_document" where
  "did_document_derive enc pubkey =
     (let d = did_from_pubkey enc pubkey;
          multibase = enc (key_bytes pubkey);
          vm = \<lparr>method_id = did_as_str d @ ''#key-1'',
                method_type = ''Ed25519VerificationKey2020'',
                public_key_multibase = CHR ''z'' # multibase\<rparr>
      in \<lparr>document_id = d, verification_methods = [vm], created = 0\<rparr>)"

section \<open>Identities\<close>

record craft_identity =
  did :: did
  keypair :: key32

definition identity_from_keypair :: "primitives \<Rightarrow> bs58_encode \<Rightarrow> key32 \<Rightarrow> craft_identity" where
  "identity_from_keypair ops enc kp =
     (let pubkey = ed_public ops kp;
          d = did_from_pubkey enc pubkey
      in \<lparr>did = d, keypair = kp\<rparr>)"

definition identity_generate :: "primitives \<Rightarrow> bs58_encode \<Rightarrow> key32 option \<Rightarrow> ('e, craft_identity) outcome" where
  "identity_generate ops enc = from_random (identity_from_keypair ops enc)"

definition identity_from_secret_bytes :: "primitives \<Rightarrow> bs58_encode \<Rightarrow> key32 \<Rightarrow> craft_identity" where
  "identity_from_secret_bytes ops enc s = identity_from_keypair ops enc s"

definition identity_pubkey :: "primitives \<Rightarrow> craft_identity \<Rightarrow> key32" where
  "identity_pubkey ops self = ed_public ops (keypair self)"

definition identity_secret_bytes :: "craft_identity \<Rightarrow> key32" where
  "identity_secret_bytes self = keypair self"

definition identity_sign :: "primitives \<Rightarrow> craft_identity \<Rightarrow> bytes \<Rightarrow> signature" where
  "identity_sign ops self data = ed_sign ops (keypair self) data"

definition identity_sign_bytes :: "primitives \<Rightarrow> craft_identity \<Rightarrow> bytes \<Rightarrow> signature" where
  "identity_sign_bytes = identity_sign"

definition identity_verify :: "primitives \<Rightarrow> key32 \<Rightarrow> bytes \<Rightarrow> signature \<Rightarrow> bool" where
  "identity_verify ops pubkey data sig = (if ed_point ops pubkey then ed_check ops pubkey data sig else False)"

definition identity_verify_bytes :: "primitives \<Rightarrow> key32 \<Rightarrow> bytes \<Rightarrow> signature \<Rightarrow> bool" where
  "identity_verify_bytes = identity_verify"

definition identity_verify_with_did ::
    "primitives \<Rightarrow> bs58_decode \<Rightarrow> did \<Rightarrow> bytes \<Rightarrow> signature \<Rightarrow> ('e, bool) outcome" where
  "identity_verify_with_did ops dec d data sig =
     obind (did_to_pubkey dec d) (\<lambda>pubkey. Ok (identity_verify ops pubkey data sig))"

lemma base58_utf8:
  assumes "base58_law enc dec"
  shows "utf8_valid (map of_char (DID_PREFIX @ enc b))"
proof -
  have "\<forall>c \<in> set (enc b). of_char c < (128 :: u8)"
    using assms by (simp add: base58_law_def)
  from utf8_ascii_prefix [OF did_prefix_ascii, of "enc b"] utf8_ascii_prefix [OF this, of "[]"]
  show ?thesis by simp
qed

lemma did_roundtrip:
  assumes "base58_law enc dec"
  shows "did_to_pubkey dec (did_from_pubkey enc k) = Ok k"
    and "did_from_str dec (did_as_str (did_from_pubkey enc k)) = Ok (did_from_pubkey enc k)"
proof -
  have dec: "dec (enc (key_bytes k)) = Inr (key_bytes k)" and "enc (key_bytes k) = [] \<Longrightarrow> key_bytes k = []"
    using assms by (auto simp: base58_law_def)
  moreover have "key_bytes k \<noteq> []"
    using length_be_bytes [of 32 k] by force
  ultimately have nonempty: "enc (key_bytes k) \<noteq> []" by blast
  note utf8 = base58_utf8 [OF assms, of "key_bytes k"]
  show "did_to_pubkey dec (did_from_pubkey enc k) = Ok k"
    by (simp add: did_to_pubkey_def did_from_pubkey_def after_prefix [OF utf8] outcome_simps dec key.dec_enc
        del: length_append)
  show "did_from_str dec (did_as_str (did_from_pubkey enc k)) = Ok (did_from_pubkey enc k)"
    using did_from_str_eq_Ok [OF utf8] dec nonempty by (simp add: did_from_pubkey_def)
qed

lemma identity_pubkey_from_keypair [simp]: "identity_pubkey ops (identity_from_keypair ops enc s) = ed_public ops s"
  by (simp add: identity_pubkey_def identity_from_keypair_def)

lemma identity_stands_for_its_key_parts:
  assumes "signature_law ops" and "base58_law enc dec"
    and "identity_generate ops enc r = Ok identity"
  shows "identity_from_secret_bytes ops enc (identity_secret_bytes identity) = identity"
    and "did_from_str dec (did_as_str (did identity)) = Ok (did identity)"
    and "did_to_pubkey dec (did identity) = Ok (identity_pubkey ops identity)"
    and "document_id (did_document_derive enc (identity_pubkey ops identity)) = did identity"
    and "\<exists>vm. verification_methods (did_document_derive enc (identity_pubkey ops identity)) = [vm] \<and>
      dec (tl (public_key_multibase vm)) = Inr (key_bytes (identity_pubkey ops identity)) \<and>
      method_id vm = did_as_str (did identity) @ ''#key-1''"
    and "identity_verify_with_did ops dec (did identity) m (identity_sign ops identity m) = Ok True"
proof -
  from assms(3) obtain s where identity: "identity = identity_from_keypair ops enc s"
    by (auto simp: identity_generate_def)
  have pubkey: "identity_pubkey ops identity = ed_public ops s" and did: "did identity = did_from_pubkey enc (ed_public ops s)"
    by (simp_all add: identity identity_from_keypair_def identity_pubkey_def)
  show "identity_from_secret_bytes ops enc (identity_secret_bytes identity) = identity"
    by (simp add: identity identity_from_secret_bytes_def identity_secret_bytes_def identity_from_keypair_def)
  show "did_from_str dec (did_as_str (did identity)) = Ok (did identity)"
    unfolding did by (rule did_roundtrip(2) [OF assms(2)])
  show "did_to_pubkey dec (did identity) = Ok (identity_pubkey ops identity)"
    unfolding did pubkey by (rule did_roundtrip(1) [OF assms(2)])
  show "document_id (did_document_derive enc (identity_pubkey ops identity)) = did identity"
    by (simp add: did_document_derive_def pubkey did Let_def)
  show "\<exists>vm. verification_methods (did_document_derive enc (identity_pubkey ops identity)) = [vm] \<and>
      dec (tl (public_key_multibase vm)) = Inr (key_bytes (identity_pubkey ops identity)) \<and>
      method_id vm = did_as_str (did identity) @ ''#key-1''"
    using assms(2) by (simp add: did_document_derive_def pubkey did base58_law_def Let_def)
  have "keypair identity = s"
    by (simp add: identity identity_from_keypair_def)
  with assms(1) show "identity_verify_with_did ops dec (did identity) m (identity_sign ops identity m) = Ok True"
    by (simp add: identity_verify_with_did_def did did_roundtrip(1) [OF assms(2)] identity_verify_def identity_sign_def signature_law_def pubkey)
qed

text \<open>An encoding for the witnesses: two letters per byte.\<close>

fun toy_enc :: "bytes \<Rightarrow> string" where
  "toy_enc [] = []"
| "toy_enc (b # bs) = char_of (65 + unat b div 16) # char_of (65 + unat b mod 16) # toy_enc bs"

fun toy_dec :: "string \<Rightarrow> string + bytes" where
  "toy_dec [] = Inr []"
| "toy_dec [c] = Inl ''odd''"
| "toy_dec (c # d # s) =
     (case toy_dec s of Inl e \<Rightarrow> Inl e | Inr bs \<Rightarrow> Inr (of_nat ((of_char c - 65) * 16 + (of_char d - 65)) # bs))"

lemma toy_base58_law: "base58_law toy_enc toy_dec"
proof -
  have n: "of_char (char_of (65 + n) :: char) = 65 + n" if "n < 16" for n :: nat
    using that by (simp add: take_bit_nat_eq_self)
  have q: "unat b div 16 < 16" for b :: u8
    using unat_u8_less [of b] by linarith
  have m: "(65 + unat b div 16) mod 256 = 65 + unat b div 16" for b :: u8
    using q [of b] by simp
  have byte: "of_nat (unat b div 16) * 16 + of_nat (unat b mod 16) = b" for b :: u8
  proof -
    have "(of_nat (unat b div 16) * 16 + of_nat (unat b mod 16) :: u8) = of_nat (unat b div 16 * 16 + unat b mod 16)"
      by (simp only: of_nat_add of_nat_mult of_nat_numeral)
    then show ?thesis by (simp only: div_mult_mod_eq) simp
  qed
  have u: "of_char (char_of (65 + n) :: char) < (128 :: u8)" if "n < 16" for n :: nat
  proof -
    have c: "of_char (char_of (65 + n) :: char) = (of_nat (65 + n) :: u8)"
      using n [OF that] by (metis of_nat_of_char)
    have "unat (of_nat (65 + n) :: u8) = 65 + n"
      using that by (simp only: unsigned_of_nat of_nat_id) (rule take_bit_nat_eq_self, simp)
    with that show ?thesis
      unfolding c word_less_nat_alt by simp
  qed
  have "toy_dec (toy_enc b) = Inr b \<and> (toy_enc b = [] \<longrightarrow> b = []) \<and> (\<forall>c \<in> set (toy_enc b). of_char c < (128 :: u8))" for b
    by (induction b) (simp_all add: m byte u u [OF q])
  then show ?thesis by (simp add: base58_law_def)
qed

text \<open>
  an identity restored from its secret bytes is the same identity; its identifier parses, carries
  its public key, is the identifier of the derived document, whose key is the same bytes, and verifies
  whatever the identity signs.
\<close>

theorem identity_stands_for_its_key:
  assumes "signature_law ops" and "base58_law enc dec"
    and "identity_generate ops enc r = (Ok identity :: ('e, craft_identity) outcome)"
  shows "identity_from_secret_bytes ops enc (identity_secret_bytes identity) = identity \<and>
    did_from_str dec (did_as_str (did identity)) = Ok (did identity) \<and>
    did_to_pubkey dec (did identity) = (Ok (identity_pubkey ops identity) :: ('e, key32) outcome) \<and>
    document_id (did_document_derive enc (identity_pubkey ops identity)) = did identity \<and>
    (\<exists>vm. verification_methods (did_document_derive enc (identity_pubkey ops identity)) = [vm] \<and>
      dec (tl (public_key_multibase vm)) = Inr (key_bytes (identity_pubkey ops identity)) \<and>
      method_id vm = did_as_str (did identity) @ ''#key-1'') \<and>
    identity_verify_with_did ops dec (did identity) m (identity_sign ops identity m) = (Ok True :: ('e, bool) outcome)"
  by (intro conjI identity_stands_for_its_key_parts [OF assms])

lemma identity_stands_for_its_key_witness:
  "\<exists>identity. identity_generate toy_ops toy_enc (Some 77) = (Ok identity :: (unit, craft_identity) outcome) \<and>
     did_to_pubkey toy_dec (did identity) = (Ok 78 :: (unit, key32) outcome) \<and>
     identity_verify_with_did toy_ops toy_dec (did identity) [1, 2] (identity_sign toy_ops identity [1, 2])
       = (Ok True :: (unit, bool) outcome)"
proof -
  let ?i = "identity_from_keypair toy_ops toy_enc 77"
  have i: "identity_generate toy_ops toy_enc (Some 77) = (Ok ?i :: (unit, craft_identity) outcome)"
    by (simp add: identity_generate_def)
  have "identity_pubkey toy_ops ?i = 78"
    by (simp add: toy_ops_def)
  with identity_stands_for_its_key [OF toy_laws(1) toy_base58_law i] i show ?thesis
    by metis
qed

text \<open>
  parsing accepts a string exactly if it is the prefix followed by the base58 text of 32 bytes, and
  never panics; the identifier it returns has the key of those bytes. An identifier that was not
  parsed but deserialised is any string: asking it for its key panics unless the text after the first
  12 bytes is base58 of 32 bytes, and what those 12 bytes are is not looked at.
\<close>

theorem did_use_exact:
  assumes "utf8_valid (map of_char s)"
  shows "did_from_str dec s \<noteq> Panic \<and>
    (\<forall>d. did_from_str dec s = Ok d \<longleftrightarrow>
      d = Did s \<and> (\<exists>e b. s = DID_PREFIX @ e \<and> e \<noteq> [] \<and> dec e = Inr b \<and> length b = 32)) \<and>
    (\<forall>d. did_from_str dec s = Ok d \<longrightarrow>
      (\<exists>b. dec (drop 12 s) = Inr b \<and> did_to_pubkey dec d = (Ok (of_key_bytes b) :: ('e, key32) outcome))) \<and>
    (\<forall>k. did_to_pubkey dec (Did s) = (Ok k :: ('e, key32) outcome) \<longleftrightarrow>
      is_char_boundary s 12 \<and> dec (drop 12 s) = Inr (key_bytes k)) \<and>
    (\<forall>e. did_to_pubkey dec (Did s) \<noteq> (Err e :: ('e, key32) outcome))"
  by (intro conjI allI impI did_use_exact_parts [OF assms])

lemma did_use_exact_witness:
  "did_from_str toy_dec (DID_PREFIX @ ''AB'') \<noteq> Panic \<and>
   did_from_str toy_dec (DID_PREFIX @ toy_enc (key_bytes 5)) = Ok (Did (DID_PREFIX @ toy_enc (key_bytes 5))) \<and>
   did_to_pubkey toy_dec (Did (''anything....'' @ toy_enc (key_bytes 5))) = (Ok 5 :: (unit, key32) outcome)"
proof -
  have 1: "utf8_valid (map of_char (DID_PREFIX @ ''AB''))"
    by (simp add: DID_PREFIX_def)
  have 2: "utf8_valid (map of_char (DID_PREFIX @ toy_enc (key_bytes 5)))"
    by (rule base58_utf8 [OF toy_base58_law])
  have k: "key_bytes 5 = replicate 31 0 @ [5]"
    by code_simp
  have 3: "utf8_valid (map of_char (''anything....'' @ toy_enc (key_bytes 5)))"
    unfolding k by code_simp
  have dec: "toy_dec (toy_enc (key_bytes 5)) = Inr (key_bytes 5)"
    using toy_base58_law by (simp add: base58_law_def)
  have "toy_enc (key_bytes 5) \<noteq> []"
    using dec by (auto simp: k)
  then have exact: "did_from_str toy_dec (DID_PREFIX @ toy_enc (key_bytes 5)) = Ok (Did (DID_PREFIX @ toy_enc (key_bytes 5)))"
    unfolding did_use_exact [where 'e = unit, OF 2, THEN conjunct2, THEN conjunct1, rule_format] using dec length_be_bytes [of 32 "5 :: key32"] by blast
  have "is_char_boundary (''anything....'' @ toy_enc (key_bytes 5)) 12"
    unfolding k by code_simp
  moreover have "drop 12 (''anything....'' @ x) = x" for x :: string
    by simp
  ultimately have "did_to_pubkey toy_dec (Did (''anything....'' @ toy_enc (key_bytes 5))) = (Ok 5 :: (unit, key32) outcome)"
    unfolding did_use_exact [where 'e = unit, OF 3, THEN conjunct2, THEN conjunct2, THEN conjunct2, THEN conjunct1, rule_format]
    using dec by metis
  with exact did_use_exact [where 'e = unit, OF 1, of toy_dec, THEN conjunct1] show ?thesis by blast
qed

end
