(* ===== verification/Keystore.thy ===== *)
theory Keystore
  imports Keys
begin

text \<open>
  \<open>crates/keystore\<close>, \<open>crates/settings\<close> and \<open>crates/app\<close>, as compiled for Linux: the key file, the
  settings file, the start of an application. Paths are strings with the operations of
  \<open>std::path\<close> the code uses; a disk maps the path as written to the content of a file, and has
  directories. What the operating system answers is the argument \<open>io\<close> of each operation: whether
  the status of a path can be read, whether reading, creating directories and writing succeed, and
  how many bytes an interrupted write leaves. serde_json is the pair \<open>to_json\<close>, \<open>from_json\<close>, the
  Unicode lower case of \<open>String::to_lowercase\<close> is \<open>lower\<close>, the environment is a map.
\<close>

section \<open>Paths\<close>

text \<open>Trailing separators and trailing \<open>.\<close> components, of a reversed path.\<close>

fun trim_rev :: "string \<Rightarrow> string" where
  "trim_rev (c # d # p) =
     (if c = CHR ''/'' then trim_rev (d # p)
      else if c = CHR ''.'' \<and> d = CHR ''/'' then trim_rev (d # p)
      else c # d # p)"
| "trim_rev p = p"

definition path_parent :: "path \<Rightarrow> path option" where
  "path_parent p =
     (let q = trim_rev (rev p) in
      if q = [] \<or> q = ''/'' then None
      else Some (rev (trim_rev (dropWhile (\<lambda>c. c \<noteq> CHR ''/'') q))))"

lemma length_trim_rev: "length (trim_rev p) \<le> length p"
  by (induction p rule: trim_rev.induct) auto

lemma trim_rev_slash: "trim_rev p = CHR ''/'' # q \<Longrightarrow> q = []"
  by (induction p rule: trim_rev.induct) (auto split: if_splits)

lemma path_parent_shorter: "path_parent p = Some q \<Longrightarrow> length q < length p"
proof -
  let ?q = "trim_rev (rev p)"
  assume parent: "path_parent p = Some q"
  then have q: "?q \<noteq> []" "?q \<noteq> ''/''" and "q = rev (trim_rev (dropWhile (\<lambda>c. c \<noteq> CHR ''/'') ?q))"
    by (auto simp: path_parent_def Let_def split: if_splits)
  then have "length q \<le> length (dropWhile (\<lambda>c. c \<noteq> CHR ''/'') ?q)"
    by (simp add: length_trim_rev)
  moreover obtain c r where cr: "?q = c # r"
    using q(1) by (cases ?q) auto
  then have "c \<noteq> CHR ''/''"
    using q(2) trim_rev_slash [of "rev p" r] by auto
  then have "length (dropWhile (\<lambda>c. c \<noteq> CHR ''/'') ?q) < length ?q"
    using length_dropWhile_le [of "\<lambda>c. c \<noteq> CHR ''/''" r] by (simp add: cr le_imp_less_Suc)
  moreover have "length ?q \<le> length p"
    using length_trim_rev [of "rev p"] by simp
  ultimately show ?thesis by linarith
qed

text \<open>The directories \<open>create_dir_all\<close> makes: the path and what lies above it, innermost first.\<close>

function ancestors :: "path \<Rightarrow> path list" where
  "ancestors p = (if p = [] then [] else p # (case path_parent p of None \<Rightarrow> [] | Some q \<Rightarrow> ancestors q))"
  by pat_completeness auto
termination
  by (relation "measure length") (auto dest: path_parent_shorter)

declare ancestors.simps [simp del]

lemma ancestors_shorter: "q \<in> set (ancestors p) \<Longrightarrow> length q \<le> length p"
proof (induction p rule: ancestors.induct)
  case (1 p)
  from 1(2) consider "q = p" | r where "p \<noteq> []" "path_parent p = Some r" "q \<in> set (ancestors r)"
    by (cases "path_parent p") (auto simp: ancestors.simps [of p] split: if_splits)
  then show ?case
  proof cases
    case 2
    with 1(1) have "length q \<le> length r" by blast
    with path_parent_shorter [OF 2(2)] show ?thesis by simp
  qed simp
qed

lemma not_own_ancestor: "path_parent p = Some q \<Longrightarrow> p \<notin> set (ancestors q)"
  using ancestors_shorter [of p q] path_parent_shorter [of p q] by auto

section \<open>The disk\<close>

record file_system =
  files :: "path \<Rightarrow> bytes option"
  dirs :: "path set"

datatype mkdir_result = Mkdir_ok | Mkdir_failed nat string
datatype write_result = Write_ok | Write_denied string | Write_cut nat string

record io =
  stat_ok :: bool
  read_error :: "string option"
  on_mkdir :: mkdir_result
  on_write :: write_result

definition present :: "file_system \<Rightarrow> path \<Rightarrow> bool" where
  "present d p \<longleftrightarrow> files d p \<noteq> None \<or> p \<in> dirs d"

definition path_exists :: "io \<Rightarrow> file_system \<Rightarrow> path \<Rightarrow> bool" where
  "path_exists io d p \<longleftrightarrow> stat_ok io \<and> present d p"

definition fs_read :: "io \<Rightarrow> file_system \<Rightarrow> path \<Rightarrow> (string, bytes) outcome" where
  "fs_read io d p = (case read_error io of
     Some e \<Rightarrow> Err e
   | None \<Rightarrow> (case files d p of
       Some bs \<Rightarrow> Ok bs
     | None \<Rightarrow> Err (if p \<in> dirs d then ''Is a directory (os error 21)'' else ''No such file or directory (os error 2)'')))"

definition create_dir_all :: "io \<Rightarrow> path \<Rightarrow> file_system \<Rightarrow> (string, unit) outcome \<times> file_system" where
  "create_dir_all io p d = (case on_mkdir io of
     Mkdir_ok \<Rightarrow> (Ok (), d\<lparr>dirs := dirs d \<union> set (ancestors p)\<rparr>)
   | Mkdir_failed n e \<Rightarrow> (if p = [] then (Ok (), d) else (Err e, d\<lparr>dirs := dirs d \<union> set (take n (rev (ancestors p)))\<rparr>)))"

definition fs_write :: "io \<Rightarrow> path \<Rightarrow> bytes \<Rightarrow> file_system \<Rightarrow> (string, unit) outcome \<times> file_system" where
  "fs_write io p bs d = (case on_write io of
     Write_ok \<Rightarrow> (Ok (), d\<lparr>files := (files d)(p \<mapsto> bs)\<rparr>)
   | Write_denied e \<Rightarrow> (Err e, d)
   | Write_cut n e \<Rightarrow> (Err e, d\<lparr>files := (files d)(p \<mapsto> take n bs)\<rparr>))"

definition create_parent :: "io \<Rightarrow> path \<Rightarrow> file_system \<Rightarrow> (string, unit) outcome \<times> file_system" where
  "create_parent io p d = (case path_parent p of None \<Rightarrow> (Ok (), d) | Some parent \<Rightarrow> create_dir_all io parent d)"

lemma files_create_parent [simp]: "files (snd (create_parent io p d)) = files d"
  by (simp add: create_parent_def create_dir_all_def split: option.split mkdir_result.split)

section \<open>A value kept in a file\<close>

text \<open>The operator \<open>?\<close> on a computation that also changes the disk.\<close>

fun dbind :: "('e, 'a) outcome \<times> file_system \<Rightarrow> ('a \<Rightarrow> file_system \<Rightarrow> ('e, 'b) outcome \<times> file_system) \<Rightarrow> ('e, 'b) outcome \<times> file_system" where
  "dbind (Ok x, d) f = f x d"
| "dbind (Err e, d) f = (Err e, d)"
| "dbind (Panic, d) f = (Panic, d)"

declare dbind.simps [outcome_simps]

lemma dbind_eq_Ok: "dbind m f = (Ok y, d') \<longleftrightarrow> (\<exists>x d. m = (Ok x, d) \<and> f x d = (Ok y, d'))"
  by (cases m; cases "fst m") auto

lemma files_dbind:
  "files (snd m) q = files d q \<Longrightarrow> (\<And>x d1. files d1 q = files d q \<Longrightarrow> files (snd (f x d1)) q = files d q) \<Longrightarrow>
    files (snd (dbind m f)) q = files d q"
  by (cases m; cases "fst m") auto

lemma apfst_map_err_Ok: "apfst (map_err f) m = (Ok x, d) \<longleftrightarrow> m = (Ok x, d)"
  by (cases m) auto

lemma create_parent_Ok: "create_parent io p d = (Ok u, d') \<Longrightarrow> files d' = files d"
  using files_create_parent [of io p d] by simp

lemma fs_write_Ok: "fs_write io p bs d = (Ok u, d') \<longleftrightarrow> on_write io = Write_ok \<and> d' = d\<lparr>files := (files d)(p \<mapsto> bs)\<rparr>"
  by (auto simp: fs_write_def split: write_result.split)

lemma fs_read_Ok: "fs_read io d p = Ok bs \<longleftrightarrow> read_error io = None \<and> files d p = Some bs"
  by (simp add: fs_read_def split: option.split)

lemmas load_Ok_simps = dbind_eq_Ok apfst_map_err_Ok fs_write_Ok

text \<open>
  The contract shared by the key file and the settings file: what is on disk is decoded, what is not is
  created and written. \<open>fresh\<close> makes the value to create from the seed and the path.
\<close>

locale file_backed =
  fixes load :: "io \<Rightarrow> 's \<Rightarrow> path \<Rightarrow> file_system \<Rightarrow> ('e, 'v) outcome \<times> file_system"
    and fresh :: "'s \<Rightarrow> path \<Rightarrow> ('e, 'v) outcome"
    and encode :: "'v \<Rightarrow> (string, bytes) outcome"
    and decode :: "path \<Rightarrow> bytes \<Rightarrow> ('e, 'v) outcome"
    and read_failure mkdir_failure write_failure :: "string \<Rightarrow> 'e"
  assumes load_present: "path_exists io d p \<Longrightarrow>
      load io s p d = (obind (map_err read_failure (fs_read io d p)) (decode p), d)"
    and load_absent: "\<not> path_exists io d p \<Longrightarrow>
      load io s p d =
        dbind (fresh s p, d) (\<lambda>v d. dbind (apfst (map_err mkdir_failure) (create_parent io p d)) (\<lambda>_ d.
          dbind (map_err write_failure (encode v), d) (\<lambda>bs d.
            dbind (apfst (map_err write_failure) (fs_write io p bs d)) (\<lambda>_ d. (Ok v, d)))))"
begin

lemma present_untouched: "path_exists io d p \<Longrightarrow> snd (load io s p d) = d"
  by (simp add: load_present)

lemma load_file:
  assumes "stat_ok io" and "read_error io = None" and "files d p = Some bs"
  shows "load io s p d = (decode p bs, d)"
  using assms by (simp add: load_present path_exists_def present_def fs_read_def outcome_simps)

lemma created:
  assumes "\<not> path_exists io d p" and "load io s p d = (Ok v, d')"
  obtains bs where "fresh s p = Ok v" and "encode v = Ok bs" and "files d' = (files d)(p \<mapsto> bs)"
proof -
  from assms(2) obtain bs d1 where "fresh s p = Ok v" and "create_parent io p d = (Ok (), d1)"
    and "encode v = Ok bs" and "d' = d1\<lparr>files := (files d1)(p \<mapsto> bs)\<rparr>"
    unfolding load_absent [OF assms(1)] by (auto simp: load_Ok_simps)
  then show thesis using that create_parent_Ok by simp
qed

lemma read_back:
  assumes "path_exists io d p" and "load io s p d = (Ok v, d')"
  obtains bs where "files d p = Some bs" and "decode p bs = Ok v" and "d' = d"
proof -
  from assms(2) have "obind (map_err read_failure (fs_read io d p)) (decode p) = Ok v" and "d' = d"
    unfolding load_present [OF assms(1)] by auto
  then show thesis using that by (auto simp: fs_read_Ok)
qed

text \<open>No other file is touched.\<close>

lemma frame:
  assumes "load io s p d = (r, d')" and "q \<noteq> p"
  shows "files d' q = files d q"
proof (cases "path_exists io d p")
  case True
  with assms(1) show ?thesis by (auto simp: load_present)
next
  case False
  have written: "files (snd (fs_write io p bs d)) q = files d q" for bs and d :: file_system
    using assms(2) by (simp add: fs_write_def split: write_result.split)
  have "files (snd (load io s p d)) q = files d q"
    unfolding load_absent [OF False]
    by (intro files_dbind) (simp_all add: written)
  with assms(1) show ?thesis by simp
qed

text \<open>Once a value was returned, every later load that can read the file returns it and changes nothing.\<close>

lemma reload:
  assumes "load io s p d = (Ok v, d')"
    and law: "\<And>bs. fresh s p = Ok v \<Longrightarrow> encode v = Ok bs \<Longrightarrow> decode p bs = Ok v"
    and "stat_ok io'" and "read_error io' = None"
  shows "load io' s' p d' = (Ok v, d')"
proof (cases "path_exists io d p")
  case True
  then obtain bs where "files d p = Some bs" "decode p bs = Ok v" "d' = d"
    using assms(1) by (rule read_back)
  then show ?thesis using load_file [OF assms(3,4)] by simp
next
  case False
  then obtain bs where "fresh s p = Ok v" "encode v = Ok bs" "files d' = (files d)(p \<mapsto> bs)"
    using assms(1) by (rule created)
  then show ?thesis using load_file [OF assms(3,4), of d' p bs] law by simp
qed

text \<open>A creation cut short leaves what was written, and that is what every later load decodes.\<close>

lemma interrupted:
  assumes "\<not> path_exists io d p" and "on_write io = Write_cut n e" and "on_mkdir io = Mkdir_ok"
    and "fresh s p = Ok v" and "encode v = Ok bs"
  shows "\<exists>d'. load io s p d = (Err (write_failure e), d') \<and> files d' p = Some (take n bs) \<and>
    (\<forall>io' s'. stat_ok io' \<longrightarrow> read_error io' = None \<longrightarrow> load io' s' p d' = (decode p (take n bs), d'))"
proof -
  obtain d1 where "create_parent io p d = (Ok (), d1)"
    using assms(3) by (cases "path_parent p") (simp_all add: create_parent_def create_dir_all_def)
  then have "load io s p d = (Err (write_failure e), d1\<lparr>files := (files d1)(p \<mapsto> take n bs)\<rparr>)"
    using assms by (simp add: load_absent outcome_simps fs_write_def)
  then show ?thesis using load_file by auto
qed

end

section \<open>The key file\<close>

datatype keystore_error = ReadError string | WriteError string | InvalidFormat | CreateDirError string

definition save_keypair_bytes :: "io \<Rightarrow> path \<Rightarrow> bytes \<Rightarrow> file_system \<Rightarrow> (keystore_error, unit) outcome \<times> file_system" where
  "save_keypair_bytes io p bs d =
     dbind (apfst (map_err CreateDirError) (create_parent io p d)) (\<lambda>_ d.
       apfst (map_err WriteError) (fs_write io p bs d))"

definition read_keypair :: "primitives \<Rightarrow> bytes \<Rightarrow> (keystore_error, signing_keypair) outcome" where
  "read_keypair ops bs =
     (if length bs \<noteq> 32 then Err InvalidFormat
      else Ok (signing_from_secret_bytes ops (of_key_bytes bs)))"

definition load_or_generate_keypair ::
    "primitives \<Rightarrow> io \<Rightarrow> key32 option \<Rightarrow> path \<Rightarrow> file_system \<Rightarrow> (keystore_error, signing_keypair) outcome \<times> file_system" where
  "load_or_generate_keypair ops io r p d =
     (if path_exists io d p then (obind (map_err ReadError (fs_read io d p)) (read_keypair ops), d)
      else dbind (signing_generate ops r, d) (\<lambda>keypair d.
        dbind (save_keypair_bytes io p (key_bytes (signing_secret_key_bytes keypair)) d) (\<lambda>_ d.
          (Ok keypair, d))))"

lemma dbind_assoc: "dbind (dbind m f) g = dbind m (\<lambda>x d. dbind (f x d) g)"
  by (cases m; cases "fst m") auto

interpretation keystore: file_backed "load_or_generate_keypair ops" "\<lambda>r p. signing_generate ops r"
    "\<lambda>kp. Ok (key_bytes (signing_secret_key_bytes kp))" "\<lambda>p. read_keypair ops" ReadError CreateDirError WriteError
  for ops
  by unfold_locales
    (simp_all add: load_or_generate_keypair_def save_keypair_bytes_def dbind_assoc outcome_simps)

lemma keypair_on_disk:
  "signing_coherent ops kp \<Longrightarrow> read_keypair ops (key_bytes (signing_secret_key_bytes kp)) = Ok kp"
  by (simp add: read_keypair_def key.dec_enc signing_restored)

text \<open>
  once a start has returned a key pair, every later start that can look at the file and read it
  returns the same pair, whatever the generator offers, and leaves the disk as it is.
\<close>

theorem restart_keeps_key:
  assumes "load_or_generate_keypair ops io r p d = (Ok kp, d')"
    and "stat_ok io'" and "read_error io' = None"
  shows "load_or_generate_keypair ops io' r' p d' = (Ok kp, d')"
    and "signing_coherent ops kp"
proof -
  show "load_or_generate_keypair ops io' r' p d' = (Ok kp, d')"
  proof (rule keystore.reload [OF assms(1) _ assms(2,3)])
    fix bs
    assume "signing_generate ops r = (Ok kp :: (keystore_error, signing_keypair) outcome)"
      and "(Ok (key_bytes (signing_secret_key_bytes kp)) :: (string, bytes) outcome) = Ok bs"
    then show "read_keypair ops bs = Ok kp"
      using keypair_on_disk [OF signing_generate_coherent] by blast
  qed
  show "signing_coherent ops kp"
  proof (cases "path_exists io d p")
    case True
    then show ?thesis
      using assms(1) by (rule keystore.read_back) (auto simp: read_keypair_def split: if_splits)
  next
    case False
    then show ?thesis
      using assms(1) by (rule keystore.created) (erule signing_generate_coherent)
  qed
qed

lemma key_file_is_fragile_parts:
  assumes "n < 32"
  shows "\<not> path_exists io d p \<Longrightarrow> on_mkdir io = Mkdir_ok \<Longrightarrow> on_write io = Write_cut n e \<Longrightarrow>
    \<exists>d'. load_or_generate_keypair ops io (Some s) p d = (Err (WriteError e), d') \<and>
      (\<forall>io' r. stat_ok io' \<longrightarrow> read_error io' = None \<longrightarrow>
        load_or_generate_keypair ops io' r p d' = (Err InvalidFormat, d'))"
    and "\<not> stat_ok io \<Longrightarrow> on_mkdir io = Mkdir_ok \<Longrightarrow> on_write io = Write_ok \<Longrightarrow>
      \<exists>d'. load_or_generate_keypair ops io (Some s) p d = (Ok (signing_from_secret_bytes ops s), d') \<and>
        files d' p = Some (key_bytes s)"
proof -
  have gen: "signing_generate ops (Some s) = Ok (signing_from_secret_bytes ops s)"
    by (simp add: signing_generate_def from_random_def signing_from_secret_bytes_def)
  have secret: "signing_secret_key_bytes (signing_from_secret_bytes ops s) = s"
    by (simp add: signing_from_secret_bytes_def signing_secret_key_bytes_def)
  have short: "read_keypair ops (take n (key_bytes s)) = Err InvalidFormat"
    using assms by (simp add: read_keypair_def)
  show "\<exists>d'. load_or_generate_keypair ops io (Some s) p d = (Err (WriteError e), d') \<and>
      (\<forall>io' r. stat_ok io' \<longrightarrow> read_error io' = None \<longrightarrow>
        load_or_generate_keypair ops io' r p d' = (Err InvalidFormat, d'))"
    if "\<not> path_exists io d p" "on_mkdir io = Mkdir_ok" "on_write io = Write_cut n e"
    using keystore.interrupted [OF that(1,3,2) gen, of "key_bytes s"] unfolding secret short by blast
  assume "\<not> stat_ok io" and io: "on_mkdir io = Mkdir_ok" "on_write io = Write_ok"
  then have absent: "\<not> path_exists io d p" by (simp add: path_exists_def)
  obtain d1 where "create_parent io p d = (Ok (), d1)"
    using io by (cases "path_parent p") (simp_all add: create_parent_def create_dir_all_def)
  then show "\<exists>d'. load_or_generate_keypair ops io (Some s) p d = (Ok (signing_from_secret_bytes ops s), d') \<and>
      files d' p = Some (key_bytes s)"
    using io by (simp add: keystore.load_absent [OF absent] gen secret outcome_simps fs_write_def)
qed

text \<open>A start, an interrupted start and a start on a disk whose status calls fail.\<close>

definition io_ok :: io where
  "io_ok = \<lparr>stat_ok = True, read_error = None, on_mkdir = Mkdir_ok, on_write = Write_ok\<rparr>"

definition empty_disk :: file_system where
  "empty_disk = \<lparr>files = (\<lambda>p. None), dirs = {}\<rparr>"

lemma io_ok_simps [simp]:
  "stat_ok io_ok" "read_error io_ok = None" "on_mkdir io_ok = Mkdir_ok" "on_write io_ok = Write_ok"
  "\<not> path_exists io empty_disk p" "files empty_disk p = None"
  by (simp_all add: io_ok_def empty_disk_def path_exists_def present_def)

lemma first_start:
  "\<exists>d'. load_or_generate_keypair ops io_ok (Some s) p empty_disk = (Ok (signing_from_secret_bytes ops s), d')"
  by (cases "path_parent p")
    (simp_all add: keystore.load_absent outcome_simps fs_write_def create_parent_def create_dir_all_def
      signing_generate_def from_random_def signing_from_secret_bytes_def)

lemma restart_keeps_key_witness:
  "\<exists>d'. load_or_generate_keypair toy_ops io_ok (Some 7) ''/var/k'' empty_disk
      = (Ok (signing_from_secret_bytes toy_ops 7), d') \<and>
    load_or_generate_keypair toy_ops io_ok (Some 8) ''/var/k'' d' = (Ok (signing_from_secret_bytes toy_ops 7), d')"
proof -
  obtain d' where d': "load_or_generate_keypair toy_ops io_ok (Some 7) ''/var/k'' empty_disk
      = (Ok (signing_from_secret_bytes toy_ops 7), d')"
    using first_start by blast
  show ?thesis
    using d' restart_keeps_key(1) [OF d', of io_ok "Some 8"] by auto
qed

text \<open>
  the key file is written in place. If the very first start is interrupted after \<open>n\<close> of the 32
  bytes, it fails with \<open>WriteError\<close>, and every later start that can read the file fails with
  \<open>InvalidFormat\<close> without changing anything: no start ever generates a key again. And if the file
  exists but its status cannot be read, a start replaces the key by a new one.
\<close>

theorem key_file_is_fragile:
  assumes "n < 32" and "on_mkdir io = Mkdir_ok"
  shows "(\<not> path_exists io d p \<and> on_write io = Write_cut n e \<longrightarrow>
      (\<exists>d'. load_or_generate_keypair ops io (Some s) p d = (Err (WriteError e), d') \<and>
        (\<forall>io' r. stat_ok io' \<longrightarrow> read_error io' = None \<longrightarrow>
          load_or_generate_keypair ops io' r p d' = (Err InvalidFormat, d')))) \<and>
    (\<not> stat_ok io \<and> on_write io = Write_ok \<longrightarrow>
      (\<exists>d'. load_or_generate_keypair ops io (Some s) p d = (Ok (signing_from_secret_bytes ops s), d') \<and>
        files d' p = Some (key_bytes s)))"
  using key_file_is_fragile_parts [OF assms(1)] assms(2) by blast

lemma key_file_is_fragile_witness:
  "\<exists>d'. load_or_generate_keypair toy_ops (io_ok\<lparr>on_write := Write_cut 20 ''no space''\<rparr>) (Some 7) ''/var/k'' empty_disk
      = (Err (WriteError ''no space''), d') \<and>
    load_or_generate_keypair toy_ops io_ok (Some 8) ''/var/k'' d' = (Err InvalidFormat, d')"
  using key_file_is_fragile [of 20 "io_ok\<lparr>on_write := Write_cut 20 ''no space''\<rparr>" empty_disk "''/var/k''"
      "''no space''" toy_ops 7]
  by force

section \<open>Default paths\<close>

type_synonym environment = "string \<Rightarrow> string option"

definition home_dir :: "environment \<Rightarrow> path" where
  "home_dir env = (case env ''HOME'' of Some h \<Rightarrow> h | None \<Rightarrow> ''/tmp'')"

definition data_dir :: "environment \<Rightarrow> (string \<Rightarrow> string) \<Rightarrow> string \<Rightarrow> path" where
  "data_dir env lower service =
     path_join (case env ''XDG_DATA_HOME'' of Some x \<Rightarrow> x | None \<Rightarrow> path_join (path_join (home_dir env) ''.local'') ''share'')
       (lower service)"

definition default_config_dir_for :: "environment \<Rightarrow> (string \<Rightarrow> string) \<Rightarrow> string \<Rightarrow> path" where
  "default_config_dir_for env lower service =
     path_join (case env ''XDG_CONFIG_HOME'' of Some x \<Rightarrow> x | None \<Rightarrow> path_join (home_dir env) ''.config'')
       (lower service)"

definition default_keystore_dir_for :: "environment \<Rightarrow> (string \<Rightarrow> string) \<Rightarrow> string \<Rightarrow> path" where
  "default_keystore_dir_for env lower service = path_join (data_dir env lower service) ''keys''"

definition default_key_path_for :: "environment \<Rightarrow> (string \<Rightarrow> string) \<Rightarrow> string \<Rightarrow> path" where
  "default_key_path_for env lower service = path_join (default_keystore_dir_for env lower service) ''signing.key''"

text \<open>
  The same directories as compiled for other systems. \<open>join\<close> is \<open>Path::join\<close> on Windows, \<open>upper\<close> the
  Unicode upper case of a character, given by its UTF-8 bytes.
\<close>

definition capitalize :: "(string \<Rightarrow> string) \<Rightarrow> (string \<Rightarrow> string) \<Rightarrow> string \<Rightarrow> string" where
  "capitalize upper lower s =
     (case s of [] \<Rightarrow> []
      | c # rest \<Rightarrow>
          upper (c # takeWhile (\<lambda>d. continuation (of_char d)) rest) @
          lower (dropWhile (\<lambda>d. continuation (of_char d)) rest))"

definition macos_config_dir :: "environment \<Rightarrow> (string \<Rightarrow> string) \<Rightarrow> (string \<Rightarrow> string) \<Rightarrow> string \<Rightarrow> path" where
  "macos_config_dir env upper lower service =
     path_join (path_join (path_join (home_dir env) ''Library'') ''Application Support'') (capitalize upper lower service)"

definition macos_data_dir :: "environment \<Rightarrow> (string \<Rightarrow> string) \<Rightarrow> (string \<Rightarrow> string) \<Rightarrow> string \<Rightarrow> path" where
  "macos_data_dir env upper lower service =
     path_join (path_join (path_join (home_dir env) ''Library'') ''Application Support'') (capitalize upper lower service)"

definition windows_home_dir :: "environment \<Rightarrow> path" where
  "windows_home_dir env =
     (case env ''USERPROFILE'' of Some p \<Rightarrow> p
      | None \<Rightarrow> ''C:'' @ [CHR 0x5C] @ ''Users'' @ [CHR 0x5C] @ ''default'')"

definition windows_config_dir ::
  "(path \<Rightarrow> path \<Rightarrow> path) \<Rightarrow> environment \<Rightarrow> (string \<Rightarrow> string) \<Rightarrow> (string \<Rightarrow> string) \<Rightarrow> string \<Rightarrow> path" where
  "windows_config_dir join env upper lower service =
     join (case env ''APPDATA'' of Some p \<Rightarrow> p | None \<Rightarrow> join (join (windows_home_dir env) ''AppData'') ''Roaming'')
       (capitalize upper lower service)"

definition windows_data_dir ::
  "(path \<Rightarrow> path \<Rightarrow> path) \<Rightarrow> environment \<Rightarrow> (string \<Rightarrow> string) \<Rightarrow> (string \<Rightarrow> string) \<Rightarrow> string \<Rightarrow> path" where
  "windows_data_dir join env upper lower service =
     join (case env ''APPDATA'' of Some p \<Rightarrow> p | None \<Rightarrow> join (join (windows_home_dir env) ''AppData'') ''Roaming'')
       (capitalize upper lower service)"

definition other_config_dir :: "environment \<Rightarrow> (string \<Rightarrow> string) \<Rightarrow> string \<Rightarrow> path" where
  "other_config_dir env lower service = path_join (home_dir env) (''.'' @ lower service)"

definition other_data_dir :: "environment \<Rightarrow> (string \<Rightarrow> string) \<Rightarrow> string \<Rightarrow> path" where
  "other_data_dir env lower service = path_join (home_dir env) (''.'' @ lower service)"

definition expand_path :: "environment \<Rightarrow> string \<Rightarrow> ('e, path) outcome" where
  "expand_path env p =
     (if p \<noteq> [] \<and> hd p = CHR ''~'' then obind (str_from p 2) (\<lambda>rest. Ok (path_join (home_dir env) rest))
      else Ok p)"

lemma tilde_boundary: "is_char_boundary (CHR ''~'' # p) 2 \<longleftrightarrow>
    (case p of [] \<Rightarrow> False | [c] \<Rightarrow> True | c # d # r \<Rightarrow> \<not> continuation (of_char d))"
  by (auto simp: is_char_boundary_def numeral_2_eq_2 split: list.split)

text \<open>
  a path that does not begin with a tilde is returned as it is, and one under \<open>~/\<close> is put
  under the home directory. The character after the tilde is skipped without being looked at (so
  \<open>~user/x\<close> names \<open>ser/x\<close> in the own home), an absolute rest replaces the home directory, and a
  tilde alone, or before a character of two or more bytes, panics.
\<close>

theorem expand_path_exact:
  "(p = [] \<or> hd p \<noteq> CHR ''~'' \<longrightarrow> (expand_path env p :: ('e, path) outcome) = Ok p) \<and>
   (\<forall>c r. p = CHR ''~'' # c # r \<longrightarrow> is_char_boundary p 2 \<longrightarrow> (expand_path env p :: ('e, path) outcome) = Ok (path_join (home_dir env) r)) \<and>
   ((expand_path env p :: ('e, path) outcome) = Panic \<longleftrightarrow> p \<noteq> [] \<and> hd p = CHR ''~'' \<and> \<not> is_char_boundary p 2) \<and>
   (p = ''~'' \<longrightarrow> (expand_path env p :: ('e, path) outcome) = Panic) \<and>
   (\<forall>r. p = CHR ''~'' # CHR ''/'' # CHR ''/'' # r \<longrightarrow> (expand_path env p :: ('e, path) outcome) = Ok (CHR ''/'' # r)) \<and>
   (\<forall>r. r \<noteq> [] \<and> hd r \<noteq> CHR ''/'' \<and> home_dir env \<noteq> [] \<and> last (home_dir env) \<noteq> CHR ''/'' \<longrightarrow>
     path_join (home_dir env) r = home_dir env @ ''/'' @ r)"
  by (intro conjI allI impI)
    (auto simp: expand_path_def str_from_def outcome_simps path_join_def tilde_boundary continuation_def)

lemma expand_path_exact_witness:
  "expand_path (\<lambda>v. Some ''/home/a'') ''x/y'' = (Ok ''x/y'' :: (unit, path) outcome) \<and>
   expand_path (\<lambda>v. Some ''/home/a'') ''~user/x'' = (Ok ''/home/a/ser/x'' :: (unit, path) outcome) \<and>
   expand_path (\<lambda>v. Some ''/home/a'') ''~'' = (Panic :: (unit, path) outcome)"
  using expand_path_exact [of "''x/y''" "\<lambda>v. Some ''/home/a''", where 'e = unit]
    expand_path_exact [of "''~user/x''" "\<lambda>v. Some ''/home/a''", where 'e = unit]
    expand_path_exact [of "''~''" "\<lambda>v. Some ''/home/a''", where 'e = unit]
  by (simp add: tilde_boundary continuation_def path_join_def home_dir_def)

end
