(* ===== verification/Settings.thy ===== *)
theory Settings
  imports Keystore
begin

text \<open>
  \<open>crates/settings\<close> and \<open>crates/app\<close>: the settings file and the start of an application, with the
  log levels of \<open>crates/logging\<close>. The settings type is a parameter with its default value and the
  pair \<open>to_json\<close>, \<open>from_json\<close> of serde_json, which read and write the UTF-8 text of the file. The
  tracing subscriber and the banner are the list of notices an application emits.
\<close>

section \<open>The settings file\<close>

datatype settings_error = ReadError string | WriteError string | ParseError string | CreateDirError string

record 'c settings =
  config :: 'c
  settings_path :: path

record 'c codec =
  to_json :: "'c \<Rightarrow> (string, bytes) outcome"
  from_json :: "bytes \<Rightarrow> (string, 'c) outcome"
  default_config :: 'c

text \<open>
  A value whose JSON text, if it has one, is UTF-8 and parses back to it. serde_json promises this for no
  type as a whole (a \<open>NaN\<close> is written as \<open>null\<close>, fields can be skipped or renamed), so it is a hypothesis
  about single values, such as the default of a settings type.
\<close>

definition round_trips :: "'c codec \<Rightarrow> 'c \<Rightarrow> bool" where
  "round_trips js c \<longleftrightarrow> (\<forall>t. to_json js c = Ok t \<longrightarrow> utf8_valid t \<and> from_json js t = Ok c)"

definition default_settings_path :: "environment \<Rightarrow> (string \<Rightarrow> string) \<Rightarrow> string \<Rightarrow> path" where
  "default_settings_path env lower service = path_join (default_config_dir_for env lower service) ''settings.json''"

definition settings_save :: "'c codec \<Rightarrow> io \<Rightarrow> 'c settings \<Rightarrow> file_system \<Rightarrow> (settings_error, unit) outcome \<times> file_system" where
  "settings_save js io self d =
     dbind (apfst (map_err CreateDirError) (create_parent io (settings_path self) d)) (\<lambda>_ d.
       dbind (map_err WriteError (to_json js (config self)), d) (\<lambda>content d.
         apfst (map_err WriteError) (fs_write io (settings_path self) content d)))"

text \<open>\<open>fs::read_to_string\<close> fails on bytes that are not UTF-8.\<close>

definition read_to_string :: "io \<Rightarrow> file_system \<Rightarrow> path \<Rightarrow> (string, bytes) outcome" where
  "read_to_string io d p =
     obind (fs_read io d p) (\<lambda>bs. if utf8_valid bs then Ok bs else Err ''stream did not contain valid UTF-8'')"

definition load_or_default ::
    "'c codec \<Rightarrow> environment \<Rightarrow> (string \<Rightarrow> string) \<Rightarrow> io \<Rightarrow> string \<Rightarrow> path option \<Rightarrow> file_system \<Rightarrow>
      (settings_error, 'c settings) outcome \<times> file_system" where
  "load_or_default js env lower io service custom_path d =
     (let p = (case custom_path of Some p \<Rightarrow> p | None \<Rightarrow> default_settings_path env lower service) in
      if path_exists io d p then
        (obind (map_err ReadError (read_to_string io d p)) (\<lambda>content.
          obind (map_err ParseError (from_json js content)) (\<lambda>c.
            Ok \<lparr>config = c, settings_path = p\<rparr>)), d)
      else
        let settings = \<lparr>config = default_config js, settings_path = p\<rparr> in
        dbind (settings_save js io settings d) (\<lambda>_ d. (Ok settings, d)))"

definition decode_settings :: "'c codec \<Rightarrow> path \<Rightarrow> bytes \<Rightarrow> (settings_error, 'c settings) outcome" where
  "decode_settings js p bs =
     (if utf8_valid bs
      then obind (map_err ParseError (from_json js bs)) (\<lambda>c. Ok \<lparr>config = c, settings_path = p\<rparr>)
      else Err (ReadError ''stream did not contain valid UTF-8''))"

text \<open>
  The settings file keeps the contract of a value on disk. The directory is created before the
  configuration is serialised, so that a failure to serialise is met after it; the contract is stated
  for codecs that serialise the default.
\<close>

lemma load_path:
  "p = (case custom of Some p \<Rightarrow> p | None \<Rightarrow> default_settings_path env lower service) \<Longrightarrow>
    load_or_default js env lower io service custom d = load_or_default js env lower io service (Some p) d"
  by (simp add: load_or_default_def)

interpretation settings: file_backed
    "\<lambda>io (_ :: unit) p. load_or_default js env lower io service (Some p)"
    "\<lambda>_ p. Ok \<lparr>config = default_config js, settings_path = p\<rparr>"
    "\<lambda>s. to_json js (config s)"
    "decode_settings js" ReadError CreateDirError WriteError
  for js env lower service
proof
  fix io d p and s :: unit
  show "load_or_default js env lower io service (Some p) d =
      (obind (map_err ReadError (fs_read io d p)) (decode_settings js p), d)" if "path_exists io d p"
    using that by (cases "fs_read io d p")
      (simp_all add: load_or_default_def read_to_string_def decode_settings_def outcome_simps Let_def)
  show "load_or_default js env lower io service (Some p) d =
      dbind (Ok \<lparr>config = default_config js, settings_path = p\<rparr>, d) (\<lambda>v d.
        dbind (apfst (map_err CreateDirError) (create_parent io p d)) (\<lambda>_ d.
          dbind (map_err WriteError (to_json js (config v)), d) (\<lambda>bs d.
            dbind (apfst (map_err WriteError) (fs_write io p bs d)) (\<lambda>_ d. (Ok v, d)))))" if "\<not> path_exists io d p"
    using that by (simp add: load_or_default_def settings_save_def outcome_simps dbind_assoc Let_def)
qed

lemma settings_reload:
  assumes "round_trips js (default_config js)" and "stat_ok io'" and "read_error io' = None"
    and load: "load_or_default js env lower io service custom d = (Ok s, d')"
  shows "load_or_default js env lower io' service custom d' = (Ok s, d')"
proof -
  let ?p = "case custom of Some p \<Rightarrow> p | None \<Rightarrow> default_settings_path env lower service"
  have law: "decode_settings js ?p bs = Ok s"
    if "(Ok \<lparr>config = default_config js, settings_path = ?p\<rparr> :: (settings_error, _) outcome) = Ok s"
      and "to_json js (config s) = Ok bs" for bs
    using that assms(1) by (auto simp: decode_settings_def round_trips_def)
  have at: "load_or_default js env lower io service custom d = load_or_default js env lower io service (Some ?p) d"
    for io d by (rule load_path) simp
  show ?thesis
    using settings.reload [OF load [unfolded at] law assms(2,3)] by (simp only: at)
qed

lemma settings_are_kept_parts:
  assumes "round_trips js (default_config js)" and "stat_ok io'" and "read_error io' = None"
  shows "settings_save js io self d = (Ok (), d') \<Longrightarrow> round_trips js (config self) \<Longrightarrow>
      load_or_default js env lower io' service (Some (settings_path self)) d' = (Ok self, d')"
    and "load_or_default js env lower io service custom d = (Ok s, d') \<Longrightarrow>
      load_or_default js env lower io' service custom d' = (Ok s, d')"
    and "files d p = Some bs \<Longrightarrow> utf8_valid bs \<Longrightarrow> from_json js bs = Err e \<Longrightarrow>
      load_or_default js env lower io' service (Some p) d = (Err (ParseError e), d)"
proof -
  show "load_or_default js env lower io' service (Some (settings_path self)) d' = (Ok self, d')"
    if save: "settings_save js io self d = (Ok (), d')" and law: "round_trips js (config self)"
  proof -
    from save obtain t where "to_json js (config self) = Ok t" and "files d' (settings_path self) = Some t"
      by (auto simp: settings_save_def load_Ok_simps)
    then show ?thesis
      using law settings.load_file [OF assms(2,3), of d' "settings_path self" t js env lower service]
      by (cases self) (auto simp: decode_settings_def round_trips_def outcome_simps)
  qed
  show "load_or_default js env lower io' service custom d' = (Ok s, d')"
    if "load_or_default js env lower io service custom d = (Ok s, d')"
    using assms that by (rule settings_reload)
  show "load_or_default js env lower io' service (Some p) d = (Err (ParseError e), d)"
    if "files d p = Some bs" "utf8_valid bs" "from_json js bs = Err e"
    using settings.load_file [OF assms(2,3) that(1), of js env lower service] that(2,3) by (simp add: decode_settings_def outcome_simps)
qed

section \<open>Starting an application\<close>

datatype log_level = Error | Warn | Info | Debug | Trace

definition log_level_from_verbose :: "bool \<Rightarrow> log_level" where
  "log_level_from_verbose verbose = (if verbose then Debug else Info)"

definition log_level_from_verbosity :: "u8 \<Rightarrow> log_level" where
  "log_level_from_verbosity count = (if count = 0 then Info else if count = 1 then Debug else Trace)"

fun log_level_as_str :: "log_level \<Rightarrow> string" where
  "log_level_as_str Error = ''error''"
| "log_level_as_str Warn = ''warn''"
| "log_level_as_str Info = ''info''"
| "log_level_as_str Debug = ''debug''"
| "log_level_as_str Trace = ''trace''"

text \<open>
  The subscriber of the process, which can be set once; \<open>env_filter\<close> is the filter of the environment,
  if there is one that parses.
\<close>

record subscriber =
  sub_filter :: string
  sub_target :: bool

definition set_subscriber :: "subscriber \<Rightarrow> subscriber option \<Rightarrow> (string, unit) outcome \<times> subscriber option" where
  "set_subscriber s installed =
     (case installed of None \<Rightarrow> (Ok (), Some s)
      | Some old \<Rightarrow> (Err ''a global default trace dispatcher has already been set'', installed))"

definition log_filter :: "string option \<Rightarrow> log_level \<Rightarrow> string" where
  "log_filter env_filter level = (case env_filter of Some f \<Rightarrow> f | None \<Rightarrow> log_level_as_str level)"

definition try_init :: "string option \<Rightarrow> log_level \<Rightarrow> subscriber option \<Rightarrow> (string, unit) outcome \<times> subscriber option" where
  "try_init env_filter level installed =
     set_subscriber \<lparr>sub_filter = log_filter env_filter level, sub_target = False\<rparr> installed"

definition init_logging :: "string option \<Rightarrow> log_level \<Rightarrow> subscriber option \<Rightarrow> (string, unit) outcome \<times> subscriber option" where
  "init_logging env_filter level installed =
     (case try_init env_filter level installed of
        (Ok u, s) \<Rightarrow> (Ok u, s) | (r, s) \<Rightarrow> (Panic, s))"

definition init_with_target ::
  "string option \<Rightarrow> log_level \<Rightarrow> bool \<Rightarrow> subscriber option \<Rightarrow> (string, unit) outcome \<times> subscriber option" where
  "init_with_target env_filter level show_target installed =
     (case set_subscriber \<lparr>sub_filter = log_filter env_filter level, sub_target = show_target\<rparr> installed of
        (Ok u, s) \<Rightarrow> (Ok u, s) | (r, s) \<Rightarrow> (Panic, s))"

text \<open>Whatever sets it first stays.\<close>

lemma subscriber_stays:
  "try_init f l (Some s) = (Err ''a global default trace dispatcher has already been set'', Some s)"
  "init_logging f l (Some s) = (Panic, Some s)" "init_with_target f l t (Some s) = (Panic, Some s)"
  by (simp_all add: try_init_def init_logging_def init_with_target_def set_subscriber_def)

datatype app_type = Cli | Desktop | Mobile | Daemon | Node

fun app_type_name :: "app_type \<Rightarrow> string" where
  "app_type_name Cli = ''CLI''"
| "app_type_name Desktop = ''Desktop''"
| "app_type_name Mobile = ''Mobile''"
| "app_type_name Daemon = ''Daemon''"
| "app_type_name Node = ''Node''"

datatype app_error = InitError string | SettingsError settings_error | KeystoreError keystore_error

record 'c app =
  app_service :: string
  app_kind :: app_type
  app_keypair :: signing_keypair
  app_settings :: "'c settings"

record app_builder =
  service :: string
  builder_type :: app_type
  log_level :: log_level
  skip_logging :: bool
  skip_banner :: bool
  config_path :: "path option"

datatype notice = Init_logging string | Banner string string string key32

definition builder_new :: "string \<Rightarrow> app_builder" where
  "builder_new s = \<lparr>service = s, builder_type = Cli, log_level = Info, skip_logging = False,
     skip_banner = False, config_path = None\<rparr>"

definition set_app_type :: "app_type \<Rightarrow> app_builder \<Rightarrow> app_builder" where
  "set_app_type t self = self\<lparr>builder_type := t\<rparr>"

definition set_log_level :: "log_level \<Rightarrow> app_builder \<Rightarrow> app_builder" where
  "set_log_level level self = self\<lparr>log_level := level\<rparr>"

definition set_verbose :: "bool \<Rightarrow> app_builder \<Rightarrow> app_builder" where
  "set_verbose v self = self\<lparr>log_level := log_level_from_verbose v\<rparr>"

definition set_skip_logging :: "app_builder \<Rightarrow> app_builder" where
  "set_skip_logging self = self\<lparr>skip_logging := True\<rparr>"

definition set_skip_banner :: "app_builder \<Rightarrow> app_builder" where
  "set_skip_banner self = self\<lparr>skip_banner := True\<rparr>"

definition set_config_path :: "path \<Rightarrow> app_builder \<Rightarrow> app_builder" where
  "set_config_path p self = self\<lparr>config_path := Some p\<rparr>"

text \<open>The version of the crate is fixed when it is compiled; the result of \<open>try_init\<close> is dropped.\<close>

definition app_build ::
    "primitives \<Rightarrow> 'c codec \<Rightarrow> environment \<Rightarrow> (string \<Rightarrow> string) \<Rightarrow> string \<Rightarrow> io \<Rightarrow> io \<Rightarrow> key32 option \<Rightarrow> app_builder \<Rightarrow>
      file_system \<Rightarrow> ((app_error, 'c app) outcome \<times> file_system) \<times> notice list" where
  "app_build ops js env lower version io1 io2 r self d =
     (let started = (if skip_logging self then [] else [Init_logging (log_level_as_str (log_level self))]);
          key_path = default_key_path_for env lower (service self);
          result = dbind (apfst (map_err KeystoreError) (load_or_generate_keypair ops io1 r key_path d)) (\<lambda>kp d.
            dbind (apfst (map_err SettingsError) (load_or_default js env lower io2 (service self) (config_path self) d)) (\<lambda>s d.
              (Ok \<lparr>app_service = service self, app_kind = builder_type self, app_keypair = kp, app_settings = s\<rparr>, d)));
          banner = (case fst result of
            Ok app \<Rightarrow> if skip_banner self then []
              else [Banner (service self) version (app_type_name (builder_type self))
                      (signing_public_key_bytes (app_keypair app))]
          | _ \<Rightarrow> [])
      in (result, started @ banner))"

definition settings_file :: "environment \<Rightarrow> (string \<Rightarrow> string) \<Rightarrow> app_builder \<Rightarrow> path" where
  "settings_file env lower self =
     (case config_path self of Some p \<Rightarrow> p | None \<Rightarrow> default_settings_path env lower (service self))"

lemma dbind_pure: "dbind (apfst h m) (\<lambda>x. Pair (g x)) = (r, d') \<Longrightarrow> \<exists>s. m = (s, d')"
  by (cases m; cases "h (fst m)") auto

lemma load_or_default_frame:
  assumes "load_or_default js env lower io (service self) (config_path self) d = (r, d')"
    and "q \<noteq> settings_file env lower self"
  shows "files d' q = files d q"
proof -
  have "load_or_default js env lower io (service self) (Some (settings_file env lower self)) d = (r, d')"
    unfolding assms(1) [symmetric] by (rule load_path [symmetric]) (simp add: settings_file_def)
  then show ?thesis using assms(2) by (rule settings.frame)
qed

lemma key_load_depends_on_file:
  assumes "load_or_generate_keypair ops io r p d = (Ok kp, d')" and "files d2 p = files d' p"
    and "stat_ok io'" and "read_error io' = None"
  shows "load_or_generate_keypair ops io' r' p d2 = (Ok kp, d2)"
proof -
  obtain bs where "files d' p = Some bs" "read_keypair ops bs = Ok kp"
  proof (cases "path_exists io d p")
    case True
    then show thesis using assms(1) that by (rule keystore.read_back) auto
  next
    case False
    then show thesis
      using assms(1) that by (rule keystore.created) (auto intro!: keypair_on_disk signing_generate_coherent)
  qed
  then show ?thesis using keystore.load_file [OF assms(3,4)] assms(2) by simp
qed

lemma restarted_app_is_the_same_parts:
  assumes "round_trips js (default_config js)"
    and "service self' = service self" and "config_path self' = config_path self"
    and "settings_file env lower self \<noteq> default_key_path_for env lower (service self)"
    and "stat_ok io1'" and "read_error io1' = None" and "stat_ok io2'" and "read_error io2' = None"
  shows "fst (app_build ops js env lower version io1 io2 r self d) = (Ok app, d') \<Longrightarrow>
      \<exists>app'. fst (app_build ops js env lower version' io1' io2' r' self' d') = (Ok app', d') \<and>
        app_keypair app' = app_keypair app \<and> app_settings app' = app_settings app"
    and "fst (app_build ops js env lower version io1 io2 r self d) = (Err (SettingsError e), d') \<Longrightarrow>
      \<exists>kp. load_or_generate_keypair ops io1' r' (default_key_path_for env lower (service self)) d' = (Ok kp, d')"
proof -
  let ?key = "default_key_path_for env lower (service self)"
  have keep: "load_or_generate_keypair ops io1' r'' ?key d2 = (Ok kp, d2)"
    if "load_or_generate_keypair ops io1 r ?key d = (Ok kp, d1)"
      and "load_or_default js env lower io2 (service self) (config_path self) d1 = (s, d2)" for kp d1 s d2 r''
    using key_load_depends_on_file [OF that(1) load_or_default_frame [OF that(2)] assms(5,6)] assms(4) by simp
  show "\<exists>app'. fst (app_build ops js env lower version' io1' io2' r' self' d') = (Ok app', d') \<and>
      app_keypair app' = app_keypair app \<and> app_settings app' = app_settings app"
    if "fst (app_build ops js env lower version io1 io2 r self d) = (Ok app, d')"
  proof -
    from that obtain kp d1 s where k: "load_or_generate_keypair ops io1 r ?key d = (Ok kp, d1)"
      and s: "load_or_default js env lower io2 (service self) (config_path self) d1 = (Ok s, d')"
      and "app_keypair app = kp" "app_settings app = s"
      by (auto simp: app_build_def Let_def load_Ok_simps)
    then show ?thesis
      using keep [OF k s] settings_reload [OF assms(1,7,8) s] assms(2,3)
      by (simp add: app_build_def Let_def outcome_simps)
  qed
  assume "fst (app_build ops js env lower version io1 io2 r self d) = (Err (SettingsError e), d')"
  then obtain kp d1 s where "load_or_generate_keypair ops io1 r ?key d = (Ok kp, d1)"
    and "load_or_default js env lower io2 (service self) (config_path self) d1 = (s, d')"
    by (cases "load_or_generate_keypair ops io1 r ?key d"; cases "fst (load_or_generate_keypair ops io1 r ?key d)")
      (auto simp: app_build_def Let_def outcome_simps dest!: dbind_pure)
  then show "\<exists>kp. load_or_generate_keypair ops io1' r' ?key d' = (Ok kp, d')"
    using keep by blast
qed

text \<open>A codec of one byte, written as ASCII \<open>t\<close> or \<open>f\<close>.\<close>

definition flag_codec :: "bool codec" where
  "flag_codec = \<lparr>to_json = (\<lambda>b. Ok [if b then 0x74 else 0x66]),
     from_json = (\<lambda>bs. if bs = [0x74] then Ok True else if bs = [0x66] then Ok False else Err ''expected a flag''),
     default_config = False\<rparr>"

lemma flag_codec_law: "round_trips flag_codec c"
  by (simp add: flag_codec_def round_trips_def)

abbreviation no_env :: environment where
  "no_env \<equiv> (\<lambda>v. None)"

lemma create_parent_io_ok: "\<exists>d'. create_parent io_ok p d = (Ok (), d')"
  by (cases "path_parent p") (simp_all add: create_parent_def create_dir_all_def)

text \<open>
  settings that were saved are the settings that are loaded, and loading them changes nothing;
  what a start returns every later start returns, the default written by the first one included. A
  file that does not parse is an error and is never replaced by the default.
\<close>

theorem settings_are_kept:
  assumes "round_trips js (default_config js)" and "stat_ok io'" and "read_error io' = None"
  shows "(settings_save js io self d = (Ok (), d') \<and> round_trips js (config self) \<longrightarrow>
      load_or_default js env lower io' name (Some (settings_path self)) d' = (Ok self, d')) \<and>
    (load_or_default js env lower io name custom d = (Ok s, d') \<longrightarrow>
      load_or_default js env lower io' name custom d' = (Ok s, d')) \<and>
    (\<forall>bs e. files d p = Some bs \<and> utf8_valid bs \<and> from_json js bs = Err e \<longrightarrow>
      load_or_default js env lower io' name (Some p) d = (Err (ParseError e), d))"
  by (intro conjI allI impI; (elim conjE)?; rule settings_are_kept_parts [OF assms]; assumption)

lemma settings_are_kept_witness:
  "\<exists>d'. settings_save flag_codec io_ok \<lparr>config = True, settings_path = ''/etc/x''\<rparr> empty_disk = (Ok (), d') \<and>
     load_or_default flag_codec no_env id io_ok ''s'' (Some ''/etc/x'') d' = (Ok \<lparr>config = True, settings_path = ''/etc/x''\<rparr>, d')"
proof -
  let ?s = "\<lparr>config = True, settings_path = ''/etc/x''\<rparr>"
  obtain d' where d': "settings_save flag_codec io_ok ?s empty_disk = (Ok (), d')"
    using create_parent_io_ok [of "''/etc/x''" empty_disk]
    by (auto simp: settings_save_def outcome_simps flag_codec_def fs_write_def)
  show ?thesis
    using d' settings_are_kept [OF flag_codec_law io_ok_simps(1,2), of io_ok ?s empty_disk d' no_env id "''s''"] flag_codec_law by auto
qed

definition flag_disk :: file_system where
  "flag_disk = \<lparr>files = [''/etc/x'' \<mapsto> [0x74]], dirs = {}\<rparr>"

definition flag_builder :: app_builder where
  "flag_builder = set_config_path ''/etc/x'' (builder_new ''s'')"

lemma flag_key_path: "default_key_path_for no_env id ''s'' = ''/tmp/.local/share/s/keys/signing.key''"
  by code_simp

lemma first_build:
  "\<exists>d'. fst (app_build toy_ops flag_codec no_env id ''0.1'' io_ok io_ok (Some 7) flag_builder flag_disk) =
    (Ok \<lparr>app_service = ''s'', app_kind = Cli, app_keypair = signing_from_secret_bytes toy_ops 7,
       app_settings = \<lparr>config = True, settings_path = ''/etc/x''\<rparr>\<rparr>, d')"
proof -
  let ?key = "''/tmp/.local/share/s/keys/signing.key''"
  have "\<not> path_exists io_ok flag_disk ?key"
    by (simp add: path_exists_def present_def flag_disk_def)
  moreover obtain d1 where "create_parent io_ok ?key flag_disk = (Ok (), d1)"
    using create_parent_io_ok by blast
  ultimately obtain d2 where key: "load_or_generate_keypair toy_ops io_ok (Some 7) ?key flag_disk
      = (Ok (signing_from_secret_bytes toy_ops 7), d2)"
    by (simp add: keystore.load_absent outcome_simps fs_write_def signing_generate_def from_random_def
        signing_from_secret_bytes_def)
  have "files d2 ''/etc/x'' = Some [0x74]"
    using keystore.frame [OF key, of "''/etc/x''"] by (simp add: flag_disk_def)
  then have "load_or_default flag_codec no_env id io_ok ''s'' (Some ''/etc/x'') d2
      = (Ok \<lparr>config = True, settings_path = ''/etc/x''\<rparr>, d2)"
    by (subst settings.load_file [where bs = "[0x74]"]) (simp_all add: decode_settings_def flag_codec_def outcome_simps)
  with key show ?thesis
    by (simp add: app_build_def flag_builder_def set_config_path_def builder_new_def flag_key_path outcome_simps)
qed

text \<open>
  C24: an application that started once starts again. Suppose that the next start can look at and read
  the key file and the settings file, that these are two files, and that the JSON text of the default
  configuration parses back to it. Then, with any builder for the same service and the same settings
  file, it has the same key pair and the same settings, and changes nothing on disk; and if the first
  start failed on its settings, the next start still finds the key that was generated. (A start that
  cannot look at the key file makes a new key.)
\<close>

theorem restarted_app_is_the_same:
  assumes "round_trips js (default_config js)"
    and "service self' = service self" and "config_path self' = config_path self"
    and "settings_file env lower self \<noteq> default_key_path_for env lower (service self)"
    and "stat_ok io1'" and "read_error io1' = None" and "stat_ok io2'" and "read_error io2' = None"
  shows "(\<forall>app. fst (app_build ops js env lower version io1 io2 r self d) = (Ok app, d') \<longrightarrow>
      (\<exists>app'. fst (app_build ops js env lower version' io1' io2' r' self' d') = (Ok app', d') \<and>
        app_keypair app' = app_keypair app \<and> app_settings app' = app_settings app)) \<and>
    (\<forall>e. fst (app_build ops js env lower version io1 io2 r self d) = (Err (SettingsError e), d') \<longrightarrow>
      (\<exists>kp. load_or_generate_keypair ops io1' r' (default_key_path_for env lower (service self)) d' = (Ok kp, d')))"
  by (intro conjI allI impI; rule restarted_app_is_the_same_parts [OF assms]; assumption)

lemma restarted_app_is_the_same_witness:
  "\<exists>d' app. fst (app_build toy_ops flag_codec no_env id ''0.1'' io_ok io_ok (Some 7) flag_builder flag_disk) = (Ok app, d') \<and>
    (\<exists>app'. fst (app_build toy_ops flag_codec no_env id ''0.2'' io_ok io_ok (Some 8)
        (set_skip_banner flag_builder) d') = (Ok app', d') \<and> app_keypair app' = app_keypair app)"
proof -
  obtain d' app where first: "fst (app_build toy_ops flag_codec no_env id ''0.1'' io_ok io_ok (Some 7) flag_builder flag_disk)
      = (Ok app, d')"
    using first_build by blast
  have "settings_file no_env id flag_builder \<noteq> default_key_path_for no_env id (service flag_builder)"
    by (simp add: settings_file_def flag_builder_def set_config_path_def builder_new_def flag_key_path)
  then have "\<exists>app'. fst (app_build toy_ops flag_codec no_env id ''0.2'' io_ok io_ok (Some 8)
        (set_skip_banner flag_builder) d') = (Ok app', d') \<and> app_keypair app' = app_keypair app"
    using restarted_app_is_the_same [OF flag_codec_law, of "set_skip_banner flag_builder" flag_builder no_env id
        io_ok io_ok toy_ops "''0.1''" io_ok io_ok "Some 7" flag_disk d' "''0.2''" "Some 8"] first
    by (auto simp: set_skip_banner_def)
  with first show ?thesis by blast
qed

end
