(* ===== verification/Node_Tests.thy ===== *)
theory Node_Tests
  imports Testing Daemon Settings
begin

text \<open>
  The unit tests of \<open>crypto\<close>, \<open>identity\<close>, \<open>keystore\<close>, \<open>settings\<close>, \<open>logging\<close>, \<open>app\<close> and \<open>ipc\<close> on the model. What the
  generator of the system draws in a test is an argument, \<open>None\<close> if it fails; primitives, base58 and
  JSON are arguments with the laws the other theories state for them. The temporary directories of the
  tests are empty when they start, and their files can be read and written (\<open>io_ok\<close>).
\<close>

section \<open>Tests of crypto\<close>

definition test_signing_keypair :: "primitives \<Rightarrow> key32 option \<Rightarrow> bool" where
  "test_signing_keypair ops r \<longleftrightarrow>
     tested (signing_generate ops r :: (unit, signing_keypair) outcome) (\<lambda>kp.
       let pubkey = signing_public_key_bytes kp; secret = signing_secret_key_bytes kp;
           restored = signing_from_secret_bytes ops secret
       in signing_public_key_bytes restored = pubkey)"

definition test_encryption_keypair :: "primitives \<Rightarrow> key32 option \<Rightarrow> bool" where
  "test_encryption_keypair ops r \<longleftrightarrow>
     tested (encryption_generate ops r :: (unit, encryption_keypair) outcome) (\<lambda>kp.
       let pubkey = encryption_public_key_bytes kp; secret = encryption_secret_key_bytes kp;
           restored = encryption_from_secret_bytes ops secret
       in encryption_public_key_bytes restored = pubkey)"

definition test_diffie_hellman :: "primitives \<Rightarrow> key32 option \<Rightarrow> key32 option \<Rightarrow> bool" where
  "test_diffie_hellman ops r1 r2 \<longleftrightarrow>
     tested (encryption_generate ops r1 :: (unit, encryption_keypair) outcome) (\<lambda>alice.
     tested (encryption_generate ops r2 :: (unit, encryption_keypair) outcome) (\<lambda>bob.
       let alice_shared = diffie_hellman ops alice (encryption_public_key_bytes bob);
           bob_shared = diffie_hellman ops bob (encryption_public_key_bytes alice)
       in alice_shared = bob_shared))"

definition test_identity :: "primitives \<Rightarrow> key32 option \<Rightarrow> key32 option \<Rightarrow> bool" where
  "test_identity ops r1 r2 \<longleftrightarrow>
     tested (node_keys_generate ops r1 r2 :: (unit, node_keys) outcome) (\<lambda>id.
       let pubkey = node_keys_pubkey id in length (key_bytes pubkey) = 32)"

definition test_hash :: "primitives \<Rightarrow> bool" where
  "test_hash ops \<longleftrightarrow>
     (let h1 = hash_data ops (map of_char ''hello''); h2 = hash_data ops (map of_char ''hello'')
      in h1 = h2 \<and> (let h3 = hash_data ops (map of_char ''world'') in h1 \<noteq> h3))"

definition test_sign_and_verify :: "primitives \<Rightarrow> key32 option \<Rightarrow> bool" where
  "test_sign_and_verify ops r \<longleftrightarrow>
     tested (signing_generate ops r :: (unit, signing_keypair) outcome) (\<lambda>keypair.
       let data = map of_char ''Hello, Craftec!''; signature = sign_data ops keypair data
       in verify_signature ops (signing_public_key_bytes keypair) data signature \<and>
          \<not> verify_signature ops (signing_public_key_bytes keypair) (map of_char ''Wrong data'') signature)"

definition test_wrong_pubkey_fails :: "primitives \<Rightarrow> key32 option \<Rightarrow> key32 option \<Rightarrow> bool" where
  "test_wrong_pubkey_fails ops r1 r2 \<longleftrightarrow>
     tested (signing_generate ops r1 :: (unit, signing_keypair) outcome) (\<lambda>keypair1.
     tested (signing_generate ops r2 :: (unit, signing_keypair) outcome) (\<lambda>keypair2.
       let data = map of_char ''Test data''; signature = sign_data ops keypair1 data
       in \<not> verify_signature ops (signing_public_key_bytes keypair2) data signature))"

definition test_asymmetric_encryption :: "primitives \<Rightarrow> key32 option \<Rightarrow> key32 option \<Rightarrow> nonce option \<Rightarrow> bool" where
  "test_asymmetric_encryption ops r1 r2 r \<longleftrightarrow>
     tested (encryption_generate ops r1 :: (unit, encryption_keypair) outcome) (\<lambda>sender.
     tested (encryption_generate ops r2 :: (unit, encryption_keypair) outcome) (\<lambda>recipient.
       let plaintext = map of_char ''Hello, Craftec!'' in
       tested (encrypt_for_recipient ops (encryption_public_key_bytes recipient) (encryption_secret_key_bytes sender) r plaintext)
         (\<lambda>ciphertext.
       tested (decrypt_from_sender ops (encryption_public_key_bytes sender) (encryption_secret_key_bytes recipient) ciphertext)
         (\<lambda>decrypted. decrypted = plaintext))))"

definition test_symmetric_encryption :: "primitives \<Rightarrow> nonce option \<Rightarrow> bool" where
  "test_symmetric_encryption ops r \<longleftrightarrow>
     (let key = filled 42; plaintext = map of_char ''Secret data'' in
      tested (encrypt_symmetric ops key r plaintext) (\<lambda>ciphertext.
      tested (decrypt_symmetric ops key ciphertext) (\<lambda>decrypted. decrypted = plaintext)))"

definition test_wrong_key_fails :: "primitives \<Rightarrow> nonce option \<Rightarrow> bool" where
  "test_wrong_key_fails ops r \<longleftrightarrow>
     (let key1 = filled 42; key2 = filled 43; plaintext = map of_char ''Secret data'' in
      tested (encrypt_symmetric ops key1 r plaintext) (\<lambda>ciphertext.
        let result = decrypt_symmetric ops key2 ciphertext in case result of Err _ \<Rightarrow> True | _ \<Rightarrow> False))"

definition test_decrypt_ciphertext_too_short :: "primitives \<Rightarrow> bool" where
  "test_decrypt_ciphertext_too_short ops \<longleftrightarrow>
     (let key = filled 42; result = decrypt_symmetric ops key [1, 2, 3] in result = Err CiphertextTooShort)"

definition test_encrypt_empty_plaintext :: "primitives \<Rightarrow> nonce option \<Rightarrow> bool" where
  "test_encrypt_empty_plaintext ops r \<longleftrightarrow>
     (let key = filled 42 in
      tested (encrypt_symmetric ops key r []) (\<lambda>ciphertext.
      tested (decrypt_symmetric ops key ciphertext) (\<lambda>decrypted. decrypted = [])))"

lemma generated_coherent [simp]:
  "encryption_coherent ops \<lparr>secret = s, public = x_public ops s\<rparr>"
  by (simp add: encryption_coherent_def)

lemma key_tests_pass:
  "test_signing_keypair ops (Some a)" "test_encryption_keypair ops (Some a)" "test_identity ops (Some a) (Some b)"
  "exchange_law ops \<Longrightarrow> test_diffie_hellman ops (Some a) (Some b)"
  "test_hash ops \<longleftrightarrow> sha256_of ops (map of_char ''hello'') \<noteq> sha256_of ops (map of_char ''world'')"
  "test_decrypt_ciphertext_too_short ops"
  by (simp_all add: diffie_hellman_def exchange_law_def test_signing_keypair_def test_encryption_keypair_def test_identity_def test_diffie_hellman_def
      test_hash_def test_decrypt_ciphertext_too_short_def signing_generate_def encryption_generate_def from_random_def
      node_keys_generate_def signing_public_key_bytes_def signing_secret_key_bytes_def signing_from_secret_bytes_def
      encryption_public_key_bytes_def encryption_secret_key_bytes_def encryption_from_secret_bytes_def hash_data_def
      decrypt_symmetric_def Let_def)

text \<open>Rejections are certain only of a signature scheme that accepts nothing else for these keys.\<close>

lemma signature_tests_pass:
  assumes "signature_law ops"
  shows "test_sign_and_verify ops (Some s) \<longleftrightarrow> \<not> ed_check ops (ed_public ops s) (map of_char ''Wrong data'')
      (ed_sign ops s (map of_char ''Hello, Craftec!''))"
    and "test_wrong_pubkey_fails ops (Some s) (Some t) \<longleftrightarrow>
      \<not> ed_check ops (ed_public ops t) (map of_char ''Test data'') (ed_sign ops s (map of_char ''Test data''))"
  using assms
  by (simp_all add: test_sign_and_verify_def test_wrong_pubkey_fails_def signing_generate_def from_random_def
      sign_data_def verify_signature_def signing_public_key_bytes_def signature_law_def Let_def)

lemma cipher_tests_pass:
  assumes "aead_law ops" and "\<And>k n m. aead_seal ops k n m \<noteq> None"
  shows "test_symmetric_encryption ops (Some n)" and "test_encrypt_empty_plaintext ops (Some n)"
    and "exchange_law ops \<Longrightarrow> test_asymmetric_encryption ops (Some a) (Some b) (Some n)"
proof -
  have seal: "\<exists>c. encrypt_symmetric ops k (Some n) m = Ok c \<and> decrypt_symmetric ops k c = Ok m" for k m
  proof -
    obtain c where "encrypt_symmetric ops k (Some n) m = Ok c"
      using assms(2) [of k n m] by (auto simp: encrypt_symmetric_def from_random_def)
    then show ?thesis using symmetric_roundtrip [OF assms(1)] by blast
  qed
  from seal [of "filled 42" "map of_char ''Secret data''"] show "test_symmetric_encryption ops (Some n)"
    by (auto simp: test_symmetric_encryption_def Let_def)
  from seal [of "filled 42" "[]"] show "test_encrypt_empty_plaintext ops (Some n)"
    by (auto simp: test_encrypt_empty_plaintext_def Let_def)
  show "test_asymmetric_encryption ops (Some a) (Some b) (Some n)" if "exchange_law ops"
  proof -
    have "x_shared ops b (x_public ops a) = x_shared ops a (x_public ops b)"
      using that by (simp add: exchange_law_def)
    then show ?thesis
      using seal [of "hash_data ops (key_bytes (x_shared ops a (x_public ops b)))" "map of_char ''Hello, Craftec!''"]
      by (auto simp: test_asymmetric_encryption_def encryption_generate_def from_random_def encrypt_is_symmetric
          decrypt_is_symmetric encryption_public_key_bytes_def encryption_secret_key_bytes_def Let_def)
  qed
qed

section \<open>Tests of identity\<close>

definition did_roundtrip_pubkey :: "bs58_encode \<Rightarrow> bs58_decode \<Rightarrow> bool" where
  "did_roundtrip_pubkey enc dec \<longleftrightarrow>
     (let pubkey = filled 42; d = did_from_pubkey enc pubkey
      in take 12 (did_display d) = ''did:craftec:'' \<and>
         tested (did_to_pubkey dec d :: (unit, key32) outcome) (\<lambda>k. k = pubkey))"

definition parse_valid :: "bs58_encode \<Rightarrow> bs58_decode \<Rightarrow> bool" where
  "parse_valid enc dec \<longleftrightarrow>
     (let pubkey = filled 1; d = did_from_pubkey enc pubkey
      in tested (did_from_str dec (did_display d)) (\<lambda>parsed. parsed = d))"

definition is_error :: "('e, 'a) outcome \<Rightarrow> bool" where
  "is_error r \<longleftrightarrow> (case r of Err _ \<Rightarrow> True | _ \<Rightarrow> False)"

definition parse_invalid_prefix :: "bs58_decode \<Rightarrow> bool" where
  "parse_invalid_prefix dec \<longleftrightarrow> is_error (did_from_str dec ''did:other:abc'')"

definition parse_invalid_base58 :: "bs58_decode \<Rightarrow> bool" where
  "parse_invalid_base58 dec \<longleftrightarrow> is_error (did_from_str dec ''did:craftec:0OIl'')"

definition parse_wrong_key_length :: "bs58_encode \<Rightarrow> bs58_decode \<Rightarrow> bool" where
  "parse_wrong_key_length enc dec \<longleftrightarrow>
     (let short = enc (replicate 16 0); s = ''did:craftec:'' @ short in is_error (did_from_str dec s))"

definition parse_empty_key :: "bs58_decode \<Rightarrow> bool" where
  "parse_empty_key dec \<longleftrightarrow> is_error (did_from_str dec ''did:craftec:'')"

text \<open>The three \<open>serde_roundtrip\<close> tests, of an identifier, a document and a reputation, differ in the value.\<close>

definition serde_roundtrip :: "('a \<Rightarrow> ('e, bytes) outcome) \<Rightarrow> (bytes \<Rightarrow> ('e, 'a) outcome) \<Rightarrow> 'a \<Rightarrow> bool" where
  "serde_roundtrip to_string from_str value \<longleftrightarrow>
     tested (to_string value) (\<lambda>json. tested (from_str json) (\<lambda>back. back = value))"

definition derive_document :: "bs58_encode \<Rightarrow> bool" where
  "derive_document enc \<longleftrightarrow>
     (let pubkey = filled 99; doc = did_document_derive enc pubkey
      in document_id doc = did_from_pubkey enc pubkey \<and> length (verification_methods doc) = 1 \<and>
         (let vm = verification_methods doc ! 0
          in drop (length (method_id vm) - 6) (method_id vm) = ''#key-1'' \<and>
             method_type vm = ''Ed25519VerificationKey2020'' \<and> take 1 (public_key_multibase vm) = ''z''))"

definition generate_and_sign_verify :: "primitives \<Rightarrow> bs58_encode \<Rightarrow> bs58_decode \<Rightarrow> key32 option \<Rightarrow> bool" where
  "generate_and_sign_verify ops enc dec r \<longleftrightarrow>
     tested (identity_generate ops enc r :: (unit, craft_identity) outcome) (\<lambda>id.
       let data = map of_char ''hello craftec''; sig = identity_sign ops id data
       in tested (did_to_pubkey dec (did id) :: (unit, key32) outcome) (\<lambda>pubkey.
         identity_verify ops pubkey data sig \<and> \<not> identity_verify ops pubkey (map of_char ''wrong data'') sig))"

definition from_keypair_test :: "primitives \<Rightarrow> bs58_encode \<Rightarrow> bs58_decode \<Rightarrow> key32 option \<Rightarrow> bool" where
  "from_keypair_test ops enc dec r \<longleftrightarrow>
     tested (generate_random_secret r :: (unit, key32) outcome) (\<lambda>key.
       let pubkey = ed_public ops key; id = identity_from_keypair ops enc key
       in tested (did_to_pubkey dec (did id) :: (unit, key32) outcome) (\<lambda>k. k = pubkey))"

definition pubkey_and_secret_roundtrip :: "primitives \<Rightarrow> bs58_encode \<Rightarrow> bs58_decode \<Rightarrow> key32 option \<Rightarrow> bool" where
  "pubkey_and_secret_roundtrip ops enc dec r \<longleftrightarrow>
     tested (identity_generate ops enc r :: (unit, craft_identity) outcome) (\<lambda>id.
       let pubkey = identity_pubkey ops id; secret = identity_secret_bytes id
       in tested (did_to_pubkey dec (did id) :: (unit, key32) outcome) (\<lambda>k. pubkey = k \<and>
         (let restored = identity_from_secret_bytes ops enc secret
          in identity_pubkey ops restored = pubkey \<and> did restored = did id)))"

definition sign_bytes_and_verify_bytes :: "primitives \<Rightarrow> bs58_encode \<Rightarrow> key32 option \<Rightarrow> bool" where
  "sign_bytes_and_verify_bytes ops enc r \<longleftrightarrow>
     tested (identity_generate ops enc r :: (unit, craft_identity) outcome) (\<lambda>id.
       let data = map of_char ''test message''; sig_bytes = identity_sign_bytes ops id data
       in identity_verify_bytes ops (identity_pubkey ops id) data sig_bytes \<and>
          \<not> identity_verify_bytes ops (identity_pubkey ops id) (map of_char ''wrong'') sig_bytes)"

definition verify_with_did_test :: "primitives \<Rightarrow> bs58_encode \<Rightarrow> bs58_decode \<Rightarrow> key32 option \<Rightarrow> bool" where
  "verify_with_did_test ops enc dec r \<longleftrightarrow>
     tested (identity_generate ops enc r :: (unit, craft_identity) outcome) (\<lambda>id.
       let data = map of_char ''verify via did''; sig = identity_sign ops id data
       in tested (identity_verify_with_did ops dec (did id) data sig :: (unit, bool) outcome) (\<lambda>ok. ok))"

lemma did_from_prefix:
  assumes "utf8_valid (map of_char (DID_PREFIX @ e))"
  shows "did_from_str dec (DID_PREFIX @ e) =
    (if e = [] then Err (did_error.InvalidFormat ''missing key portion'')
     else case dec e of Inl x \<Rightarrow> Err (InvalidBase58 x)
       | Inr b \<Rightarrow> if length b \<noteq> 32 then Err (InvalidKeyLength (length b)) else Ok (Did (DID_PREFIX @ e)))"
  by (simp add: did_from_str_def after_prefix [OF assms])

lemma did_tests_pass:
  assumes "base58_law enc dec"
  shows "did_roundtrip_pubkey enc dec" and "parse_valid enc dec" and "parse_invalid_prefix dec" and "parse_empty_key dec"
    and "parse_wrong_key_length enc dec" and "derive_document enc"
    and "dec ''0OIl'' = Inl e \<Longrightarrow> parse_invalid_base58 dec"
proof -
  note rt = did_roundtrip [OF assms]
  show "did_roundtrip_pubkey enc dec"
    by (simp add: did_roundtrip_pubkey_def rt Let_def) (simp add: did_display_def did_from_pubkey_def DID_PREFIX_def)
  have "did_display d = did_as_str d" for d by (cases d) (simp add: did_display_def)
  then show "parse_valid enc dec" by (simp add: parse_valid_def rt Let_def)
  show "parse_invalid_prefix dec"
    by (simp add: parse_invalid_prefix_def did_from_str_def DID_PREFIX_def is_error_def)
  show "parse_empty_key dec"
    by (simp add: parse_empty_key_def did_from_str_def DID_PREFIX_def is_error_def str_from_def is_char_boundary_def)
  have utf8: "utf8_valid (map of_char (DID_PREFIX @ enc (replicate 16 0)))"
    by (rule base58_utf8 [OF assms])
  have "dec (enc (replicate 16 0)) = Inr (replicate 16 0)" and "enc (replicate 16 0) \<noteq> []"
    using assms by (auto simp: base58_law_def)
  with did_from_prefix [OF utf8, of dec] show "parse_wrong_key_length enc dec"
    unfolding parse_wrong_key_length_def DID_PREFIX_def [symmetric] by (simp add: is_error_def)
  show "derive_document enc"
    by (simp add: derive_document_def did_document_derive_def Let_def)
  have "utf8_valid (map of_char (DID_PREFIX @ ''0OIl''))"
    using utf8_ascii_prefix [OF did_prefix_ascii, of "''0OIl''"] by simp
  from did_from_prefix [OF this, of dec] show "parse_invalid_base58 dec" if "dec ''0OIl'' = Inl e"
    using that by (simp add: parse_invalid_base58_def is_error_def DID_PREFIX_def)
qed

lemma identity_tests_pass:
  assumes "base58_law enc dec"
  shows "from_keypair_test ops enc dec (Some s)" and "pubkey_and_secret_roundtrip ops enc dec (Some s)"
    and "signature_law ops \<Longrightarrow> verify_with_did_test ops enc dec (Some s)"
    and "signature_law ops \<Longrightarrow> generate_and_sign_verify ops enc dec (Some s) \<longleftrightarrow>
      \<not> ed_check ops (ed_public ops s) (map of_char ''wrong data'') (ed_sign ops s (map of_char ''hello craftec''))"
    and "signature_law ops \<Longrightarrow> sign_bytes_and_verify_bytes ops enc (Some s) \<longleftrightarrow>
      \<not> ed_check ops (ed_public ops s) (map of_char ''wrong'') (ed_sign ops s (map of_char ''test message''))"
proof -
  have d: "did_to_pubkey dec (did (identity_from_keypair ops enc s)) = (Ok (ed_public ops s) :: (unit, key32) outcome)"
    using did_roundtrip(1) [OF assms] by (simp add: identity_from_keypair_def Let_def)
  have g: "identity_generate ops enc (Some s) = Ok (identity_from_keypair ops enc s)"
    by (simp add: identity_generate_def from_random_def)
  have k: "keypair (identity_from_keypair ops enc s) = s" by (simp add: identity_from_keypair_def Let_def)
  show "from_keypair_test ops enc dec (Some s)"
    using d by (simp add: from_keypair_test_def generate_random_secret_def from_random_def)
  show "pubkey_and_secret_roundtrip ops enc dec (Some s)"
    using d by (simp add: pubkey_and_secret_roundtrip_def g k identity_pubkey_def identity_secret_bytes_def
      identity_from_secret_bytes_def)
  show "verify_with_did_test ops enc dec (Some s)" if "signature_law ops"
    using d that by (simp add: verify_with_did_test_def g k identity_verify_with_did_def identity_verify_def
      identity_sign_def signature_law_def Let_def)
  show "generate_and_sign_verify ops enc dec (Some s) \<longleftrightarrow>
      \<not> ed_check ops (ed_public ops s) (map of_char ''wrong data'') (ed_sign ops s (map of_char ''hello craftec''))"
    if "signature_law ops"
    using d that by (simp add: generate_and_sign_verify_def g k identity_verify_def identity_sign_def signature_law_def Let_def)
  show "sign_bytes_and_verify_bytes ops enc (Some s) \<longleftrightarrow>
      \<not> ed_check ops (ed_public ops s) (map of_char ''wrong'') (ed_sign ops s (map of_char ''test message''))"
    if "signature_law ops"
    using that by (simp add: sign_bytes_and_verify_bytes_def g k identity_verify_bytes_def identity_sign_bytes_def
      identity_pubkey_def identity_verify_def identity_sign_def signature_law_def Let_def)
qed

section \<open>Tests of keystore\<close>

definition temp_dir :: path where
  "temp_dir = ''/tmp''"

text \<open>\<open>let _ = fs::remove_dir_all(&dir)\<close>: nothing is left at or under the path.\<close>

definition remove_dir_all :: "path \<Rightarrow> file_system \<Rightarrow> file_system" where
  "remove_dir_all p d = d\<lparr>files := (\<lambda>q. if p \<in> set (ancestors q) then None else files d q),
     dirs := {q \<in> dirs d. p \<notin> set (ancestors q)}\<rparr>"

definition test_generate_and_load_keypair :: "primitives \<Rightarrow> key32 option \<Rightarrow> key32 option \<Rightarrow> file_system \<Rightarrow> bool" where
  "test_generate_and_load_keypair ops r1 r2 d =
     (let dir = path_join temp_dir ''craftec-keystore-test''; p = path_join dir ''test.key'';
          (kp1, d1) = load_or_generate_keypair ops io_ok r1 p (remove_dir_all dir d)
      in tested kp1 (\<lambda>kp1. let (kp2, d2) = load_or_generate_keypair ops io_ok r2 p d1
        in tested kp2 (\<lambda>kp2. signing_public_key_bytes kp2 = signing_public_key_bytes kp1)))"

definition test_invalid_key_format :: "primitives \<Rightarrow> key32 option \<Rightarrow> file_system \<Rightarrow> bool" where
  "test_invalid_key_format ops r d =
     (let dir = path_join temp_dir ''craftec-keystore-test-invalid'';
          (created, d1) = create_dir_all io_ok dir (remove_dir_all dir d);
          p = path_join dir ''bad.key''
      in tested created (\<lambda>_. let (written, d2) = fs_write io_ok p (map of_char ''too short'') d1
        in tested written (\<lambda>_. fst (load_or_generate_keypair ops io_ok r p d2) = Err InvalidFormat)))"

definition test_default_paths :: "environment \<Rightarrow> (string \<Rightarrow> string) \<Rightarrow> bool" where
  "test_default_paths env lower \<longleftrightarrow>
     sublist ''keys'' (default_keystore_dir_for env lower ''craftobj'') \<and>
     default_config_dir_for env lower ''craftobj'' \<noteq> [] \<and>
     sublist ''signing.key'' (default_key_path_for env lower ''craftobj'')"

definition test_expand_path :: "environment \<Rightarrow> bool" where
  "test_expand_path env = tested (expand_path env ''~/test'' :: (unit, path) outcome) (\<lambda>expanded. \<not> prefix ''~'' expanded)"

lemma removed:
  "p \<in> set (ancestors q) \<Longrightarrow> \<not> path_exists io (remove_dir_all p d) q"
  by (simp add: path_exists_def present_def remove_dir_all_def)

lemma first_load:
  assumes "\<not> path_exists io_ok d p"
  shows "\<exists>d'. load_or_generate_keypair ops io_ok (Some s) p d = (Ok (signing_from_secret_bytes ops s), d')"
  using assms by (cases "path_parent p")
    (simp_all add: keystore.load_absent outcome_simps fs_write_def create_parent_def create_dir_all_def
      signing_generate_def from_random_def signing_from_secret_bytes_def)

lemma key_test_paths:
  "path_join (path_join temp_dir ''craftec-keystore-test'') ''test.key'' = ''/tmp/craftec-keystore-test/test.key''"
  "path_join temp_dir ''craftec-keystore-test'' \<in> set (ancestors ''/tmp/craftec-keystore-test/test.key'')"
  by code_simp+

lemma sublist_joined: "sublist p (path_join dir p)"
proof -
  have "\<exists>x. path_join dir p = x @ p"
    by (cases "p \<noteq> [] \<and> hd p = CHR ''/''"; cases "dir \<noteq> [] \<and> last dir \<noteq> CHR ''/''")
      (simp_all add: path_join_def exI [of _ "dir @ ''/''"])
  then show ?thesis by auto
qed

lemma path_join_nonempty: "q \<noteq> [] \<Longrightarrow> path_join p q \<noteq> []"
  by (simp add: path_join_def)

lemma keystore_tests_pass:
  shows "test_generate_and_load_keypair ops (Some s) r d"
    and "test_invalid_key_format ops r d"
    and "lower ''craftobj'' \<noteq> [] \<Longrightarrow> test_default_paths env lower"
    and "test_expand_path env \<longleftrightarrow> \<not> prefix ''~'' (home_dir env)"
proof -
  let ?key = "''/tmp/craftec-keystore-test/test.key''"
  obtain d' where first: "load_or_generate_keypair ops io_ok (Some s) ?key
      (remove_dir_all (path_join temp_dir ''craftec-keystore-test'') d) = (Ok (signing_from_secret_bytes ops s), d')"
    using first_load [OF removed [OF key_test_paths(2)]] by blast
  have "load_or_generate_keypair ops io_ok r ?key d' = (Ok (signing_from_secret_bytes ops s), d')"
    by (rule keystore.reload [OF first]) (auto dest: keypair_on_disk [OF signing_generate_coherent])
  with first show "test_generate_and_load_keypair ops (Some s) r d"
    by (simp add: test_generate_and_load_keypair_def key_test_paths(1) Let_def)
  show "test_invalid_key_format ops r d"
    by (simp add: test_invalid_key_format_def create_dir_all_def fs_write_def Let_def
      keystore.load_file [where bs = "map of_char ''too short''"] read_keypair_def)
  show "test_default_paths env lower" if "lower ''craftobj'' \<noteq> []"
    using that by (simp add: test_default_paths_def default_key_path_for_def default_keystore_dir_for_def
      default_config_dir_for_def sublist_joined path_join_nonempty)
  show "test_expand_path env \<longleftrightarrow> \<not> prefix ''~'' (home_dir env)"
    by (cases "home_dir env") (auto simp: test_expand_path_def expand_path_def str_from_def outcome_simps tilde_boundary
      continuation_def path_join_def)
qed

section \<open>Tests of settings, logging and app\<close>

record test_config =
  tc_name :: string
  tc_value :: u32

definition test_settings_load_or_default :: "test_config codec \<Rightarrow> environment \<Rightarrow> (string \<Rightarrow> string) \<Rightarrow> file_system \<Rightarrow> bool" where
  "test_settings_load_or_default js env lower d =
     (let dir = path_join temp_dir ''craftec-settings-test''; p = path_join dir ''test-settings.json'';
          (s1, d1) = load_or_default js env lower io_ok ''test'' (Some p) (remove_dir_all dir d)
      in tested s1 (\<lambda>s1. config s1 = default_config js \<and>
        tested (fst (load_or_default js env lower io_ok ''test'' (Some p) d1)) (\<lambda>s2. config s2 = default_config js)))"

definition test_settings_save_and_load :: "test_config codec \<Rightarrow> environment \<Rightarrow> (string \<Rightarrow> string) \<Rightarrow> file_system \<Rightarrow> bool" where
  "test_settings_save_and_load js env lower d =
     (let dir = path_join temp_dir ''craftec-settings-test-save''; p = path_join dir ''config.json'';
          (s, d1) = load_or_default js env lower io_ok ''test'' (Some p) (remove_dir_all dir d)
      in tested s (\<lambda>s.
        let (saved, d2) = settings_save js io_ok (s\<lparr>config := \<lparr>tc_name = ''modified'', tc_value = 42\<rparr>\<rparr>) d1
        in tested saved (\<lambda>_. tested (fst (load_or_default js env lower io_ok ''test'' (Some p) d2)) (\<lambda>s.
             tc_name (config s) = ''modified'' \<and> tc_value (config s) = 42))))"

definition test_log_level_from_verbose :: bool where
  "test_log_level_from_verbose \<longleftrightarrow> log_level_from_verbose False = Info \<and> log_level_from_verbose True = Debug"

definition test_log_level_from_verbosity :: bool where
  "test_log_level_from_verbosity \<longleftrightarrow> log_level_from_verbosity 0 = Info \<and> log_level_from_verbosity 1 = Debug \<and>
     log_level_from_verbosity 2 = Trace \<and> log_level_from_verbosity 10 = Trace"

definition test_log_level_as_str :: bool where
  "test_log_level_as_str \<longleftrightarrow> log_level_as_str Error = ''error'' \<and> log_level_as_str Warn = ''warn'' \<and>
     log_level_as_str Info = ''info'' \<and> log_level_as_str Debug = ''debug'' \<and> log_level_as_str Trace = ''trace''"

definition test_app_type_name :: bool where
  "test_app_type_name \<longleftrightarrow> app_type_name Cli = ''CLI'' \<and> app_type_name Desktop = ''Desktop'' \<and> app_type_name Daemon = ''Daemon''"

text \<open>The key of this test is at its place under the home directory, and is not removed.\<close>

definition test_app_builder ::
    "primitives \<Rightarrow> 'c codec \<Rightarrow> environment \<Rightarrow> (string \<Rightarrow> string) \<Rightarrow> string \<Rightarrow> key32 option \<Rightarrow> file_system \<Rightarrow> bool" where
  "test_app_builder ops js env lower version r d =
     (let dir = path_join temp_dir ''craftec-app-test''; p = path_join dir ''settings.json'';
          builder = set_config_path p (set_skip_banner (set_skip_logging (set_app_type Daemon (builder_new ''craftec-app-test''))))
      in tested (fst (fst (app_build ops js env lower version io_ok io_ok r builder (remove_dir_all dir d)))) (\<lambda>app.
        app_service app = ''craftec-app-test'' \<and> app_kind app = Daemon))"

lemma first_settings:
  assumes "\<not> path_exists io_ok d p" and "to_json js (default_config js) = Ok t"
  shows "\<exists>d'. load_or_default js env lower io_ok name (Some p) d = (Ok \<lparr>config = default_config js, settings_path = p\<rparr>, d')"
  using assms by (cases "path_parent p")
    (simp_all add: settings.load_absent outcome_simps fs_write_def create_parent_def create_dir_all_def)

lemma settings_test_paths:
  "path_join (path_join temp_dir ''craftec-settings-test'') ''test-settings.json'' = ''/tmp/craftec-settings-test/test-settings.json''"
  "path_join temp_dir ''craftec-settings-test'' \<in> set (ancestors ''/tmp/craftec-settings-test/test-settings.json'')"
  "path_join (path_join temp_dir ''craftec-settings-test-save'') ''config.json'' = ''/tmp/craftec-settings-test-save/config.json''"
  "path_join temp_dir ''craftec-settings-test-save'' \<in> set (ancestors ''/tmp/craftec-settings-test-save/config.json'')"
  "path_join (path_join temp_dir ''craftec-app-test'') ''settings.json'' = ''/tmp/craftec-app-test/settings.json''"
  "path_join temp_dir ''craftec-app-test'' \<in> set (ancestors ''/tmp/craftec-app-test/settings.json'')"
  by code_simp+

lemma settings_tests_pass:
  assumes "round_trips js (default_config js)" and "to_json js (default_config js) = Ok t"
    and "to_json js \<lparr>tc_name = ''modified'', tc_value = 42\<rparr> = Ok u" and "round_trips js \<lparr>tc_name = ''modified'', tc_value = 42\<rparr>"
  shows "test_settings_load_or_default js env lower d" and "test_settings_save_and_load js env lower d"
proof -
  let ?p = "''/tmp/craftec-settings-test/test-settings.json''"
  obtain d' where "load_or_default js env lower io_ok ''test'' (Some ?p)
      (remove_dir_all (path_join temp_dir ''craftec-settings-test'') d) = (Ok \<lparr>config = default_config js, settings_path = ?p\<rparr>, d')"
    using first_settings [OF removed [OF settings_test_paths(2)] assms(2)] by blast
  with settings_reload [OF assms(1) io_ok_simps(1,2) this]
  show "test_settings_load_or_default js env lower d"
    by (simp add: test_settings_load_or_default_def settings_test_paths(1) Let_def)
  let ?q = "''/tmp/craftec-settings-test-save/config.json''"
  obtain d1 where first: "load_or_default js env lower io_ok ''test'' (Some ?q)
      (remove_dir_all (path_join temp_dir ''craftec-settings-test-save'') d) = (Ok \<lparr>config = default_config js, settings_path = ?q\<rparr>, d1)"
    using first_settings [OF removed [OF settings_test_paths(4)] assms(2)] by blast
  let ?s = "\<lparr>config = \<lparr>tc_name = ''modified'', tc_value = 42\<rparr>, settings_path = ?q\<rparr>"
  obtain d2 where save: "settings_save js io_ok ?s d1 = (Ok (), d2)"
    using create_parent_io_ok [of ?q d1] assms(3) by (auto simp: settings_save_def outcome_simps fs_write_def)
  from settings_are_kept_parts(1) [OF assms(1) io_ok_simps(1,2) save, of env lower "''test''"] first save assms(4)
  show "test_settings_save_and_load js env lower d"
    by (simp add: test_settings_save_and_load_def settings_test_paths(3) Let_def)
qed

lemma logging_tests_pass:
  "test_log_level_from_verbose" "test_log_level_from_verbosity" "test_log_level_as_str" "test_app_type_name"
  by (simp_all add: test_log_level_from_verbose_def test_log_level_from_verbosity_def test_log_level_as_str_def
      test_app_type_name_def log_level_from_verbose_def log_level_from_verbosity_def)

lemma dirs_create_parent: "dirs (snd (create_parent io_ok p d)) \<subseteq> dirs d \<union> set (ancestors p)"
  by (cases "path_parent p")
    (auto simp: create_parent_def create_dir_all_def ancestors.simps [of p] dest: path_parent_shorter)

lemma first_load_elsewhere:
  assumes "\<not> path_exists io_ok d p" and "\<not> path_exists io_ok d q" and "q \<notin> set (ancestors p)" and "q \<noteq> p"
  shows "\<exists>d'. load_or_generate_keypair ops io_ok (Some s) p d = (Ok (signing_from_secret_bytes ops s), d') \<and>
    \<not> path_exists io_ok d' q"
proof -
  obtain d1 where d1: "create_parent io_ok p d = (Ok (), d1)"
    using create_parent_io_ok by blast
  then have "load_or_generate_keypair ops io_ok (Some s) p d
      = (Ok (signing_from_secret_bytes ops s), d1\<lparr>files := (files d1)(p \<mapsto> key_bytes s)\<rparr>)"
    using assms(1) by (simp add: keystore.load_absent outcome_simps fs_write_def
      signing_generate_def from_random_def signing_from_secret_bytes_def signing_secret_key_bytes_def)
  moreover have "files d1 = files d" and "dirs d1 \<subseteq> dirs d \<union> set (ancestors p)"
    using create_parent_Ok [OF d1] dirs_create_parent [of p d] d1 by simp_all
  ultimately show ?thesis
    using assms(2-4) by (auto simp: path_exists_def present_def)
qed

lemma app_test_passes:
  assumes p: "p = default_key_path_for env lower ''craftec-app-test''"
    and "to_json js (default_config js) = Ok t"
    and "\<not> path_exists io_ok d p" and "''/tmp/craftec-app-test/settings.json'' \<notin> set (p # ancestors p)"
  shows "test_app_builder ops js env lower version (Some s) d"
proof -
  let ?c = "''/tmp/craftec-app-test/settings.json''"
  let ?d = "remove_dir_all (path_join temp_dir ''craftec-app-test'') d"
  have "\<not> path_exists io_ok ?d p"
    using assms(3) by (simp add: path_exists_def present_def remove_dir_all_def)
  moreover have "\<not> path_exists io_ok ?d ?c"
    by (rule removed [OF settings_test_paths(6)])
  ultimately obtain d1 where key: "load_or_generate_keypair ops io_ok (Some s) p ?d = (Ok (signing_from_secret_bytes ops s), d1)"
    and "\<not> path_exists io_ok d1 ?c"
    using first_load_elsewhere [of ?d p ?c ops s] assms(4) by auto
  then obtain d2 where "load_or_default js env lower io_ok ''craftec-app-test'' (Some ?c) d1
      = (Ok \<lparr>config = default_config js, settings_path = ?c\<rparr>, d2)"
    using first_settings assms(2) by blast
  with key show ?thesis
    by (simp add: test_app_builder_def settings_test_paths(5) app_build_def builder_new_def set_app_type_def
      set_skip_logging_def set_skip_banner_def set_config_path_def p [symmetric] outcome_simps Let_def)
qed

lemma app_test_fails:
  assumes p: "p = default_key_path_for env lower ''craftec-app-test''"
    and "files d p = Some bs" and "length bs \<noteq> 32"
    and "''/tmp/craftec-app-test'' \<notin> set (ancestors p)"
  shows "\<not> test_app_builder ops js env lower version r d"
proof -
  have "path_join temp_dir ''craftec-app-test'' = ''/tmp/craftec-app-test''"
    by (simp add: path_join_def temp_dir_def)
  then have "files (remove_dir_all (path_join temp_dir ''craftec-app-test'') d) p = Some bs"
    using assms(2,4) by (simp add: remove_dir_all_def)
  then have "fst (load_or_generate_keypair ops io_ok r p (remove_dir_all (path_join temp_dir ''craftec-app-test'') d))
      = Err InvalidFormat"
    using assms(3) by (simp add: keystore.load_file [where bs = bs] read_keypair_def)
  then show ?thesis
    by (cases "load_or_generate_keypair ops io_ok r p (remove_dir_all (path_join temp_dir ''craftec-app-test'') d)")
      (simp add: test_app_builder_def app_build_def builder_new_def set_app_type_def
      set_skip_logging_def set_skip_banner_def set_config_path_def p [symmetric] outcome_simps Let_def)
qed

section \<open>Tests of ipc\<close>

text \<open>\<open>mk\<close> builds the JSON object of an \<open>EchoHandler\<close>, \<open>field\<close> reads a text out of one.\<close>

definition echo_handler :: "(string \<Rightarrow> string \<Rightarrow> 'v) \<Rightarrow> string \<Rightarrow> ('v, unit) handler" where
  "echo_handler mk p method params st = (Inr (mk p method), st)"

definition echoed :: "('v \<Rightarrow> string \<Rightarrow> string option) \<Rightarrow> ('v, unit) namespaced_handler \<Rightarrow> string \<Rightarrow> string \<Rightarrow> string \<Rightarrow> bool" where
  "echoed field router method h m = (case fst (handle_namespaced router method None ()) of
     Inr result \<Rightarrow> field result ''handler'' = Some h \<and> field result ''method'' = Some m
   | Inl e \<Rightarrow> False)"

definition test_namespace_routing :: "(string \<Rightarrow> string \<Rightarrow> 'v) \<Rightarrow> ('v \<Rightarrow> string \<Rightarrow> string option) \<Rightarrow> bool" where
  "test_namespace_routing mk field \<longleftrightarrow>
     (let router = add_namespace ''data'' (echo_handler mk ''data'') (add_namespace ''tunnel'' (echo_handler mk ''tunnel'') router_new)
      in echoed field router ''tunnel.connect'' ''tunnel'' ''connect'' \<and> echoed field router ''data.publish'' ''data'' ''publish'')"

definition test_default_handler :: "(string \<Rightarrow> string \<Rightarrow> 'v) \<Rightarrow> ('v \<Rightarrow> string \<Rightarrow> string option) \<Rightarrow> bool" where
  "test_default_handler mk field \<longleftrightarrow>
     echoed field (set_default (echo_handler mk ''default'') router_new) ''status'' ''default'' ''status''"

definition test_unknown_namespace_falls_to_default :: "(string \<Rightarrow> string \<Rightarrow> 'v) \<Rightarrow> ('v \<Rightarrow> string \<Rightarrow> string option) \<Rightarrow> bool" where
  "test_unknown_namespace_falls_to_default mk field \<longleftrightarrow>
     echoed field (set_default (echo_handler mk ''default'') (add_namespace ''tunnel'' (echo_handler mk ''tunnel'') router_new))
       ''unknown.method'' ''default'' ''unknown.method''"

definition test_no_handler_returns_error :: bool where
  "test_no_handler_returns_error =
     (case fst (handle_namespaced (router_new :: (unit, unit) namespaced_handler) ''tunnel.connect'' None ()) of
        Inl e \<Rightarrow> sublist ''unknown method'' e | Inr _ \<Rightarrow> False)"

definition test_client_creation :: bool where
  "test_client_creation \<longleftrightarrow> client_socket (client_new ''/tmp/test.sock'') = ''/tmp/test.sock''"

text \<open>Nothing listens at this path.\<close>

definition test_daemon_not_running :: "'v json \<Rightarrow> (string \<Rightarrow> string + string) \<Rightarrow> bool" where
  "test_daemon_not_running j exchange \<longleftrightarrow>
     (let client = client_new ''/tmp/nonexistent-craftec-test.sock''
      in fst (send_request j (is_daemon_running client \<lparr>socket_at = Map.empty, listening = {}\<rparr>) exchange ''status'' None client)
        = Err DaemonNotRunning)"

definition test_ipc_server_creation :: bool where
  "test_ipc_server_creation \<longleftrightarrow> server_socket (server_new ''/tmp/test-craftec.sock'') = ''/tmp/test-craftec.sock''"

definition test_server_builder_creation :: bool where
  "test_server_builder_creation \<longleftrightarrow>
     sb_socket_path (server_builder_new ''/tmp/test-builder.sock'' :: (unit, unit) server_builder) = ''/tmp/test-builder.sock''"

text \<open>A receiver on the events of a daemon, and \<open>try_recv\<close> on it.\<close>

definition subscribed :: "unit daemon_state" where
  "subscribed = add_link Handshake \<lparr>links = [], shared = ()\<rparr>"

definition try_recv :: "'s daemon_state \<Rightarrow> string option" where
  "try_recv d = (case backlog (hd (links d)) of [] \<Rightarrow> None | msg # rest \<Rightarrow> Some msg)"

definition test_event_broadcast :: "'v json \<Rightarrow> 'v \<Rightarrow> bool" where
  "test_event_broadcast j data = (case send_event j ''test'' data of
     Event text \<Rightarrow> (case try_recv (send_all text subscribed) of Some msg \<Rightarrow> sublist ''test'' msg | None \<Rightarrow> False)
   | _ \<Rightarrow> False)"

definition test_server_builder_event_sender :: bool where
  "test_server_builder_event_sender \<longleftrightarrow> try_recv (send_all ''test event'' subscribed) = Some ''test event''"

lemma ipc_tests_pass:
  shows "(\<And>p m. field (mk p m) ''handler'' = Some p \<and> field (mk p m) ''method'' = Some m) \<Longrightarrow>
      test_namespace_routing mk field \<and> test_default_handler mk field \<and> test_unknown_namespace_falls_to_default mk field"
    and "test_no_handler_returns_error" and "test_client_creation" and "test_daemon_not_running j exchange"
    and "test_ipc_server_creation" and "test_server_builder_creation" and "test_server_builder_event_sender"
    and "sublist ''test'' (print_event j ''test'' data) \<Longrightarrow> test_event_broadcast j data"
  by (simp_all add: test_namespace_routing_def test_default_handler_def test_unknown_namespace_falls_to_default_def
      test_no_handler_returns_error_def test_client_creation_def test_daemon_not_running_def test_ipc_server_creation_def
      test_server_builder_creation_def test_server_builder_event_sender_def test_event_broadcast_def echoed_def
      handle_namespaced_def route_def add_namespace_def set_default_def router_new_def echo_handler_def client_new_def
      send_request_def is_daemon_running_def server_new_def server_builder_new_def subscribed_def try_recv_def send_all_def
      add_link_def new_link_def send_event_def)

end
