(* ===== verification/Spec2Isabelle.thy ===== *)
theory Spec2Isabelle
  imports Submit Payout Restore Lifecycle Content_Tests Ledger_Tests Network_Tests Node_Tests
begin

text \<open>
  Verification development of craftec-core, the Rust workspace under \<open>src/crates\<close>.

  The program. Content is cut into segments, encoded into coded pieces over GF(256) and spread over
  nodes, which recombine, repair and verify pieces without the original (\<open>erasure\<close>). Nodes that answer
  storage challenges collect signed receipts; an aggregator validates and groups them by pool, proves
  the distribution of each pool's epoch and posts it to a settlement program, from which operators
  claim (\<open>core\<close>, \<open>settlement\<close>, \<open>prover\<close>, \<open>prover-guest-types\<close>, \<open>distribution-guest\<close>, \<open>aggregator\<close>). Nodes
  find each other and exchange messages over libp2p (\<open>network\<close>), serve local clients over JSON-RPC
  (\<open>ipc\<close>), run sandboxed WebAssembly agents (\<open>agent-runtime\<close>), and start from a key file and a settings
  file (\<open>crypto\<close>, \<open>identity\<close>, \<open>keystore\<close>, \<open>settings\<close>, \<open>app\<close>, \<open>logging\<close>).

  The theories, each opening with what it holds:

  \<^item> \<open>Prelude\<close>: machine words, 32-byte keys, the type \<open>outcome\<close> of a computation that returns, fails or
    panics, checked and saturating arithmetic, UTF-8 and string slices, and the locale of fixed-width
    codecs with its interpretations.
  \<^item> \<open>Gf256\<close> (\<open>erasure/gf256.rs\<close>): the tables and the field operations; the product is the product of
    polynomials, the operations form a field. \<open>Rows\<close>: vectors over it, spans, independence.
  \<^item> \<open>Rlnc\<close>, \<open>Decoder\<close>, \<open>Rank\<close>, \<open>Repair\<close> (\<open>erasure/lib.rs\<close>): encoding and recombination with the sequence of
    random bytes as an argument; Gauss-Jordan decoding, characterised by the system it solves; rank and
    the choice of an independent vector per node; the piece that realises it.
  \<^item> \<open>Homomorphic\<close> (\<open>homomorphic.rs\<close>): projections, segment hashes, piece verification, the content
    record. \<open>Segmenter\<close> (\<open>segmenter.rs\<close>): segmentation and reassembly, and the properties that run
    through the whole of \<open>erasure\<close>. \<open>Selections\<close>: which selections of source, drawn and recombined
    pieces decode. \<open>Restore\<close>: nodes that repair one after the other, until the segment decodes again.
  \<^item> \<open>Ordered_Map\<close> (\<open>BTreeMap\<close> as a sorted association list), \<open>Core\<close> (\<open>core/lib.rs\<close>), \<open>Merkle\<close>
    (\<open>prover/merkle.rs\<close>: the loop is the root of the padded tree), \<open>Prover\<close> (\<open>prover/lib.rs\<close> as built by
    default and the guest's types), \<open>Guest\<close> (\<open>distribution-guest\<close> and the client of the feature \<open>sp1\<close>):
    the program proved in the virtual machine agrees with the host; the contract of a prover is a
    locale, interpreted for the mock client and, over the locale of a virtual machine, for SP1.
  \<^item> \<open>Fee\<close>, \<open>Pda\<close>, \<open>Accounts\<close>, \<open>Instruction\<close> (\<open>settlement\<close>): fees and payouts, derived addresses, signed
    bytes, instruction data and account lists.
  \<^item> \<open>Collector\<close>, \<open>Batch\<close>, \<open>Service\<close>, \<open>Submit\<close> (\<open>aggregator\<close>): ingestion with persistence and recovery, as
    operations and as a step relation with its invariant; batches and transactions; the end of an epoch
    and a round of each service loop; the submitters behind the trait, a locale interpreted for both. \<open>Payout\<close>:
    what runs through all of these, from collected receipts to the lamports that are claimed.
  \<^item> \<open>Wire\<close>, \<open>Pex\<close>, \<open>Network\<close> (\<open>network\<close>): frames on a byte stream; the manager of known peers and its
    messages; the behaviour with two Kademlia tables, the swarm, bootstrap addresses.
  \<^item> \<open>Ipc\<close> (\<open>ipc\<close>): requests, routing by namespace, the connection loop as steps over what the socket
    delivers, the WebSocket handshake, the client. \<open>Daemon\<close> (\<open>server.rs\<close>, \<open>ws.rs\<close>): socket files, the
    builder and its start, and all connections at once as a step relation over labels: invariants of
    each connection over the labels of a run, isolation, the order and the delivery of events.
  \<^item> \<open>Agent\<close> (\<open>agent-runtime\<close>): permissions, every host function on guest memory, the content store (a
    locale interpreted for the store of the crate). \<open>Sql\<close>: the calls on SQLite, a parser for the fragment
    of SQL the whitelist is written in, and a locale of what SQLite documents for every text of that
    fragment, interpreted by tables in memory that run any such text. \<open>Lifecycle\<close>: the whitelist, whose
    statements are the texts of the source and are parsed; the health check; the sandbox, loading and
    the registry.
  \<^item> \<open>Keys\<close> (\<open>crypto\<close>, \<open>identity\<close>), \<open>Keystore\<close> (\<open>keystore\<close>), \<open>Settings\<close> (\<open>settings\<close>, \<open>app\<close>, \<open>logging\<close>): keys,
    signatures, sealed messages, identifiers; the key file and the settings file, two interpretations of
    the locale \<open>file_backed\<close> of a value kept in a file; the start of an application.
  \<^item> \<open>Testing\<close>, \<open>Erasure_Tests\<close>, \<open>Content_Tests\<close>, \<open>Ledger_Tests\<close>, \<open>Network_Tests\<close>, \<open>Node_Tests\<close>: the inline unit
    tests of the crates, each as a definition over the model that says whether it passes, under the name
    of its function. The lemmas show that a test passes, for every hash function, codec and generator it
    depends on, or state exactly when it does. They check the model against what the code was run on.

  Conventions. \<open>u8\<close> to \<open>u64\<close> are words; \<open>usize\<close> is \<open>nat\<close>, since lengths and indices of Rust buffers
  never exceed \<open>isize::MAX\<close>, and where an operation on them can leave the type this is written out
  (\<open>usize_add\<close>, \<open>usize_mul\<close>, \<open>usize_sub\<close>). The argument \<open>oc\<close> chooses between the build that checks overflow
  and panics and the one that wraps; where host and guest appear together they share it. A panic is a value;
  a poisoned lock, an allocation failure and a cancelled task are not modelled. A Rust \<open>String\<close> is its
  UTF-8 bytes, as a HOL \<open>string\<close> or as \<open>bytes\<close>. The order in which a hash map is iterated is an argument
  (\<open>order\<close>), and properties hold for every order; clocks, random bytes, arriving messages and the
  answers of the operating system are arguments as well.

  Parameters stand for code that is not in the repository: SHA-256, blake3, ed25519, x25519, the AEAD
  cipher and base58; bincode and serde_json; libp2p with peer ids and multiaddresses; SQLite; wasmtime;
  the SP1 virtual machine; Unicode case mapping. What a property assumes of them is a named hypothesis or definition
  (\<open>aead_law\<close>, \<open>exchange_law\<close>, \<open>signature_law\<close>, \<open>base58_law\<close>, the locales \<open>zkvm\<close> and \<open>sqlite\<close>, \<open>round_trips\<close> for
  single values in JSON, and injectivity where hashes or encodings must not collide), and its witness
  has a concrete function for each. The input of the guest is handed from \<open>SP1Stdin::write\<close> to
  \<open>sp1_zkvm::io::read\<close> as it is: that these two agree on its serialisation is part of the parameter.

  Recursion. All loops of the code are structural recursions or folds, save the redraw of a zero byte in
  a recombination, which may never end: \<open>draw_nonzero\<close> is a partial function, and
  \<open>Rlnc.recombination_returns\<close> says exactly when it returns. Services that loop for ever are modelled by
  one round, to be iterated, or as a step relation (\<open>Collector\<close>, \<open>Daemon\<close>). No fuel is used.

  What the modelling showed. Several properties state behaviour the code probably does not intend: a
  late receipt is paid twice and a receipt stamped 0 takes its pool's queue with it (\<open>Service\<close>), a distribution that cannot be submitted is lost (\<open>Payout\<close>),
  recovery never finds persisted receipts (\<open>Collector\<close>), repair from known pieces fails (\<open>Repair\<close>), an event drops a half-received request and
  is taken for the response to a call (\<open>Ipc\<close>), guests can panic
  their host (\<open>Agent\<close>), the SP1 verifier never looks at a proof and a
  proved total may have wrapped (\<open>Guest\<close>), a second server takes over the socket of the first and a
  WebSocket without a key is open to all interfaces (\<open>Daemon\<close>), updates of the whitelist need no
  authority and heartbeats of the future count (\<open>Lifecycle\<close>), an interrupted first start makes the key file unusable and \<open>~\<close> panics
  (\<open>Keystore\<close>), a deserialised identifier can panic (\<open>Keys\<close>), events of the secondary table are
  reported as those of the primary (\<open>Network\<close>), some unit tests fail for some random draws (\<open>Content_Tests\<close>)
  or leave a key in the home directory (\<open>Node_Tests\<close>).

  Not modelled: transport configuration and the sockets themselves; what a handler of \<open>ipc\<close> does
  between two of its own awaits (a request is one step); the coordinator that \<open>network/shared.rs\<close>
  speaks of, which is not in the repository (its commands and events are datatypes); the formatting of
  log lines; the effect of SQL outside the fragment of \<open>Sql\<close>; that two spellings of a path may name one
  file. Of the tests: the files \<open>tests.rs\<close>, those that search the text serde_json prints or measure its
  length, and the one that binds real sockets.
\<close>

end
